(* ===== verification/Prelude.thy ===== *)
theory Prelude
  imports Main "HOL-Library.Word" "HOL-Library.Monad_Syntax"
begin

text \<open>
  What every component of the development shares: the widths of the C integer types of the AArch64
  builds (\<open>unsigned int\<close> is 32 bits, \<open>uintptr_t\<close>, \<open>size_t\<close> and \<open>register_t\<close> are 64 bits), the
  \<open>errno\<close> values of the C library, a byte-addressed memory with \<open>memcpy\<close> and \<open>memset\<close>, C's
  \<open>assert\<close> as a partial computation, and the interface (a locale) of a state machine with an
  invariant, which the components with a life cycle interpret.
\<close>

unbundle bit_operations_syntax

section \<open>C integers\<close>

type_synonym u8 = "8 word"
type_synonym u16 = "16 word"
type_synonym u32 = "32 word"
type_synonym u64 = "64 word"

text \<open>Error codes are the negated values of \<open>errno.h\<close>; a C \<open>int\<close> result is an \<open>int\<close>.\<close>

named_theorems errno_defs \<open>the values of the errno constants\<close>

definition EPERM :: int where [errno_defs]: "EPERM = 1"
definition ENOENT :: int where [errno_defs]: "ENOENT = 2"
definition EIO :: int where [errno_defs]: "EIO = 5"
definition ENOMEM :: int where [errno_defs]: "ENOMEM = 12"
definition EBUSY :: int where [errno_defs]: "EBUSY = 16"
definition ENODEV :: int where [errno_defs]: "ENODEV = 19"
definition EINVAL :: int where [errno_defs]: "EINVAL = 22"
definition EFBIG :: int where [errno_defs]: "EFBIG = 27"
definition EAUTH :: int where [errno_defs]: "EAUTH = 80"

section \<open>C assertions\<close>

text \<open>
  A failing \<open>assert\<close>, a \<open>panic\<close> and a \<open>NULL\<close> dereference stop the firmware; the computation has
  no result, which is the value \<^term>\<open>None\<close>. A function that can stop returns an \<open>option\<close>, and the
  \<open>do\<close> notation sequences it.
\<close>

definition assert_c :: "bool \<Rightarrow> unit option" where
  "assert_c b = (if b then Some () else None)"

lemma assert_c_True [simp]: "assert_c True = Some ()"
  by (simp add: assert_c_def)

lemma assert_c_False [simp]: "assert_c False = None"
  by (simp add: assert_c_def)

lemma assert_c_eq_Some [simp]: "assert_c b = Some u \<longleftrightarrow> b"
  by (simp add: assert_c_def)

lemma bind_assert_eq_Some [simp]:
  "Option.bind (assert_c b) f = Some y \<longleftrightarrow> b \<and> f () = Some y"
  by (simp add: assert_c_def)

lemma bind_assert_eq_None:
  "Option.bind (assert_c b) f = None \<longleftrightarrow> (b \<longrightarrow> f () = None)"
  by (simp add: assert_c_def)

text \<open>A read of an array out of its bounds has no result.\<close>

definition nth_opt :: "'a list \<Rightarrow> nat \<Rightarrow> 'a option" where
  "nth_opt xs i = (if i < length xs then Some (xs ! i) else None)"

lemma nth_opt_eq_Some: "nth_opt xs i = Some x \<longleftrightarrow> i < length xs \<and> xs ! i = x"
  by (auto simp: nth_opt_def)

section \<open>Memory\<close>

type_synonym mem = "u64 \<Rightarrow> u8"

text \<open>
  The byte at address \<open>a\<close> lies in the \<open>n\<close> bytes from \<open>base\<close> on when its distance from \<open>base\<close>,
  taken modulo \<open>2^64\<close> as the hardware does, is below \<open>n\<close>.
\<close>

definition in_range :: "u64 \<Rightarrow> u64 \<Rightarrow> u64 \<Rightarrow> bool" where
  "in_range base n a \<longleftrightarrow> a - base < n"

definition memcpy :: "mem \<Rightarrow> u64 \<Rightarrow> u64 \<Rightarrow> u64 \<Rightarrow> mem" where
  "memcpy m dst src n = (\<lambda>a. if in_range dst n a then m (src + (a - dst)) else m a)"

definition memset :: "mem \<Rightarrow> u64 \<Rightarrow> u8 \<Rightarrow> u64 \<Rightarrow> mem" where
  "memset m dst c n = (\<lambda>a. if in_range dst n a then c else m a)"

text \<open>The list of the \<open>n\<close> bytes at \<open>a\<close>, and the store of a list of bytes.\<close>

fun mem_bytes :: "mem \<Rightarrow> u64 \<Rightarrow> nat \<Rightarrow> u8 list" where
  "mem_bytes m a 0 = []"
| "mem_bytes m a (Suc n) = m a # mem_bytes m (a + 1) n"

definition mem_write :: "mem \<Rightarrow> u64 \<Rightarrow> u8 list \<Rightarrow> mem" where
  "mem_write m dst bs = (\<lambda>a. if unat (a - dst) < length bs then bs ! unat (a - dst) else m a)"

lemma length_mem_bytes [simp]: "length (mem_bytes m a n) = n"
  by (induction n arbitrary: a) auto

lemma nth_mem_bytes: "i < n \<Longrightarrow> mem_bytes m a n ! i = m (a + of_nat i)"
proof (induction n arbitrary: a i)
  case 0
  then show ?case by simp
next
  case (Suc n)
  then show ?case by (cases i) (auto simp: algebra_simps)
qed

lemma mem_bytes_cong:
  "(\<And>i. i < n \<Longrightarrow> m (a + of_nat i) = m' (a + of_nat i)) \<Longrightarrow> mem_bytes m a n = mem_bytes m' a n"
  by (auto intro!: nth_equalityI simp: nth_mem_bytes)

lemma in_range_0 [simp]: "\<not> in_range base 0 a"
  by (simp add: in_range_def)

lemma memcpy_outside: "\<not> in_range dst n a \<Longrightarrow> memcpy m dst src n a = m a"
  by (simp add: memcpy_def)

lemma memcpy_inside: "in_range dst n a \<Longrightarrow> memcpy m dst src n a = m (src + (a - dst))"
  by (simp add: memcpy_def)

lemma memset_outside: "\<not> in_range dst n a \<Longrightarrow> memset m dst c n a = m a"
  by (simp add: memset_def)

lemma memset_inside: "in_range dst n a \<Longrightarrow> memset m dst c n a = c"
  by (simp add: memset_def)

lemma mem_write_outside: "\<not> unat (a - dst) < length bs \<Longrightarrow> mem_write m dst bs a = m a"
  by (simp add: mem_write_def)

lemma in_range_mono: "in_range base n a \<Longrightarrow> n \<le> n' \<Longrightarrow> in_range base n' a"
  unfolding in_range_def by (rule less_le_trans)

text \<open>A range that does not wrap around the address space is an interval.\<close>

lemma in_range_interval:
  assumes "unat base + unat n \<le> 2 ^ 64"
  shows "in_range base n a \<longleftrightarrow> unat base \<le> unat a \<and> unat a < unat base + unat n"
  using assms unfolding in_range_def
  using unsigned_less [of a, where ?'a = nat]
  by (auto simp: word_less_nat_alt unat_sub_if' split: if_splits)

lemma mem_bytes_mem_write:
  assumes "length bs \<le> 2 ^ 64" and "n = length bs"
  shows "mem_bytes (mem_write m dst bs) dst n = bs"
  using assms
  by (intro nth_equalityI)
    (auto simp: nth_mem_bytes mem_write_def unat_of_nat)

text \<open>The little-endian value of a list of bytes, and the reading of integers from memory.\<close>

fun le_value :: "u8 list \<Rightarrow> nat" where
  "le_value [] = 0"
| "le_value (b # bs) = unat b + 256 * le_value bs"

fun le_bytes :: "nat \<Rightarrow> nat \<Rightarrow> u8 list" where
  "le_bytes 0 v = []"
| "le_bytes (Suc n) v = of_nat (v mod 256) # le_bytes n (v div 256)"

definition mem_u32 :: "mem \<Rightarrow> u64 \<Rightarrow> u32" where
  "mem_u32 m a = of_nat (le_value (mem_bytes m a 4))"

definition mem_u64 :: "mem \<Rightarrow> u64 \<Rightarrow> u64" where
  "mem_u64 m a = of_nat (le_value (mem_bytes m a 8))"

lemma length_le_bytes [simp]: "length (le_bytes n v) = n"
  by (induction n arbitrary: v) auto

lemma le_value_le_bytes: "v < 256 ^ n \<Longrightarrow> le_value (le_bytes n v) = v"
proof (induction n arbitrary: v)
  case 0
  then show ?case by simp
next
  case (Suc n)
  have "v div 256 < 256 ^ n"
    using Suc.prems by (simp add: less_mult_imp_div_less mult.commute)
  with Suc.IH show ?case by (simp add: unat_of_nat)
qed

lemma mem_bytes_append: "mem_bytes m a (n + k) = mem_bytes m a n @ mem_bytes m (a + of_nat n) k"
  by (induction n arbitrary: a) (auto simp: algebra_simps)

lemma take_mem_bytes: "take k (mem_bytes m a n) = mem_bytes m a (min k n)"
  by (rule nth_equalityI) (auto simp: nth_mem_bytes)

lemma drop_mem_bytes: "k \<le> n \<Longrightarrow> drop k (mem_bytes m a n) = mem_bytes m (a + of_nat k) (n - k)"
  by (rule nth_equalityI) (auto simp: nth_mem_bytes algebra_simps)

section \<open>State machines\<close>

text \<open>
  The interface of a component with a life cycle: its initial states, its steps, and an invariant
  that holds at the start and that every step keeps. Every state a run reaches then satisfies it.
\<close>

locale state_machine =
  fixes init :: "'s \<Rightarrow> bool"
    and step :: "'s \<Rightarrow> 's \<Rightarrow> bool"
    and inv :: "'s \<Rightarrow> bool"
  assumes init_inv: "init s \<Longrightarrow> inv s"
    and step_inv: "inv s \<Longrightarrow> step s t \<Longrightarrow> inv t"
begin

lemma steps_inv: "step\<^sup>*\<^sup>* s t \<Longrightarrow> inv s \<Longrightarrow> inv t"
  by (induction rule: rtranclp_induct) (auto intro: step_inv)

lemma reachable_inv: "init s \<Longrightarrow> step\<^sup>*\<^sup>* s t \<Longrightarrow> inv t"
  by (blast intro: steps_inv init_inv)

lemma reachable_safe: "(\<And>t. inv t \<Longrightarrow> safe t) \<Longrightarrow> init s \<Longrightarrow> step\<^sup>*\<^sup>* s t \<Longrightarrow> safe t"
  by (blast intro: reachable_inv)

end

end
