(* ===== verification/Auth_Mod.thy ===== *)
theory Auth_Mod
  imports Prelude
begin

text \<open>
  The authentication module of the trusted firmware: \<open>drivers/auth/auth_mod.c\<close> with its front ends
  to the image parsers (\<open>img_parser_mod.c\<close>) and to the crypto library (\<open>crypto_mod.c\<close>). The chain of
  trust is an array of image descriptors; the parser libraries, the crypto library and the platform's
  root key and rollback counters are code outside this module, fields of the record
  \<open>auth_env\<close>. The state is memory (the parameters extracted from a certificate are copied to the
  buffers its descriptor names), the \<open>auth_img_flags\<close> array and the platform's own state.
\<close>

section \<open>Data of the chain of trust\<close>

datatype auth_param_type =
  AUTH_PARAM_NONE | AUTH_PARAM_RAW_DATA | AUTH_PARAM_SIG | AUTH_PARAM_SIG_ALG
| AUTH_PARAM_HASH | AUTH_PARAM_PUB_KEY | AUTH_PARAM_NV_CTR

datatype img_type = IMG_RAW | IMG_PLAT | IMG_CERT

text \<open>
  A cookie is a pointer to the literal of an object identifier and is compared as a pointer; it is
  named here by the literal's macro, and the empty name is the null pointer.
\<close>

record auth_param_type_desc =
  apt_type :: auth_param_type
  apt_cookie :: string

record auth_param_data_desc =
  apd_ptr :: u64
  apd_len :: u32

text \<open>The \<open>type_desc\<close> pointer of an unused entry of \<open>authenticated_data\<close> is \<open>NULL\<close>.\<close>

record auth_param_desc =
  ap_type_desc :: "auth_param_type_desc option"
  ap_data :: auth_param_data_desc

record auth_method_param_hash =
  mh_data :: auth_param_type_desc
  mh_hash :: auth_param_type_desc

record auth_method_param_sig =
  ms_pk :: auth_param_type_desc
  ms_sig :: auth_param_type_desc
  ms_alg :: auth_param_type_desc
  ms_data :: auth_param_type_desc

record auth_method_param_nv_ctr =
  mn_cert_nv_ctr :: auth_param_type_desc
  mn_plat_nv_ctr :: auth_param_type_desc

text \<open>The tagged union of methods; the last constructor stands for a tag outside the enumeration.\<close>

datatype auth_method_desc =
  AUTH_METHOD_NONE
| AUTH_METHOD_HASH auth_method_param_hash
| AUTH_METHOD_SIG auth_method_param_sig
| AUTH_METHOD_NV_CTR auth_method_param_nv_ctr
| AUTH_METHOD_OTHER

text \<open>A parent pointer is \<open>NULL\<close> or the index of the parent in the array of descriptors.\<close>

record auth_img_desc =
  ai_img_id :: nat
  ai_img_type :: img_type
  ai_parent :: "nat option"
  ai_methods :: "auth_method_desc list"
  ai_data :: "auth_param_desc list"

definition IMG_FLAG_AUTHENTICATED :: u32 where "IMG_FLAG_AUTHENTICATED = 1"
definition ROTPK_IS_HASH :: u32 where "ROTPK_IS_HASH = 1"
definition ROTPK_NOT_DEPLOYED :: u32 where "ROTPK_NOT_DEPLOYED = 2"

section \<open>The libraries and the platform\<close>

record img_parser_lib_desc =
  pl_img_type :: img_type
  pl_check_integrity :: "mem \<Rightarrow> u64 \<Rightarrow> u32 \<Rightarrow> int"
  pl_get_auth_param :: "mem \<Rightarrow> auth_param_type_desc \<Rightarrow> u64 \<Rightarrow> u32 \<Rightarrow> int \<times> u64 \<times> u32"

record 'p auth_env =
  ae_cot :: "auth_img_desc list"
  ae_parser_lib_descs :: "img_parser_lib_desc list"
  ae_parser_lib_indices :: "img_type \<Rightarrow> nat option"
  ae_verify_signature ::
    "mem \<Rightarrow> u64 \<times> u32 \<Rightarrow> u64 \<times> u32 \<Rightarrow> u64 \<times> u32 \<Rightarrow> u64 \<times> u32 \<Rightarrow> int"
  ae_verify_hash :: "mem \<Rightarrow> u64 \<times> u32 \<Rightarrow> u64 \<times> u32 \<Rightarrow> int"
  ae_plat_get_rotpk_info :: "'p \<Rightarrow> string \<Rightarrow> int \<times> u64 \<times> u32 \<times> u32"
  ae_plat_get_nv_ctr :: "'p \<Rightarrow> string \<Rightarrow> int \<times> u32"
  ae_plat_set_nv_ctr :: "'p \<Rightarrow> string \<Rightarrow> u32 \<Rightarrow> int \<times> 'p"

record 'p auth_world =
  w_mem :: mem
  w_flags :: "u32 list"
  w_plat :: 'p

section \<open>Image parsers\<close>

text \<open>
  \<open>img_parser_init\<close>: one pass over the registered parser libraries records the index of the library
  of each image type, and stops when two libraries claim the same type. The null pointer checks of
  \<open>validate_desc\<close> have no counterpart: the fields of a library record are functions. The \<open>init\<close> hooks
  it calls belong to the libraries.
\<close>

fun img_parser_init_loop ::
  "img_parser_lib_desc list \<Rightarrow> nat \<Rightarrow> (img_type \<Rightarrow> nat option) \<Rightarrow> (img_type \<Rightarrow> nat option) option"
where
  "img_parser_init_loop [] index ind = Some ind"
| "img_parser_init_loop (d # ds) index ind =
     do { assert_c (ind (pl_img_type d) = None);
          img_parser_init_loop ds (Suc index) (ind(pl_img_type d := Some index)) }"

definition img_parser_init :: "img_parser_lib_desc list \<Rightarrow> (img_type \<Rightarrow> nat option) option" where
  "img_parser_init ds =
     do { assert_c (length ds > 0);
          img_parser_init_loop ds 0 (\<lambda>_. None) }"

definition img_parser_check_integrity ::
  "'p auth_env \<Rightarrow> mem \<Rightarrow> img_type \<Rightarrow> u64 \<Rightarrow> u32 \<Rightarrow> int option"
where
  "img_parser_check_integrity e m img_type img_ptr img_len =
     do { assert_c (img_ptr \<noteq> 0);
          assert_c (img_len \<noteq> 0);
          if img_type = IMG_RAW then Some 0
          else do {
            idx \<leftarrow> ae_parser_lib_indices e img_type;
            lib \<leftarrow> nth_opt (ae_parser_lib_descs e) idx;
            Some (pl_check_integrity lib m img_ptr img_len) } }"

definition img_parser_get_auth_param ::
  "'p auth_env \<Rightarrow> mem \<Rightarrow> img_type \<Rightarrow> auth_param_type_desc \<Rightarrow> u64 \<Rightarrow> u32 \<Rightarrow> (int \<times> u64 \<times> u32) option"
where
  "img_parser_get_auth_param e m img_type type_desc img_ptr img_len =
     do { assert_c (img_ptr \<noteq> 0);
          assert_c (img_len \<noteq> 0);
          if img_type = IMG_RAW then
            do { assert_c (apt_type type_desc = AUTH_PARAM_RAW_DATA);
                 Some (0, img_ptr, img_len) }
          else do {
            idx \<leftarrow> ae_parser_lib_indices e img_type;
            lib \<leftarrow> nth_opt (ae_parser_lib_descs e) idx;
            Some (pl_get_auth_param lib m type_desc img_ptr img_len) } }"

section \<open>Crypto front end\<close>

definition nonempty :: "u64 \<times> u32 \<Rightarrow> bool" where
  "nonempty d \<longleftrightarrow> fst d \<noteq> 0 \<and> snd d \<noteq> 0"

definition crypto_mod_verify_signature ::
  "'p auth_env \<Rightarrow> mem \<Rightarrow> u64 \<times> u32 \<Rightarrow> u64 \<times> u32 \<Rightarrow> u64 \<times> u32 \<Rightarrow> u64 \<times> u32 \<Rightarrow> int option"
where
  "crypto_mod_verify_signature e m data sig sig_alg pk =
     do { assert_c (nonempty data);
          assert_c (nonempty sig);
          assert_c (nonempty sig_alg);
          assert_c (nonempty pk);
          Some (ae_verify_signature e m data sig sig_alg pk) }"

definition crypto_mod_verify_hash ::
  "'p auth_env \<Rightarrow> mem \<Rightarrow> u64 \<times> u32 \<Rightarrow> u64 \<times> u32 \<Rightarrow> int option"
where
  "crypto_mod_verify_hash e m data digest_info =
     do { assert_c (nonempty data);
          assert_c (nonempty digest_info);
          Some (ae_verify_hash e m data digest_info) }"

section \<open>The authentication methods\<close>

text \<open>The comparison reads through both pointers; a \<open>NULL\<close> second argument is a fault.\<close>

definition cmp_auth_param_type_desc ::
  "auth_param_type_desc \<Rightarrow> auth_param_type_desc option \<Rightarrow> int option"
where
  "cmp_auth_param_type_desc a b =
     do { b' \<leftarrow> b;
          Some (if apt_type a = apt_type b' \<and> apt_cookie a = apt_cookie b' then 0 else 1) }"

text \<open>The loop over \<open>authenticated_data\<close>: the first entry of the requested type, or the error 1.\<close>

fun auth_get_param_loop ::
  "auth_param_type_desc \<Rightarrow> auth_param_desc list \<Rightarrow> (int \<times> u64 \<times> u32) option"
where
  "auth_get_param_loop t [] = Some (1, 0, 0)"
| "auth_get_param_loop t (d # ds) =
     do { c \<leftarrow> cmp_auth_param_type_desc t (ap_type_desc d);
          if c = 0 then Some (0, apd_ptr (ap_data d), apd_len (ap_data d))
          else auth_get_param_loop t ds }"

definition auth_get_param ::
  "auth_param_type_desc \<Rightarrow> auth_img_desc \<Rightarrow> (int \<times> u64 \<times> u32) option"
where
  "auth_get_param t desc = auth_get_param_loop t (ai_data desc)"

definition auth_hash ::
  "'p auth_env \<Rightarrow> auth_method_param_hash \<Rightarrow> auth_img_desc \<Rightarrow> mem \<Rightarrow> u64 \<Rightarrow> u32 \<Rightarrow> int option"
where
  "auth_hash e param img_desc m img img_len =
     do { pidx \<leftarrow> ai_parent img_desc;
          parent \<leftarrow> nth_opt (ae_cot e) pidx;
          (rc, hash_ptr, hash_len) \<leftarrow> auth_get_param (mh_hash param) parent;
          if rc \<noteq> 0 then Some rc else do {
          (rc, data_ptr, data_len) \<leftarrow>
             img_parser_get_auth_param e m (ai_img_type img_desc) (mh_data param) img img_len;
          if rc \<noteq> 0 then Some rc else
          crypto_mod_verify_hash e m (data_ptr, data_len) (hash_ptr, hash_len) } }"

definition auth_signature_pk ::
  "'p auth_env \<Rightarrow> auth_method_param_sig \<Rightarrow> auth_img_desc \<Rightarrow> 'p \<Rightarrow> (int \<times> u64 \<times> u32 \<times> u32) option"
where
  "auth_signature_pk e param img_desc plat =
     (case ai_parent img_desc of
        Some pidx \<Rightarrow>
          do { parent \<leftarrow> nth_opt (ae_cot e) pidx;
               (rc, pk_ptr, pk_len) \<leftarrow> auth_get_param (ms_pk param) parent;
               Some (rc, pk_ptr, pk_len, 0) }
      | None \<Rightarrow> Some (ae_plat_get_rotpk_info e plat (apt_cookie (ms_pk param))))"

definition auth_signature ::
  "'p auth_env \<Rightarrow> auth_method_param_sig \<Rightarrow> auth_img_desc \<Rightarrow> mem \<Rightarrow> 'p \<Rightarrow> u64 \<Rightarrow> u32 \<Rightarrow> int option"
where
  "auth_signature e param img_desc m plat img img_len =
     do { (rc, data_ptr, data_len) \<leftarrow>
             img_parser_get_auth_param e m (ai_img_type img_desc) (ms_data param) img img_len;
          if rc \<noteq> 0 then Some rc else do {
          (rc, sig_ptr, sig_len) \<leftarrow>
             img_parser_get_auth_param e m (ai_img_type img_desc) (ms_sig param) img img_len;
          if rc \<noteq> 0 then Some rc else do {
          (rc, alg_ptr, alg_len) \<leftarrow>
             img_parser_get_auth_param e m (ai_img_type img_desc) (ms_alg param) img img_len;
          if rc \<noteq> 0 then Some rc else do {
          (rc, pk_ptr, pk_len, flags) \<leftarrow> auth_signature_pk e param img_desc plat;
          if rc \<noteq> 0 then Some rc else
          if flags AND (ROTPK_IS_HASH OR ROTPK_NOT_DEPLOYED) \<noteq> 0 then do {
            (rc, pk_ptr', pk_len') \<leftarrow>
               img_parser_get_auth_param e m (ai_img_type img_desc) (ms_pk param) img img_len;
            if rc \<noteq> 0 then Some rc else do {
            rc \<leftarrow> crypto_mod_verify_signature e m (data_ptr, data_len) (sig_ptr, sig_len)
                     (alg_ptr, alg_len) (pk_ptr', pk_len');
            if rc \<noteq> 0 then Some rc else
            if flags AND ROTPK_NOT_DEPLOYED \<noteq> 0 then Some rc
            else crypto_mod_verify_hash e m (pk_ptr', pk_len') (pk_ptr, pk_len) } }
          else
            crypto_mod_verify_signature e m (data_ptr, data_len) (sig_ptr, sig_len)
              (alg_ptr, alg_len) (pk_ptr, pk_len) } } } }"

text \<open>
  The loop that converts the \<open>len\<close> value octets at \<open>p\<close> to an unsigned integer. The octets are read
  through a \<open>char\<close> pointer, which is unsigned in the AArch64 ABI.
\<close>

fun nv_ctr_loop :: "mem \<Rightarrow> u64 \<Rightarrow> nat \<Rightarrow> u32 \<Rightarrow> u32" where
  "nv_ctr_loop m p 0 acc = acc"
| "nv_ctr_loop m p (Suc n) acc = nv_ctr_loop m (p + 1) n (push_bit 8 acc OR ucast (m p))"

text \<open>The DER integer at \<open>p\<close>; \<^term>\<open>None\<close> where the code returns the error 1.\<close>

definition nv_ctr_parse :: "mem \<Rightarrow> u64 \<Rightarrow> u32 option" where
  "nv_ctr_parse m p =
     (if m p \<noteq> 0x02 then None
      else let b = m (p + 1); len = b AND 0x7f in
        if b AND 0x80 \<noteq> 0 \<or> len > 4 then None
        else if m (p + 2) AND 0x80 \<noteq> 0 then None
        else Some (nv_ctr_loop m (p + 2) (unat len) 0))"

definition auth_nvctr ::
  "'p auth_env \<Rightarrow> auth_method_param_nv_ctr \<Rightarrow> auth_img_desc \<Rightarrow> mem \<Rightarrow> u64 \<Rightarrow> u32 \<Rightarrow> 'p \<Rightarrow>
   (int \<times> 'p) option"
where
  "auth_nvctr e param img_desc m img img_len plat =
     do { (rc, data_ptr, data_len) \<leftarrow>
             img_parser_get_auth_param e m (ai_img_type img_desc) (mn_cert_nv_ctr param) img img_len;
          if rc \<noteq> 0 then Some (rc, plat) else do {
          assert_c (data_ptr \<noteq> 0);
          (case nv_ctr_parse m data_ptr of
             None \<Rightarrow> Some (1, plat)
           | Some cert_nv_ctr \<Rightarrow>
               (case ae_plat_get_nv_ctr e plat (apt_cookie (mn_plat_nv_ctr param)) of
                  (rc, plat_nv_ctr) \<Rightarrow>
                    if rc \<noteq> 0 then Some (rc, plat)
                    else if cert_nv_ctr < plat_nv_ctr then Some (1, plat)
                    else if cert_nv_ctr > plat_nv_ctr then
                      (if ai_parent img_desc = None then
                         (case ae_plat_set_nv_ctr e plat (apt_cookie (mn_plat_nv_ctr param)) cert_nv_ctr of
                            (rc, plat') \<Rightarrow> if rc \<noteq> 0 then Some (rc, plat') else Some (0, plat'))
                       else Some (1, plat))
                    else Some (0, plat))) } }"

section \<open>The module's operations\<close>

definition auth_mod_get_parent_id ::
  "'p auth_env \<Rightarrow> nat \<Rightarrow> ('p, 'x) auth_world_scheme \<Rightarrow> (int \<times> nat) option"
where
  "auth_mod_get_parent_id e img_id w =
     do { img_desc \<leftarrow> nth_opt (ae_cot e) img_id;
          (case ai_parent img_desc of
             None \<Rightarrow> Some (1, 0)
           | Some pidx \<Rightarrow>
               do { parent \<leftarrow> nth_opt (ae_cot e) pidx;
                    flags \<leftarrow> nth_opt (w_flags w) (ai_img_id parent);
                    Some (if flags AND IMG_FLAG_AUTHENTICATED \<noteq> 0 then (1, 0)
                          else (0, ai_img_id parent)) }) }"

text \<open>One iteration of the switch over the method's tag.\<close>

definition auth_method_run ::
  "'p auth_env \<Rightarrow> auth_img_desc \<Rightarrow> u64 \<Rightarrow> u32 \<Rightarrow> auth_method_desc \<Rightarrow>
   ('p, 'x) auth_world_scheme \<Rightarrow> (int \<times> ('p, 'x) auth_world_scheme) option"
where
  "auth_method_run e img_desc img img_len method w =
     (case method of
        AUTH_METHOD_NONE \<Rightarrow> Some (0, w)
      | AUTH_METHOD_HASH h \<Rightarrow>
          do { rc \<leftarrow> auth_hash e h img_desc (w_mem w) img img_len; Some (rc, w) }
      | AUTH_METHOD_SIG s \<Rightarrow>
          do { rc \<leftarrow> auth_signature e s img_desc (w_mem w) (w_plat w) img img_len; Some (rc, w) }
      | AUTH_METHOD_NV_CTR n \<Rightarrow>
          do { (rc, plat) \<leftarrow> auth_nvctr e n img_desc (w_mem w) img img_len (w_plat w);
               Some (rc, w\<lparr>w_plat := plat\<rparr>) }
      | AUTH_METHOD_OTHER \<Rightarrow> Some (1, w))"

fun auth_methods_loop ::
  "'p auth_env \<Rightarrow> auth_img_desc \<Rightarrow> u64 \<Rightarrow> u32 \<Rightarrow> auth_method_desc list \<Rightarrow>
   ('p, 'x) auth_world_scheme \<Rightarrow> (int \<times> ('p, 'x) auth_world_scheme) option"
where
  "auth_methods_loop e img_desc img img_len [] w = Some (0, w)"
| "auth_methods_loop e img_desc img img_len (a # as) w =
     do { (rc, w) \<leftarrow> auth_method_run e img_desc img img_len a w;
          if rc \<noteq> 0 then Some (rc, w)
          else auth_methods_loop e img_desc img img_len as w }"

text \<open>The loop that copies the authenticated parameters to the buffers of the descriptor.\<close>

fun auth_params_loop ::
  "'p auth_env \<Rightarrow> img_type \<Rightarrow> u64 \<Rightarrow> u32 \<Rightarrow> auth_param_desc list \<Rightarrow> mem \<Rightarrow> (int \<times> mem) option"
where
  "auth_params_loop e ty img img_len [] m = Some (0, m)"
| "auth_params_loop e ty img img_len (d # ds) m =
     (case ap_type_desc d of
        None \<Rightarrow> auth_params_loop e ty img img_len ds m
      | Some t \<Rightarrow>
          do { (rc, param_ptr, param_len) \<leftarrow> img_parser_get_auth_param e m ty t img img_len;
               if rc \<noteq> 0 then Some (rc, m)
               else if param_len > apd_len (ap_data d) then Some (1, m)
               else auth_params_loop e ty img img_len ds
                      (memcpy m (apd_ptr (ap_data d)) param_ptr (ucast param_len)) })"

definition auth_mod_verify_img ::
  "'p auth_env \<Rightarrow> nat \<Rightarrow> u64 \<Rightarrow> u32 \<Rightarrow> ('p, 'x) auth_world_scheme \<Rightarrow>
   (int \<times> ('p, 'x) auth_world_scheme) option"
where
  "auth_mod_verify_img e img_id img_ptr img_len w =
     do { img_desc \<leftarrow> nth_opt (ae_cot e) img_id;
          rc \<leftarrow> img_parser_check_integrity e (w_mem w) (ai_img_type img_desc) img_ptr img_len;
          if rc \<noteq> 0 then Some (rc, w) else do {
          (rc, w) \<leftarrow> auth_methods_loop e img_desc img_ptr img_len (ai_methods img_desc) w;
          if rc \<noteq> 0 then Some (rc, w) else do {
          (rc, m) \<leftarrow> auth_params_loop e (ai_img_type img_desc) img_ptr img_len (ai_data img_desc) (w_mem w);
          if rc \<noteq> 0 then Some (rc, w\<lparr>w_mem := m\<rparr>) else do {
          flags \<leftarrow> nth_opt (w_flags w) (ai_img_id img_desc);
          Some (0, w\<lparr>w_mem := m,
                     w_flags := (w_flags w)[ai_img_id img_desc := flags OR IMG_FLAG_AUTHENTICATED]\<rparr>) } } } }"


section \<open>Rollback counters\<close>

text \<open>The value a sequence of octets denotes, most significant first.\<close>

definition be_value :: "u8 list \<Rightarrow> nat" where
  "be_value bs = foldl (\<lambda>acc b. 256 * acc + unat b) 0 bs"

lemma unat_shift_or_byte:
  fixes acc :: u32 and b :: u8
  assumes "unat acc < 2 ^ 24"
  shows "unat (push_bit 8 acc OR ucast b) = 256 * unat acc + unat b"
proof -
  have b: "unat b < 256"
    using unsigned_less [of b, where ?'a = nat] by simp
  have disj: "push_bit 8 acc AND (ucast b :: u32) = 0"
  proof (rule bit_eqI)
    fix n
    show "bit (push_bit 8 acc AND (ucast b :: u32)) n \<longleftrightarrow> bit (0 :: u32) n"
      using bit_imp_le_length [of b n] by (auto simp: bit_simps)
  qed
  have "push_bit 8 acc OR (ucast b :: u32) = push_bit 8 acc + ucast b"
    using disj by (simp add: disjunctive_add_eq_or)
  moreover have "unat (push_bit 8 acc) = 256 * unat acc"
    using assms by (simp add: push_bit_eq_mult unat_word_ariths)
  moreover have "unat (ucast b :: u32) = unat b"
    using b by (simp add: unsigned_ucast_eq take_bit_nat_eq_self)
  ultimately show ?thesis
    using assms b by (simp add: unat_word_ariths)
qed

lemma nv_ctr_loop_value:
  "n \<le> k \<Longrightarrow> k \<le> 4 \<Longrightarrow> unat acc < 256 ^ (4 - k) \<Longrightarrow>
   unat (nv_ctr_loop m p n acc) = foldl (\<lambda>acc b. 256 * acc + unat b) (unat acc) (mem_bytes m p n)"
proof (induction n arbitrary: p acc k)
  case 0
  then show ?case by simp
next
  case (Suc n)
  then obtain k' where k: "k = Suc k'" by (cases k) auto
  have "256 ^ (4 - k) \<le> (256 :: nat) ^ 3"
    using k by (intro power_increasing) auto
  then have small: "unat acc < 2 ^ 24"
    using Suc.prems(3) by simp
  have byte: "unat (m p) < 256"
    using unsigned_less [of "m p", where ?'a = nat] by simp
  have "4 - k' = Suc (4 - k)"
    using k Suc.prems(2) by simp
  moreover have "256 * unat acc + unat (m p) < 256 * 256 ^ (4 - k)"
    using Suc.prems(3) byte by linarith
  ultimately have "unat (push_bit 8 acc OR ucast (m p) :: u32) < 256 ^ (4 - k')"
    using unat_shift_or_byte [OF small, of "m p"] by simp
  then show ?case
    using Suc.IH [of k' "push_bit 8 acc OR ucast (m p)" "p + 1"] Suc.prems k
      unat_shift_or_byte [OF small, of "m p"] by simp
qed

lemma nv_ctr_parse_value:
  assumes "nv_ctr_parse m p = Some v"
  shows "unat v = be_value (mem_bytes m (p + 2) (unat (m (p + 1) AND 0x7f)))"
    and "unat (m (p + 1) AND 0x7f) \<le> 4"
proof -
  let ?len = "m (p + 1) AND 0x7f"
  have len: "?len \<le> 4" and v: "v = nv_ctr_loop m (p + 2) (unat ?len) 0"
    using assms by (auto simp: nv_ctr_parse_def Let_def split: if_splits)
  from len show le: "unat ?len \<le> 4"
    by (simp add: word_le_nat_alt)
  from nv_ctr_loop_value [OF le order_refl, of 0 m "p + 2"]
  show "unat v = be_value (mem_bytes m (p + 2) (unat ?len))"
    by (simp add: v be_value_def)
qed

text \<open>What the parser has checked: the tag, a short length, and that the number is not negative.\<close>

lemma nv_ctr_parse_der:
  assumes "nv_ctr_parse m p = Some v"
  shows "m p = 0x02" "unat (m (p + 1)) \<le> 4" "unat (m (p + 2)) < 0x80"
    "unat v = be_value (mem_bytes m (p + 2) (unat (m (p + 1))))"
proof -
  have small: "b AND 0x7f = b \<and> unat b < 0x80" if "b AND 0x80 = 0" for b :: u8
  proof -
    have nb: "\<not> bit b 7"
      using that bit_and_iff [of b "0x80" 7] by (simp add: bit_numeral_rec)
    have "take_bit 7 b = b"
      using nb by (intro bit_eqI) (auto simp: bit_take_bit_iff dest: bit_imp_le_length simp: less_Suc_eq numeral_eq_Suc)
    moreover have "b AND 0x7f = take_bit 7 b" by (simp add: take_bit_eq_mask mask_eq_exp_minus_1)
    moreover have "unat (take_bit 7 b) < 2 ^ 7" using take_bit_nat_less_exp [of 7 "unat b"] by (simp add: unsigned_take_bit_eq)
    ultimately show ?thesis by simp
  qed
  from assms have f: "m p = 0x02" "m (p + 1) AND 0x80 = 0" "\<not> m (p + 1) AND 0x7f > 4" "m (p + 2) AND 0x80 = 0"
    by (auto simp: nv_ctr_parse_def Let_def split: if_splits)
  show "m p = 0x02" by (fact f)
  show "unat (m (p + 1)) \<le> 4" using f(3) small [OF f(2)] by (simp add: word_less_nat_alt)
  show "unat (m (p + 2)) < 0x80" using small [OF f(4)] by simp
  show "unat v = be_value (mem_bytes m (p + 2) (unat (m (p + 1))))"
    using nv_ctr_parse_value(1) [OF assms] small [OF f(2)] by simp
qed

lemma auth_nvctr_success:
  assumes "auth_nvctr e param d m img len plat = Some (0, plat')"
  obtains ptr plen v v0
  where "img_parser_get_auth_param e m (ai_img_type d) (mn_cert_nv_ctr param) img len = Some (0, ptr, plen)"
    and "nv_ctr_parse m ptr = Some v"
    and "ae_plat_get_nv_ctr e plat (apt_cookie (mn_plat_nv_ctr param)) = (0, v0)"
    and "v0 \<le> v"
    and "v0 = v \<Longrightarrow> plat' = plat"
    and "v0 < v \<Longrightarrow> ai_parent d = None \<and>
           ae_plat_set_nv_ctr e plat (apt_cookie (mn_plat_nv_ctr param)) v = (0, plat')"
  using assms
  by (fastforce simp: auth_nvctr_def not_less split: Option.bind_splits option.splits prod.splits if_splits)

section \<open>Frame and soundness of verification\<close>

lemma auth_method_run_frame:
  "auth_method_run e d img len a w = Some (rc, w') \<Longrightarrow> w_mem w' = w_mem w \<and> w_flags w' = w_flags w"
  by (auto simp: auth_method_run_def split: auth_method_desc.splits Option.bind_splits)

lemma auth_methods_loop_frame:
  "auth_methods_loop e d img len as w = Some (rc, w') \<Longrightarrow> w_mem w' = w_mem w \<and> w_flags w' = w_flags w"
proof (induction as arbitrary: w)
  case Nil
  then show ?case by simp
next
  case (Cons a as)
  then show ?case
    by (auto split: Option.bind_splits if_splits dest!: auth_method_run_frame)
qed

text \<open>A method accepts the image: its check ran and returned 0.\<close>

definition method_ok ::
  "'p auth_env \<Rightarrow> auth_img_desc \<Rightarrow> u64 \<Rightarrow> u32 \<Rightarrow> mem \<Rightarrow> 'p \<Rightarrow> auth_method_desc \<Rightarrow> bool"
where
  "method_ok e d img len m plat a \<longleftrightarrow>
     (case a of
        AUTH_METHOD_NONE \<Rightarrow> True
      | AUTH_METHOD_HASH h \<Rightarrow> auth_hash e h d m img len = Some 0
      | AUTH_METHOD_SIG s \<Rightarrow> auth_signature e s d m plat img len = Some 0
      | AUTH_METHOD_NV_CTR n \<Rightarrow>
          (case auth_nvctr e n d m img len plat of Some (rc, _) \<Rightarrow> rc = 0 | None \<Rightarrow> False)
      | AUTH_METHOD_OTHER \<Rightarrow> False)"

lemma auth_method_run_ok:
  "auth_method_run e d img len a w = Some (0, w') \<Longrightarrow> method_ok e d img len (w_mem w) (w_plat w) a"
  by (auto simp: auth_method_run_def method_ok_def
      split: auth_method_desc.splits Option.bind_splits option.splits)

lemma auth_methods_loop_ok:
  "auth_methods_loop e d img len as w = Some (0, w') \<Longrightarrow>
   \<forall>a \<in> set as. \<exists>plat. method_ok e d img len (w_mem w) plat a"
proof (induction as arbitrary: w)
  case Nil
  then show ?case by simp
next
  case (Cons a as)
  from Cons.prems obtain w1
    where run: "auth_method_run e d img len a w = Some (0, w1)"
      and rest: "auth_methods_loop e d img len as w1 = Some (0, w')"
    by (auto split: Option.bind_splits if_splits)
  from auth_method_run_frame [OF run] Cons.IH [OF rest] auth_method_run_ok [OF run]
  show ?case by auto
qed

text \<open>The bytes a descriptor's buffers occupy: what verification may write.\<close>

definition desc_buffer :: "auth_img_desc \<Rightarrow> u64 \<Rightarrow> bool" where
  "desc_buffer d a \<longleftrightarrow>
     (\<exists>x \<in> set (ai_data d). ap_type_desc x \<noteq> None \<and> in_range (apd_ptr (ap_data x)) (ucast (apd_len (ap_data x))) a)"

lemma ucast_le_ucast: "(x :: u32) \<le> y \<Longrightarrow> (ucast x :: u64) \<le> ucast y"
  by (simp add: word_le_nat_alt unsigned_ucast_eq take_bit_nat_eq_self
      unsigned_less [where ?'a = nat, THEN less_le_trans])

lemma auth_params_loop_frame:
  assumes "auth_params_loop e ty img len ds m = Some (rc, m')"
    and "\<forall>x \<in> set ds. ap_type_desc x \<noteq> None \<longrightarrow>
           \<not> in_range (apd_ptr (ap_data x)) (ucast (apd_len (ap_data x))) a"
  shows "m' a = m a"
  using assms
proof (induction ds arbitrary: m)
  case Nil
  then show ?case by simp
next
  case (Cons d ds)
  show ?case
  proof (cases "ap_type_desc d")
    case None
    with Cons show ?thesis by simp
  next
    case (Some t)
    from Cons.prems(2) Some
    have out: "\<not> in_range (apd_ptr (ap_data d)) (ucast (apd_len (ap_data d))) a" by simp
    have cp: "memcpy m (apd_ptr (ap_data d)) ptr (ucast n) a = m a"
      if "n \<le> apd_len (ap_data d)" for ptr and n :: u32
      using out in_range_mono [OF _ ucast_le_ucast [OF that]]
      by (auto intro: memcpy_outside)
    from Cons.prems Some show ?thesis
      by (auto split: Option.bind_splits if_splits simp: not_less dest!: Cons.IH cp)
  qed
qed

lemma auth_mod_verify_img_cases:
  assumes "auth_mod_verify_img e i img len w = Some (rc, w')"
  obtains d where "nth_opt (ae_cot e) i = Some d"
    and "rc \<noteq> 0 \<Longrightarrow> w_flags w' = w_flags w"
    and "rc = 0 \<Longrightarrow> img_parser_check_integrity e (w_mem w) (ai_img_type d) img len = Some 0"
    and "rc = 0 \<Longrightarrow> \<forall>a \<in> set (ai_methods d). \<exists>plat. method_ok e d img len (w_mem w) plat a"
    and "rc = 0 \<Longrightarrow> ai_img_id d < length (w_flags w) \<and>
           w_flags w' = (w_flags w)[ai_img_id d := w_flags w ! ai_img_id d OR IMG_FLAG_AUTHENTICATED]"
    and "\<And>a. \<not> desc_buffer d a \<Longrightarrow> w_mem w' a = w_mem w a"
proof -
  from assms obtain d rc1 where d: "nth_opt (ae_cot e) i = Some d"
    and ic: "img_parser_check_integrity e (w_mem w) (ai_img_type d) img len = Some rc1"
    by (auto simp: auth_mod_verify_img_def split: Option.bind_splits)
  show thesis
  proof (cases "rc1 = 0")
    case False
    with assms d ic have "rc \<noteq> 0" "w' = w"
      by (auto simp: auth_mod_verify_img_def)
    with that [OF d] show thesis by auto
  next
    case True
    from assms d ic True obtain rc2 w1
      where l: "auth_methods_loop e d img len (ai_methods d) w = Some (rc2, w1)"
      by (auto simp: auth_mod_verify_img_def split: Option.bind_splits)
    note fr = auth_methods_loop_frame [OF l]
    show thesis
    proof (cases "rc2 = 0")
      case False
      with assms d ic True l have "rc \<noteq> 0" "w' = w1"
        by (auto simp: auth_mod_verify_img_def)
      with that [OF d] fr show thesis by auto
    next
      case rc2: True
      from assms d ic True l rc2 obtain rc3 m
        where p: "auth_params_loop e (ai_img_type d) img len (ai_data d) (w_mem w1) = Some (rc3, m)"
        by (auto simp: auth_mod_verify_img_def split: Option.bind_splits)
      have mem: "m a = w_mem w a" if "\<not> desc_buffer d a" for a
        using auth_params_loop_frame [OF p, of a] that fr unfolding desc_buffer_def by metis
      have ok: "\<forall>a \<in> set (ai_methods d). \<exists>plat. method_ok e d img len (w_mem w) plat a"
        using auth_methods_loop_ok l rc2 by blast
      have i0: "img_parser_check_integrity e (w_mem w) (ai_img_type d) img len = Some 0"
        using ic True by simp
      show thesis
        by (rule that [OF d]) (insert assms d i0 l rc2 p fr mem ok,
          auto simp: auth_mod_verify_img_def nth_opt_eq_Some split: if_splits Option.bind_splits)
    qed
  qed
qed

section \<open>The interface of a verifier\<close>

text \<open>An image is marked when its flag word carries the authenticated bit.\<close>

definition marked :: "('p, 'x) auth_world_scheme \<Rightarrow> nat \<Rightarrow> bool" where
  "marked w i \<longleftrightarrow> i < length (w_flags w) \<and> w_flags w ! i AND IMG_FLAG_AUTHENTICATED \<noteq> 0"

text \<open>
  What the boot code relies on when it asks for the verification of an image: a success marks the
  image, no call ever removes a mark, a failure changes no mark, and nothing of the caller's own
  state changes.
\<close>

locale image_verifier =
  fixes verify :: "'e \<Rightarrow> nat \<Rightarrow> u64 \<Rightarrow> u32 \<Rightarrow> ('p, 'x) auth_world_scheme \<Rightarrow>
                   (int \<times> ('p, 'x) auth_world_scheme) option"
    and wf_env :: "'e \<Rightarrow> nat \<Rightarrow> bool"
  assumes verify_marks: "wf_env e i \<Longrightarrow> verify e i p n w = Some (0, w') \<Longrightarrow> marked w' i"
    and verify_keeps_marks: "verify e i p n w = Some (rc, w') \<Longrightarrow> marked w j \<Longrightarrow> marked w' j"
    and verify_failure: "verify e i p n w = Some (rc, w') \<Longrightarrow> rc \<noteq> 0 \<Longrightarrow> w_flags w' = w_flags w"
    and verify_more: "verify e i p n w = Some (rc, w') \<Longrightarrow> auth_world.more w' = auth_world.more w"

text \<open>
  The array of descriptors is indexed by image id; the entries that its initialiser does not name
  are zero, so that the descriptor of such an image need not carry the image's own id.
\<close>

definition own_id :: "'p auth_env \<Rightarrow> nat \<Rightarrow> bool" where
  "own_id e i \<longleftrightarrow> (\<forall>d. nth_opt (ae_cot e) i = Some d \<longrightarrow> ai_img_id d = i)"

lemma or_flag_marked: "(x OR IMG_FLAG_AUTHENTICATED) AND IMG_FLAG_AUTHENTICATED \<noteq> 0"
  by (simp add: IMG_FLAG_AUTHENTICATED_def bit.conj_disj_distrib2)

lemma auth_method_run_more:
  "auth_method_run e d img len a w = Some (rc, w') \<Longrightarrow> auth_world.more w' = auth_world.more w"
  by (auto simp: auth_method_run_def split: auth_method_desc.splits Option.bind_splits)

lemma auth_methods_loop_more:
  "auth_methods_loop e d img len as w = Some (rc, w') \<Longrightarrow> auth_world.more w' = auth_world.more w"
  by (induction as arbitrary: w)
    (auto split: Option.bind_splits if_splits dest!: auth_method_run_more)

lemma auth_mod_verify_img_more:
  "auth_mod_verify_img e i p n w = Some (rc, w') \<Longrightarrow> auth_world.more w' = auth_world.more w"
  by (auto simp: auth_mod_verify_img_def split: Option.bind_splits if_splits
      dest!: auth_methods_loop_more)

lemma auth_mod_verify_img_keeps:
  assumes "auth_mod_verify_img e i p n w = Some (rc, w')" and "marked w j"
  shows "marked w' j"
  using assms(1)
proof (rule auth_mod_verify_img_cases)
  fix d
  assume *: "rc \<noteq> 0 \<Longrightarrow> w_flags w' = w_flags w"
    "rc = 0 \<Longrightarrow> ai_img_id d < length (w_flags w) \<and>
       w_flags w' = (w_flags w)[ai_img_id d := w_flags w ! ai_img_id d OR IMG_FLAG_AUTHENTICATED]"
  show ?thesis
    using * assms(2) or_flag_marked [of "w_flags w ! j"]
    by (cases "rc = 0") (auto simp: marked_def nth_list_update)
qed

lemma auth_mod_verify_img_marks:
  assumes "own_id e i" and "auth_mod_verify_img e i p n w = Some (0, w')"
  shows "marked w' i"
  using assms(2)
  by (rule auth_mod_verify_img_cases)
    (use assms(1) in \<open>auto simp: marked_def own_id_def IMG_FLAG_AUTHENTICATED_def\<close>)

lemma auth_mod_verify_img_failure:
  assumes "auth_mod_verify_img e i p n w = Some (rc, w')" and "rc \<noteq> 0"
  shows "w_flags w' = w_flags w"
  using assms by (elim auth_mod_verify_img_cases) auto

interpretation av: image_verifier auth_mod_verify_img own_id
  by unfold_locales
    (fact auth_mod_verify_img_marks auth_mod_verify_img_keeps auth_mod_verify_img_failure
      auth_mod_verify_img_more)+

section \<open>The counters only grow\<close>

text \<open>
  What the platform documents of its counters: a successful update is read back, the other counters
  do not change, and a failed update changes nothing.
\<close>

definition nv_ctr_store :: "'p auth_env \<Rightarrow> bool" where
  "nv_ctr_store e \<longleftrightarrow>
     (\<forall>plat c v rc plat'. ae_plat_set_nv_ctr e plat c v = (rc, plat') \<longrightarrow>
        (if rc = 0
         then ae_plat_get_nv_ctr e plat' c = (0, v) \<and>
              (\<forall>c'. c' \<noteq> c \<longrightarrow> ae_plat_get_nv_ctr e plat' c' = ae_plat_get_nv_ctr e plat c')
         else plat' = plat))"

definition ctr_le :: "'p auth_env \<Rightarrow> string \<Rightarrow> 'p \<Rightarrow> 'p \<Rightarrow> bool" where
  "ctr_le e c plat plat' \<longleftrightarrow>
     (\<forall>v. ae_plat_get_nv_ctr e plat c = (0, v) \<longrightarrow>
        (\<exists>v'. ae_plat_get_nv_ctr e plat' c = (0, v') \<and> v \<le> v'))"

lemma ctr_le_refl [simp]: "ctr_le e c plat plat"
  by (simp add: ctr_le_def)

lemma ctr_le_trans: "ctr_le e c p q \<Longrightarrow> ctr_le e c q r \<Longrightarrow> ctr_le e c p r"
  unfolding ctr_le_def by (meson order_trans)

lemma set_nv_ctr_le:
  assumes "nv_ctr_store e" and "ae_plat_set_nv_ctr e plat c v = (rc, plat')"
    and "ae_plat_get_nv_ctr e plat c = (0, v0)" and "v0 \<le> v"
  shows "ctr_le e c' plat plat'"
  using assms unfolding nv_ctr_store_def ctr_le_def
  by (cases "c' = c"; cases "rc = 0") fastforce+

lemma auth_nvctr_le:
  assumes "nv_ctr_store e" and "auth_nvctr e param d m img len plat = Some (rc, plat')"
  shows "ctr_le e c plat plat'"
  using assms(2)
  by (fastforce simp: auth_nvctr_def not_less intro: set_nv_ctr_le [OF assms(1)]
      split: Option.bind_splits option.splits prod.splits if_splits)

lemma auth_method_run_le:
  assumes "nv_ctr_store e" and "auth_method_run e d img len a w = Some (rc, w')"
  shows "ctr_le e c (w_plat w) (w_plat w')"
  using assms(2)
  by (auto simp: auth_method_run_def intro: auth_nvctr_le [OF assms(1)]
      split: auth_method_desc.splits Option.bind_splits)

lemma auth_methods_loop_le:
  assumes "nv_ctr_store e" and "auth_methods_loop e d img len as w = Some (rc, w')"
  shows "ctr_le e c (w_plat w) (w_plat w')"
  using assms(2)
proof (induction as arbitrary: w)
  case Nil
  then show ?case by simp
next
  case (Cons a as)
  then obtain rc1 w1 where run: "auth_method_run e d img len a w = Some (rc1, w1)"
    and rest: "w' = w1 \<or> auth_methods_loop e d img len as w1 = Some (rc, w')"
    by (auto split: Option.bind_splits if_splits)
  from rest have "ctr_le e c (w_plat w1) (w_plat w')"
    using Cons.IH by auto
  with auth_method_run_le [OF assms(1) run] show ?case
    by (blast intro: ctr_le_trans)
qed

lemma auth_mod_verify_img_plat:
  fixes w :: "('p, 'x) auth_world_scheme"
  assumes "auth_mod_verify_img e i p n w = Some (rc, w')"
  shows "w_plat w' = w_plat w \<or>
    (\<exists>d as rc1 (w1 :: ('p, 'x) auth_world_scheme). auth_methods_loop e d p n as w = Some (rc1, w1) \<and> w_plat w' = w_plat w1)"
  using assms by (fastforce simp: auth_mod_verify_img_def split: Option.bind_splits if_splits)

lemma auth_methods_loop_reaches:
  fixes w :: "('p, 'x) auth_world_scheme"
  assumes "auth_methods_loop e d img len as w = Some (0, w')" and "a \<in> set as" and "nv_ctr_store e"
  shows "\<exists>w1 w2 :: ('p, 'x) auth_world_scheme. auth_method_run e d img len a w1 = Some (0, w2) \<and> w_mem w1 = w_mem w \<and>
    ctr_le e c (w_plat w) (w_plat w1)"
  using assms(1,2)
proof (induction as arbitrary: w)
  case Nil
  then show ?case by simp
next
  case (Cons b as)
  from Cons.prems(1) obtain w1
    where run: "auth_method_run e d img len b w = Some (0, w1)"
      and rest: "auth_methods_loop e d img len as w1 = Some (0, w')"
    by (auto split: Option.bind_splits if_splits)
  show ?case
  proof (cases "a = b")
    case True
    with run show ?thesis by (intro exI [of _ w] exI [of _ w1]) simp
  next
    case False
    with Cons.prems(2) Cons.IH [OF rest] obtain v1 v2 :: "('p, 'x) auth_world_scheme"
      where "auth_method_run e d img len a v1 = Some (0, v2)" "w_mem v1 = w_mem w1"
        "ctr_le e c (w_plat w1) (w_plat v1)" by auto
    with auth_method_run_frame [OF run] auth_method_run_le [OF assms(3) run, of c] show ?thesis
      by (metis ctr_le_trans)
  qed
qed

section \<open>A concrete chain of trust\<close>

text \<open>
  A root certificate (image 0, signed, with a rollback counter and the hash of image 1 in it) and a
  raw image (image 1, checked against that hash), with small concrete libraries: a certificate
  starts with the byte \<open>0x30\<close>, its signature is its second byte, the counter its third to fifth bytes
  and the hash its sixth; the platform's state is the counter. Witnesses evaluate the module on it.
\<close>

definition demo_parser :: img_parser_lib_desc where
  "demo_parser =
     \<lparr>pl_img_type = IMG_CERT,
      pl_check_integrity = (\<lambda>m p n. if m p = 0x30 then 0 else 1),
      pl_get_auth_param = (\<lambda>m t p n.
        case apt_type t of
          AUTH_PARAM_RAW_DATA \<Rightarrow> (0, p, n)
        | AUTH_PARAM_SIG \<Rightarrow> (0, p + 1, 1)
        | AUTH_PARAM_SIG_ALG \<Rightarrow> (0, p, 1)
        | AUTH_PARAM_NV_CTR \<Rightarrow> (0, p + 2, 3)
        | AUTH_PARAM_HASH \<Rightarrow> (0, p + 5, 1)
        | _ \<Rightarrow> (1, 0, 0))\<rparr>"

definition demo_cot :: "auth_img_desc list" where
  "demo_cot =
     [\<lparr>ai_img_id = 0, ai_img_type = IMG_CERT, ai_parent = None,
       ai_methods = [AUTH_METHOD_SIG \<lparr>ms_pk = \<lparr>apt_type = AUTH_PARAM_PUB_KEY, apt_cookie = ''''\<rparr>,
                                      ms_sig = \<lparr>apt_type = AUTH_PARAM_SIG, apt_cookie = ''''\<rparr>,
                                      ms_alg = \<lparr>apt_type = AUTH_PARAM_SIG_ALG, apt_cookie = ''''\<rparr>,
                                      ms_data = \<lparr>apt_type = AUTH_PARAM_RAW_DATA, apt_cookie = ''''\<rparr>\<rparr>,
                     AUTH_METHOD_NV_CTR \<lparr>mn_cert_nv_ctr = \<lparr>apt_type = AUTH_PARAM_NV_CTR, apt_cookie = ''ctr''\<rparr>,
                                         mn_plat_nv_ctr = \<lparr>apt_type = AUTH_PARAM_NV_CTR, apt_cookie = ''ctr''\<rparr>\<rparr>],
       ai_data = [\<lparr>ap_type_desc = Some \<lparr>apt_type = AUTH_PARAM_HASH, apt_cookie = ''hash''\<rparr>,
                    ap_data = \<lparr>apd_ptr = 0x100, apd_len = 1\<rparr>\<rparr>]\<rparr>,
      \<lparr>ai_img_id = 1, ai_img_type = IMG_RAW, ai_parent = Some 0,
       ai_methods = [AUTH_METHOD_HASH \<lparr>mh_data = \<lparr>apt_type = AUTH_PARAM_RAW_DATA, apt_cookie = ''''\<rparr>,
                                       mh_hash = \<lparr>apt_type = AUTH_PARAM_HASH, apt_cookie = ''hash''\<rparr>\<rparr>],
       ai_data = []\<rparr>]"

definition demo_env :: "u32 auth_env" where
  "demo_env =
     \<lparr>ae_cot = demo_cot,
      ae_parser_lib_descs = [demo_parser],
      ae_parser_lib_indices = (\<lambda>_. None)(IMG_CERT := Some 0),
      ae_verify_signature = (\<lambda>m d s a k. if m (fst s) = m (fst k) then 0 else 1),
      ae_verify_hash = (\<lambda>m d h. if m (fst d) = m (fst h) then 0 else 1),
      ae_plat_get_rotpk_info = (\<lambda>p c. (0, 0x200, 1, 0)),
      ae_plat_get_nv_ctr = (\<lambda>p c. if c = ''ctr'' then (0, p) else (1, 0)),
      ae_plat_set_nv_ctr = (\<lambda>p c v. if c = ''ctr'' then (0, v) else (1, p))\<rparr>"

text \<open>The certificate is at \<open>0x1000\<close> with counter 7 and hash \<open>0x55\<close>, the root key at \<open>0x200\<close>, the image at \<open>0x2000\<close>.\<close>

definition demo_mem :: mem where
  "demo_mem = (\<lambda>_. 0)(0x200 := 0xaa, 0x1000 := 0x30, 0x1001 := 0xaa, 0x1002 := 2, 0x1003 := 1,
                      0x1004 := 7, 0x1005 := 0x55, 0x2000 := 0x55)"

definition demo_world :: "u32 auth_world" where
  "demo_world = \<lparr>w_mem = demo_mem, w_flags = [0, 0], w_plat = 5\<rparr>"

definition demo_world1 :: "u32 auth_world" where
  "demo_world1 = \<lparr>w_mem = memcpy demo_mem 0x100 0x1005 1, w_flags = [1, 0], w_plat = 7\<rparr>"

lemmas demo_defs = demo_parser_def demo_cot_def demo_env_def demo_mem_def demo_world_def

lemmas auth_eval = auth_mod_verify_img_def nth_opt_def img_parser_check_integrity_def
  auth_method_run_def auth_hash_def auth_signature_def auth_signature_pk_def auth_nvctr_def
  nv_ctr_parse_def img_parser_get_auth_param_def auth_get_param_def cmp_auth_param_type_desc_def
  crypto_mod_verify_hash_def crypto_mod_verify_signature_def nonempty_def
  ROTPK_IS_HASH_def ROTPK_NOT_DEPLOYED_def IMG_FLAG_AUTHENTICATED_def

lemma demo_verify_cert: "auth_mod_verify_img demo_env 0 0x1000 6 demo_world = Some (0, demo_world1)"
  by (simp add: demo_defs auth_eval demo_world1_def)

lemma demo_verify_raw:
  "auth_mod_verify_img demo_env 1 0x2000 4 demo_world1 = Some (0, demo_world1\<lparr>w_flags := [1, 1]\<rparr>)"
  by (simp add: demo_defs auth_eval demo_world1_def memcpy_def in_range_def)

lemma own_id_demo: "own_id demo_env i"
  by (auto simp: own_id_def nth_opt_eq_Some demo_defs less_Suc_eq numeral_2_eq_2)

lemma nv_ctr_store_demo: "nv_ctr_store demo_env"
  by (auto simp: nv_ctr_store_def demo_env_def)

section \<open>Properties\<close>

text \<open>
  C25. An image gets its authenticated mark only by a successful verification of that very image: the
  parser accepted its format and every authentication method its descriptor lists ran on the bytes
  in memory and accepted them. The descriptor of the image carries the image's own identifier (\<open>own_id\<close>).
\<close>

theorem auth_mod_verify_img_sound:
  assumes "own_id e i" and "auth_mod_verify_img e i p n w = Some (rc, w')"
    and "marked w' j" and "\<not> marked w j"
  shows "j = i \<and> rc = 0 \<and> i < length (ae_cot e) \<and>
    img_parser_check_integrity e (w_mem w) (ai_img_type (ae_cot e ! i)) p n = Some 0 \<and>
    (\<forall>a \<in> set (ai_methods (ae_cot e ! i)). \<exists>plat. method_ok e (ae_cot e ! i) p n (w_mem w) plat a)"
  using assms(2)
proof (cases rule: auth_mod_verify_img_cases)
  case (1 d)
  have rc: "rc = 0"
    using 1(2) assms(3,4) by (cases "rc = 0") (auto simp: marked_def)
  have d: "i < length (ae_cot e)" "d = ae_cot e ! i" "ai_img_id d = i"
    using 1(1) assms(1) by (auto simp: nth_opt_eq_Some own_id_def)
  have "j = i"
    using 1(5) rc assms(3,4) d(3) by (cases "j = i") (auto simp: marked_def)
  with rc d 1(3,4) show ?thesis by simp
qed

theorem auth_mod_verify_img_sound_witness:
  "marked demo_world1 0 \<and> \<not> marked demo_world 0 \<and>
   list_all (\<lambda>a. \<exists>plat. method_ok demo_env (demo_cot ! 0) 0x1000 6 (w_mem demo_world) plat a)
     (ai_methods (demo_cot ! 0))"
  using auth_mod_verify_img_sound [OF own_id_demo demo_verify_cert, of 0]
  by (simp add: marked_def demo_world1_def demo_world_def IMG_FLAG_AUTHENTICATED_def demo_env_def list_all_iff)

text \<open>
  C27. Rollback protection: when the verification of an image succeeds, every counter method of its
  descriptor found in the certificate a non-negative DER integer of at most four octets (tag 2, a short
  length, the top bit of the first octet clear) whose value is not below the platform's counter at the
  start, as long as the platform's counter storage behaves as documented.
\<close>

theorem auth_mod_verify_img_no_rollback:
  assumes "nv_ctr_store e" and "auth_mod_verify_img e i p n w = Some (0, w')"
    and "nth_opt (ae_cot e) i = Some d" and "AUTH_METHOD_NV_CTR param \<in> set (ai_methods d)"
    and "ae_plat_get_nv_ctr e (w_plat w) (apt_cookie (mn_plat_nv_ctr param)) = (0, v)"
  shows "\<exists>ptr len. img_parser_get_auth_param e (w_mem w) (ai_img_type d) (mn_cert_nv_ctr param) p n
                     = Some (0, ptr, len) \<and>
    w_mem w ptr = 0x02 \<and> unat (w_mem w (ptr + 1)) \<le> 4 \<and> unat (w_mem w (ptr + 2)) < 0x80 \<and>
    unat v \<le> be_value (mem_bytes (w_mem w) (ptr + 2) (unat (w_mem w (ptr + 1))))"
proof -
  from assms(2,3) obtain w1 where "auth_methods_loop e d p n (ai_methods d) w = Some (0, w1)"
    by (auto simp: auth_mod_verify_img_def split: Option.bind_splits if_splits)
  from auth_methods_loop_reaches [OF this assms(4,1), of "apt_cookie (mn_plat_nv_ctr param)"]
  obtain v1 v2 plat where run: "auth_nvctr e param d (w_mem w) p n plat = Some (0, v2)"
    and le: "ctr_le e (apt_cookie (mn_plat_nv_ctr param)) (w_plat w) plat"
    by (auto simp: auth_method_run_def split: Option.bind_splits)
  from run show ?thesis
  proof (rule auth_nvctr_success)
    fix ptr plen vc v0
    assume *: "img_parser_get_auth_param e (w_mem w) (ai_img_type d) (mn_cert_nv_ctr param) p n = Some (0, ptr, plen)"
      "nv_ctr_parse (w_mem w) ptr = Some vc"
      "ae_plat_get_nv_ctr e plat (apt_cookie (mn_plat_nv_ctr param)) = (0, v0)" "v0 \<le> vc"
    from le *(3) assms(5) have "v \<le> v0" by (auto simp: ctr_le_def)
    with *(4) have "unat v \<le> unat vc" by (simp add: word_le_nat_alt [symmetric])
    with *(1) nv_ctr_parse_der [OF *(2)] show ?thesis by auto
  qed
qed

theorem auth_mod_verify_img_no_rollback_witness:
  "\<exists>ptr len. img_parser_get_auth_param demo_env demo_mem IMG_CERT
       \<lparr>apt_type = AUTH_PARAM_NV_CTR, apt_cookie = ''ctr''\<rparr> 0x1000 6 = Some (0, ptr, len) \<and>
     demo_mem ptr = 0x02 \<and> unat (demo_mem (ptr + 1)) \<le> 4 \<and> unat (demo_mem (ptr + 2)) < 0x80 \<and>
     5 \<le> be_value (mem_bytes demo_mem (ptr + 2) (unat (demo_mem (ptr + 1))))"
  using auth_mod_verify_img_no_rollback [OF nv_ctr_store_demo demo_verify_cert, of "demo_cot ! 0"
      "\<lparr>mn_cert_nv_ctr = \<lparr>apt_type = AUTH_PARAM_NV_CTR, apt_cookie = ''ctr''\<rparr>,
        mn_plat_nv_ctr = \<lparr>apt_type = AUTH_PARAM_NV_CTR, apt_cookie = ''ctr''\<rparr>\<rparr>" 5]
  by (simp add: demo_world_def demo_env_def demo_cot_def nth_opt_def)

text \<open>
  C31. The platform's rollback counters never decrease, whatever the outcome of a verification, as long
  as the platform's counter storage behaves as documented.
\<close>

theorem auth_mod_verify_img_counters_monotone:
  assumes "nv_ctr_store e" and "auth_mod_verify_img e i p n w = Some (rc, w')"
    and "ae_plat_get_nv_ctr e (w_plat w) c = (0, v)"
  shows "\<exists>v'. ae_plat_get_nv_ctr e (w_plat w') c = (0, v') \<and> v \<le> v'"
proof -
  have "ctr_le e c (w_plat w) (w_plat w')"
    using auth_mod_verify_img_plat [OF assms(2)] auth_methods_loop_le [OF assms(1)] by auto
  with assms(3) show ?thesis by (simp add: ctr_le_def)
qed

theorem auth_mod_verify_img_counters_monotone_witness:
  "\<exists>v'. ae_plat_get_nv_ctr demo_env (w_plat demo_world1) ''ctr'' = (0, v') \<and> 5 \<le> v'"
  using auth_mod_verify_img_counters_monotone [OF nv_ctr_store_demo demo_verify_cert, of "''ctr''" 5]
  by (simp add: demo_env_def demo_world_def)

text \<open>
  C32. Verification writes memory only inside the buffers that the image's descriptor reserves for
  the parameters extracted from it, whatever lengths the certificate claims, and a verification
  that fails changes no authenticated mark.
\<close>

theorem auth_mod_verify_img_frame:
  assumes "auth_mod_verify_img e i p n w = Some (rc, w')" and "nth_opt (ae_cot e) i = Some d"
  shows "(\<forall>a. w_mem w' a \<noteq> w_mem w a \<longrightarrow>
            (\<exists>x \<in> set (ai_data d). in_range (apd_ptr (ap_data x)) (ucast (apd_len (ap_data x))) a)) \<and>
    (rc \<noteq> 0 \<longrightarrow> w_flags w' = w_flags w)"
  using assms(1)
  by (rule auth_mod_verify_img_cases) (use assms(2) in \<open>fastforce simp: desc_buffer_def\<close>)

theorem auth_mod_verify_img_frame_witness:
  "w_mem demo_world1 0x100 = 0x55 \<and> w_mem demo_world1 0x101 = w_mem demo_world 0x101"
proof -
  have d: "nth_opt (ae_cot demo_env) 0 = Some (demo_cot ! 0)"
    by (simp add: demo_env_def demo_cot_def nth_opt_def)
  have "w_mem demo_world1 0x101 \<noteq> w_mem demo_world 0x101 \<longrightarrow>
     (\<exists>x \<in> set (ai_data (demo_cot ! 0)). in_range (apd_ptr (ap_data x)) (ucast (apd_len (ap_data x))) 0x101)"
    using auth_mod_verify_img_frame [OF demo_verify_cert d] by blast
  then show ?thesis
    by (simp add: demo_cot_def in_range_def demo_world1_def demo_mem_def memcpy_def)
qed

end
