(* ===== verification/Context_Mgmt.thy ===== *)
theory Context_Mgmt
  imports Prelude
begin

text \<open>
  The context management library of the EL3 firmware (\<open>lib/el3_runtime/aarch64/context_mgmt.c\<close>) and
  BL1's two context slots (\<open>bl1/aarch64/bl1_context_mgmt.c\<close>). A context is what EL3 keeps for one
  security state: general purpose registers, the EL3 state that an exception return loads and the
  EL1 system registers. The register file of the processor is part of the state, so that saving and
  restoring a world is visible. The two assembly routines that move the EL1 registers copy the whole
  EL1 register file; the AArch32 and timer registers are build options that are off.
\<close>

section \<open>Constants\<close>

named_theorems cm_consts \<open>the values of the architectural constants\<close>

definition SECURE :: u32 where [cm_consts]: "SECURE = 0"
definition NON_SECURE :: u32 where [cm_consts]: "NON_SECURE = 1"

definition sec_state_is_valid :: "u32 \<Rightarrow> bool" where
  "sec_state_is_valid s \<longleftrightarrow> s = SECURE \<or> s = NON_SECURE"

definition GET_SECURITY_STATE :: "u32 \<Rightarrow> u32" where
  "GET_SECURITY_STATE x = x AND 1"

definition EP_GET_EE :: "u32 \<Rightarrow> u32" where "EP_GET_EE x = x AND 2"
definition EP_GET_ST :: "u32 \<Rightarrow> u32" where "EP_GET_ST x = x AND 4"
definition EXECUTABLE :: u32 where [cm_consts]: "EXECUTABLE = 8"
definition NON_EXECUTABLE :: u32 where [cm_consts]: "NON_EXECUTABLE = 0"
definition EP_GET_EXE :: "u32 \<Rightarrow> u32" where "EP_GET_EXE x = x AND 8"

definition SCR_NS_BIT :: u32 where [cm_consts]: "SCR_NS_BIT = 0x1"
definition SCR_IRQ_BIT :: u32 where [cm_consts]: "SCR_IRQ_BIT = 0x2"
definition SCR_FIQ_BIT :: u32 where [cm_consts]: "SCR_FIQ_BIT = 0x4"
definition SCR_EA_BIT :: u32 where [cm_consts]: "SCR_EA_BIT = 0x8"
definition SCR_HCE_BIT :: u32 where [cm_consts]: "SCR_HCE_BIT = 0x100"
definition SCR_RW_BIT :: u32 where [cm_consts]: "SCR_RW_BIT = 0x400"
definition SCR_ST_BIT :: u32 where [cm_consts]: "SCR_ST_BIT = 0x800"
definition SCR_VALID_BIT_MASK :: u32 where [cm_consts]: "SCR_VALID_BIT_MASK = 0x2f8f"
definition SCTLR_EE_BIT :: u64 where [cm_consts]: "SCTLR_EE_BIT = 0x2000000"
definition SCTLR_EL1_RES1 :: u64 where [cm_consts]: "SCTLR_EL1_RES1 = 0x30d00800"
definition SCTLR_EL2_RES1 :: u64 where [cm_consts]: "SCTLR_EL2_RES1 = 0x30c50830"
definition SCTLR_AARCH32_EL1_RES1 :: u64 where [cm_consts]: "SCTLR_AARCH32_EL1_RES1 = 0xc00818"
definition HCR_RW_BIT :: u64 where [cm_consts]: "HCR_RW_BIT = 0x80000000"

definition MODE_RW_64 :: u32 where [cm_consts]: "MODE_RW_64 = 0"
definition MODE_EL2 :: u32 where [cm_consts]: "MODE_EL2 = 2"
definition MODE_EL1 :: u32 where [cm_consts]: "MODE_EL1 = 1"
definition MODE_SP_ELX :: u32 where [cm_consts]: "MODE_SP_ELX = 1"
definition MODE32_hyp :: u32 where [cm_consts]: "MODE32_hyp = 0xa"
definition DISABLE_ALL_EXCEPTIONS :: u32 where [cm_consts]: "DISABLE_ALL_EXCEPTIONS = 0xf"

definition GET_RW :: "u32 \<Rightarrow> u32" where "GET_RW mode = drop_bit 4 mode AND 1"
definition GET_EL :: "u32 \<Rightarrow> u32" where "GET_EL mode = drop_bit 2 mode AND 3"
definition GET_M32 :: "u32 \<Rightarrow> u32" where "GET_M32 mode = mode AND 0xf"

definition SPSR_64 :: "u32 \<Rightarrow> u32 \<Rightarrow> u32 \<Rightarrow> u32" where
  "SPSR_64 el sp daif =
     push_bit 4 MODE_RW_64 OR push_bit 2 (el AND 3) OR (sp AND 1) OR push_bit 6 (daif AND 0xf)"

text \<open>\<open>ID_AA64PFR0_ELX_MASK << ID_AA64PFR0_EL2_SHIFT\<close>: EL2 is implemented when the field is not zero.\<close>

definition ID_AA64PFR0_EL2_FIELD :: u64 where [cm_consts]: "ID_AA64PFR0_EL2_FIELD = 0xf00"

section \<open>State\<close>

record entry_point_info =
  ep_attr :: u32
  ep_pc :: u64
  ep_spsr :: u32
  ep_args :: "u64 list"

record cpu_context =
  cc_gpregs :: "u64 list"
  cc_scr_el3 :: u64
  cc_elr_el3 :: u64
  cc_spsr_el3 :: u64
  cc_sysregs :: "nat \<Rightarrow> u64"

definition CTX_SCTLR_EL1 :: nat where [cm_consts]: "CTX_SCTLR_EL1 = 0x10"

definition zero_context :: cpu_context where
  "zero_context = \<lparr>cc_gpregs = replicate 32 0, cc_scr_el3 = 0, cc_elr_el3 = 0, cc_spsr_el3 = 0,
                   cc_sysregs = (\<lambda>_. 0)\<rparr>"

record el2_regs =
  r_sctlr_el2 :: u64
  r_hcr_el2 :: u64
  r_cptr_el2 :: u32
  r_cnthctl_el2 :: u64
  r_cntvoff_el2 :: u64
  r_vpidr_el2 :: u64
  r_vmpidr_el2 :: u64
  r_vttbr_el2 :: u64

text \<open>
  The processor: its SCR, its EL1 register file (indexed like the context's), its EL2 registers and
  the identification registers; and the library's data: the context array, which of its pointers
  are not \<open>NULL\<close>, and the security state of the context that SP_EL3 points to.
\<close>

record cpu_state =
  cpu_scr_el3 :: u32
  cpu_el1 :: "nat \<Rightarrow> u64"
  cpu_el2 :: el2_regs
  cpu_id_aa64pfr0 :: u64
  cpu_midr :: u64
  cpu_mpidr :: u64
  cpu_context :: "u32 \<Rightarrow> cpu_context"
  cpu_context_ptr :: "u32 \<Rightarrow> bool"
  cpu_next :: u32

section \<open>Operations\<close>

definition cm_get_context :: "cpu_state \<Rightarrow> u32 \<Rightarrow> bool option" where
  "cm_get_context c sec = do { assert_c (sec_state_is_valid sec); Some (cpu_context_ptr c sec) }"

definition cm_set_context :: "cpu_state \<Rightarrow> u32 \<Rightarrow> cpu_state option" where
  "cm_set_context c sec =
     do { assert_c (sec_state_is_valid sec);
          Some (c\<lparr>cpu_context_ptr := (cpu_context_ptr c)(sec := True)\<rparr>) }"

text \<open>The opening of every operation below: fetch the context pointer and assert that it is set.\<close>

definition cm_ctx :: "cpu_state \<Rightarrow> u32 \<Rightarrow> cpu_context option" where
  "cm_ctx c sec = do { p \<leftarrow> cm_get_context c sec; assert_c p; Some (cpu_context c sec) }"

definition cm_put_ctx :: "cpu_state \<Rightarrow> u32 \<Rightarrow> cpu_context \<Rightarrow> cpu_state" where
  "cm_put_ctx c sec ctx = c\<lparr>cpu_context := (cpu_context c)(sec := ctx)\<rparr>"

text \<open>The SCR of a fresh context; \<open>routing\<close> is BL31's interrupt routing model (0 in BL1).\<close>

definition cm_init_scr :: "u32 \<Rightarrow> u32 \<Rightarrow> entry_point_info \<Rightarrow> u32" where
  "cm_init_scr scr routing ep =
     (let scr_el3 = scr AND NOT (SCR_NS_BIT OR SCR_RW_BIT OR SCR_FIQ_BIT OR SCR_IRQ_BIT OR
                                 SCR_ST_BIT OR SCR_HCE_BIT);
          scr_el3 = (if GET_SECURITY_STATE (ep_attr ep) \<noteq> SECURE then scr_el3 OR SCR_NS_BIT else scr_el3);
          scr_el3 = (if GET_RW (ep_spsr ep) = MODE_RW_64 then scr_el3 OR SCR_RW_BIT else scr_el3);
          scr_el3 = (if EP_GET_ST (ep_attr ep) \<noteq> 0 then scr_el3 OR SCR_ST_BIT else scr_el3);
          scr_el3 = scr_el3 AND NOT SCR_EA_BIT;
          scr_el3 = scr_el3 OR routing
      in if (GET_RW (ep_spsr ep) = MODE_RW_64 \<and> GET_EL (ep_spsr ep) = MODE_EL2) \<or>
            (GET_RW (ep_spsr ep) \<noteq> MODE_RW_64 \<and> GET_M32 (ep_spsr ep) = MODE32_hyp)
         then scr_el3 OR SCR_HCE_BIT else scr_el3)"

definition cm_init_context_common :: "u32 \<Rightarrow> u32 \<Rightarrow> entry_point_info \<Rightarrow> cpu_context" where
  "cm_init_context_common scr routing ep =
     (let sctlr_elx = (if EP_GET_EE (ep_attr ep) \<noteq> 0 then SCTLR_EE_BIT else 0);
          sctlr_elx = (if GET_RW (ep_spsr ep) = MODE_RW_64 then sctlr_elx OR SCTLR_EL1_RES1
                       else sctlr_elx OR SCTLR_AARCH32_EL1_RES1)
      in zero_context\<lparr>
           cc_sysregs := (cc_sysregs zero_context)(CTX_SCTLR_EL1 := sctlr_elx),
           cc_scr_el3 := ucast (cm_init_scr scr routing ep),
           cc_elr_el3 := ep_pc ep,
           cc_spsr_el3 := ucast (ep_spsr ep),
           cc_gpregs := take 8 (ep_args ep) @ drop 8 (cc_gpregs zero_context)\<rparr>)"

definition cm_init_my_context :: "cpu_state \<Rightarrow> entry_point_info \<Rightarrow> cpu_state option" where
  "cm_init_my_context c ep =
     do { _ \<leftarrow> cm_ctx c (GET_SECURITY_STATE (ep_attr ep));
          Some (cm_put_ctx c (GET_SECURITY_STATE (ep_attr ep))
                  (cm_init_context_common (cpu_scr_el3 c) 0 ep)) }"

text \<open>EL2 is implemented but the next image starts at EL1: neutral values for its registers.\<close>

definition cm_disable_el2 :: "cpu_state \<Rightarrow> u64 \<Rightarrow> el2_regs" where
  "cm_disable_el2 c scr_el3 =
     (cpu_el2 c)\<lparr>
        r_hcr_el2 := (if scr_el3 AND ucast SCR_RW_BIT \<noteq> 0 then HCR_RW_BIT else 0),
        r_cptr_el2 := r_cptr_el2 (cpu_el2 c) AND NOT (0x80000000 OR 0x100000 OR 0x400),
        r_cnthctl_el2 := 3,
        r_cntvoff_el2 := 0,
        r_vpidr_el2 := cpu_midr c,
        r_vmpidr_el2 := cpu_mpidr c,
        r_vttbr_el2 := 0\<rparr>"

definition cm_prepare_el3_exit :: "cpu_state \<Rightarrow> u32 \<Rightarrow> cpu_state option" where
  "cm_prepare_el3_exit c sec =
     do { ctx \<leftarrow> cm_ctx c sec;
          let el2 =
            (if sec = NON_SECURE then
               (if cc_scr_el3 ctx AND ucast SCR_HCE_BIT \<noteq> 0 then
                  (cpu_el2 c)\<lparr>r_sctlr_el2 :=
                     (take_bit 32 (cc_sysregs ctx CTX_SCTLR_EL1) AND NOT SCTLR_EE_BIT) OR SCTLR_EL2_RES1\<rparr>
                else if cpu_id_aa64pfr0 c AND ID_AA64PFR0_EL2_FIELD \<noteq> 0 then
                  cm_disable_el2 c (cc_scr_el3 ctx)
                else cpu_el2 c)
             else cpu_el2 c);
          Some (c\<lparr>cpu_el2 := el2, cpu_el1 := cc_sysregs ctx, cpu_next := sec\<rparr>) }"

definition cm_el1_sysregs_context_save :: "cpu_state \<Rightarrow> u32 \<Rightarrow> cpu_state option" where
  "cm_el1_sysregs_context_save c sec =
     do { ctx \<leftarrow> cm_ctx c sec;
          Some (cm_put_ctx c sec (ctx\<lparr>cc_sysregs := cpu_el1 c\<rparr>)) }"

definition cm_el1_sysregs_context_restore :: "cpu_state \<Rightarrow> u32 \<Rightarrow> cpu_state option" where
  "cm_el1_sysregs_context_restore c sec =
     do { ctx \<leftarrow> cm_ctx c sec;
          Some (c\<lparr>cpu_el1 := cc_sysregs ctx\<rparr>) }"

definition cm_set_elr_el3 :: "cpu_state \<Rightarrow> u32 \<Rightarrow> u64 \<Rightarrow> cpu_state option" where
  "cm_set_elr_el3 c sec entrypoint =
     do { ctx \<leftarrow> cm_ctx c sec;
          Some (cm_put_ctx c sec (ctx\<lparr>cc_elr_el3 := entrypoint\<rparr>)) }"

definition cm_set_elr_spsr_el3 :: "cpu_state \<Rightarrow> u32 \<Rightarrow> u64 \<Rightarrow> u32 \<Rightarrow> cpu_state option" where
  "cm_set_elr_spsr_el3 c sec entrypoint spsr =
     do { ctx \<leftarrow> cm_ctx c sec;
          Some (cm_put_ctx c sec (ctx\<lparr>cc_elr_el3 := entrypoint, cc_spsr_el3 := ucast spsr\<rparr>)) }"

text \<open>
  The C code shifts the 32-bit constant 1; a bit position of 32 or more is undefined there, and the
  assertion on the mask rejects it here.
\<close>

definition cm_write_scr_el3_bit :: "cpu_state \<Rightarrow> u32 \<Rightarrow> u32 \<Rightarrow> u32 \<Rightarrow> cpu_state option" where
  "cm_write_scr_el3_bit c sec bit_pos value =
     do { ctx \<leftarrow> cm_ctx c sec;
          assert_c (push_bit (unat bit_pos) 1 AND SCR_VALID_BIT_MASK \<noteq> 0);
          assert_c (value \<le> 1);
          let scr_el3 = ucast (cc_scr_el3 ctx) AND NOT (push_bit (unat bit_pos) 1)
                        OR push_bit (unat bit_pos) value;
          Some (cm_put_ctx c sec (ctx\<lparr>cc_scr_el3 := ucast (scr_el3 :: u32)\<rparr>)) }"

definition cm_get_scr_el3 :: "cpu_state \<Rightarrow> u32 \<Rightarrow> u32 option" where
  "cm_get_scr_el3 c sec = do { ctx \<leftarrow> cm_ctx c sec; Some (ucast (cc_scr_el3 ctx)) }"

definition cm_set_next_eret_context :: "cpu_state \<Rightarrow> u32 \<Rightarrow> cpu_state option" where
  "cm_set_next_eret_context c sec =
     do { _ \<leftarrow> cm_ctx c sec;
          Some (c\<lparr>cpu_next := sec\<rparr>) }"

section \<open>Lemmas\<close>

lemma GET_SECURITY_STATE_cases: "GET_SECURITY_STATE x = SECURE \<or> GET_SECURITY_STATE x = NON_SECURE"
  by (auto simp: GET_SECURITY_STATE_def SECURE_def NON_SECURE_def and_one_eq mod_2_eq_odd)

lemma valid_GET_SECURITY_STATE [simp]: "sec_state_is_valid (GET_SECURITY_STATE x)"
  using GET_SECURITY_STATE_cases by (auto simp: sec_state_is_valid_def)

lemma valid_consts [simp]: "sec_state_is_valid SECURE" "sec_state_is_valid NON_SECURE"
  by (auto simp: sec_state_is_valid_def)

lemma SECURE_neq_NON_SECURE [simp]: "SECURE \<noteq> NON_SECURE" "NON_SECURE \<noteq> SECURE"
  by (auto simp: SECURE_def NON_SECURE_def)

lemma not_SECURE [simp]: "GET_SECURITY_STATE x \<noteq> SECURE \<longleftrightarrow> GET_SECURITY_STATE x = NON_SECURE"
  using GET_SECURITY_STATE_cases [of x] by auto

lemma cm_ctx_eq_Some:
  "cm_ctx c sec = Some ctx \<longleftrightarrow> sec_state_is_valid sec \<and> cpu_context_ptr c sec \<and> ctx = cpu_context c sec"
  by (auto simp: cm_ctx_def cm_get_context_def)

lemma cm_put_ctx_simps [simp]:
  "cpu_context (cm_put_ctx c sec ctx) = (cpu_context c)(sec := ctx)"
  "cpu_context_ptr (cm_put_ctx c sec ctx) = cpu_context_ptr c"
  "cpu_el1 (cm_put_ctx c sec ctx) = cpu_el1 c"
  "cpu_el2 (cm_put_ctx c sec ctx) = cpu_el2 c"
  "cpu_next (cm_put_ctx c sec ctx) = cpu_next c"
  "cpu_scr_el3 (cm_put_ctx c sec ctx) = cpu_scr_el3 c"
  "cpu_id_aa64pfr0 (cm_put_ctx c sec ctx) = cpu_id_aa64pfr0 c"
  by (simp_all add: cm_put_ctx_def)

lemmas cm_op_defs =
  cm_el1_sysregs_context_save_def cm_el1_sysregs_context_restore_def cm_set_next_eret_context_def
  cm_prepare_el3_exit_def cm_init_my_context_def cm_set_context_def

text \<open>
  Saving one world and restoring the other leaves the saved world's EL1 registers in its context, and
  a later restore brings them back unchanged.
\<close>

lemma save_restore_roundtrip:
  assumes "cm_el1_sysregs_context_save c a = Some c1"
    and "cpu_context c2 a = cpu_context c1 a" and "cpu_context_ptr c2 a"
    and "cm_el1_sysregs_context_restore c2 a = Some c3"
  shows "cpu_el1 c3 = cpu_el1 c"
  using assms by (auto simp: cm_op_defs bind_eq_Some_conv cm_ctx_eq_Some)

end
