(* ===== verification/Fwu.thy ===== *)
theory Fwu
  imports Auth_Mod Context_Mgmt
begin

text \<open>
  BL1's firmware update service: \<open>bl1/bl1_fwu.c\<close>, the preparation of the next image of
  \<open>bl1/aarch64/bl1_context_mgmt.c\<close>, BL1's SMC handler of \<open>bl1/bl1_main.c\<close> and the platform functions of
  \<open>plat/arm/common/arm_bl1_fwu.c\<close> (image descriptors and the check of source memory). Each image goes
  through the states reset, copying, copied, authenticated, executed, interrupted; the service is
  driven by SMCs from the normal world and from the secure image under execution.
\<close>

section \<open>State\<close>

datatype image_state =
  IMAGE_STATE_RESET | IMAGE_STATE_COPIED | IMAGE_STATE_COPYING | IMAGE_STATE_AUTHENTICATED
| IMAGE_STATE_EXECUTED | IMAGE_STATE_INTERRUPTED

record image_desc =
  id_image_id :: u32
  id_state :: image_state
  id_copied_size :: u32
  id_image_base :: u64
  id_image_size :: u32
  id_ep_info :: entry_point_info

definition INVALID_IMAGE_ID :: u32 where "INVALID_IMAGE_ID = 0xFFFFFFFF"

record 'p fwu_world = "'p auth_world" +
  fw_descs :: "image_desc list"
  fw_sec_exec_image_id :: u32
  fw_cpu :: cpu_state

text \<open>The platform's constants: the readable memory of each world and the free trusted RAM.\<close>

record fwu_plat =
  fp_addr_map_secure :: "(u64 \<times> u32) list"
  fp_addr_map_non_secure :: "(u64 \<times> u32) list"
  fp_free_base :: u64
  fp_free_size :: u64

section \<open>Platform functions\<close>

text \<open>
  The descriptor array ends with an entry of the invalid image id; the search returns the index of
  the descriptor where C returns its address.
\<close>

fun get_image_desc_loop :: "image_desc list \<Rightarrow> nat \<Rightarrow> u32 \<Rightarrow> nat option" where
  "get_image_desc_loop [] index image_id = None"
| "get_image_desc_loop (d # ds) index image_id =
     (if id_image_id d = INVALID_IMAGE_ID then None
      else if id_image_id d = image_id then Some index
      else get_image_desc_loop ds (Suc index) image_id)"

definition bl1_plat_get_image_desc :: "'p fwu_world \<Rightarrow> u32 \<Rightarrow> nat option" where
  "bl1_plat_get_image_desc w image_id = get_image_desc_loop (fw_descs w) 0 image_id"

fun mem_check_loop :: "(u64 \<times> u32) list \<Rightarrow> u64 \<Rightarrow> u32 \<Rightarrow> int" where
  "mem_check_loop [] mem_base mem_size = - ENOMEM"
| "mem_check_loop ((base, sz) # mmap) mem_base mem_size =
     (if sz = 0 then - ENOMEM
      else if mem_base \<ge> base \<and> mem_base + ucast mem_size \<le> base + ucast sz then 0
      else mem_check_loop mmap mem_base mem_size)"

definition bl1_plat_mem_check :: "fwu_plat \<Rightarrow> u64 \<Rightarrow> u32 \<Rightarrow> u32 \<Rightarrow> int option" where
  "bl1_plat_mem_check P mem_base mem_size flags =
     do { assert_c (mem_base \<noteq> 0);
          assert_c (mem_size \<noteq> 0);
          Some (mem_check_loop
                  (if GET_SECURITY_STATE flags = SECURE then fp_addr_map_secure P
                   else fp_addr_map_non_secure P) mem_base mem_size) }"

definition bl1_plat_set_ep_info :: "u32 \<Rightarrow> entry_point_info \<Rightarrow> entry_point_info" where
  "bl1_plat_set_ep_info image_id ep_info = ep_info"

definition upd_desc :: "nat \<Rightarrow> (image_desc \<Rightarrow> image_desc) \<Rightarrow> 'p fwu_world \<Rightarrow> 'p fwu_world" where
  "upd_desc i f w = w\<lparr>fw_descs := (fw_descs w)[i := f (fw_descs w ! i)]\<rparr>"

section \<open>Copying an image\<close>

text \<open>
  The two branches of \<open>bl1_fwu_image_copy\<close>, after its checks: the next block of an image under copy,
  and the first block of an image in the reset state. \<open>unsigned int\<close> sums wrap at 32 bits.
\<close>

definition fwu_copy_next ::
  "fwu_plat \<Rightarrow> nat \<Rightarrow> u64 \<Rightarrow> u32 \<Rightarrow> u32 \<Rightarrow> 'p fwu_world \<Rightarrow> (int \<times> 'p fwu_world) option"
where
  "fwu_copy_next P i image_src block_size flags w =
     (let d = fw_descs w ! i;
          block_size = (if id_copied_size d + block_size > id_image_size d
                        then id_image_size d - id_copied_size d else block_size)
      in do {
        rc \<leftarrow> bl1_plat_mem_check P image_src block_size flags;
        if rc \<noteq> 0 then Some (- ENOMEM, w)
        else
          let base_addr = id_image_base d + ucast (id_copied_size d);
              w = upd_desc i (\<lambda>d. d\<lparr>id_copied_size := id_copied_size d + block_size\<rparr>) w;
              w = w\<lparr>w_mem := memcpy (w_mem w) base_addr image_src (ucast block_size)\<rparr>;
              w = (if id_copied_size d + block_size = id_image_size d
                   then upd_desc i (\<lambda>d. d\<lparr>id_state := IMAGE_STATE_COPIED\<rparr>) w else w)
          in Some (0, w) })"

definition fwu_copy_first ::
  "fwu_plat \<Rightarrow> nat \<Rightarrow> u64 \<Rightarrow> u32 \<Rightarrow> u32 \<Rightarrow> u32 \<Rightarrow> 'p fwu_world \<Rightarrow> (int \<times> 'p fwu_world) option"
where
  "fwu_copy_first P i image_src block_size image_size flags w =
     (let d = fw_descs w ! i in
      if image_size = 0 then Some (- ENOMEM, w)
      else
        let block_size = (if block_size > image_size then image_size else block_size)
        in do {
          rc \<leftarrow> bl1_plat_mem_check P image_src block_size flags;
          if rc \<noteq> 0 then Some (- ENOMEM, w)
          else if id_image_base d < fp_free_base P \<or>
                  id_image_base d + ucast image_size > fp_free_base P + fp_free_size P
          then Some (- ENOMEM, w)
          else
            let w = upd_desc i (\<lambda>d. d\<lparr>id_image_size := image_size\<rparr>) w;
                w = w\<lparr>w_mem := memcpy (w_mem w) (id_image_base d) image_src (ucast block_size)\<rparr>;
                w = upd_desc i (\<lambda>d. d\<lparr>id_state := (if block_size = image_size then IMAGE_STATE_COPIED
                                                  else IMAGE_STATE_COPYING)\<rparr>) w;
                w = upd_desc i (\<lambda>d. d\<lparr>id_copied_size := block_size\<rparr>) w
            in Some (0, w) })"

definition bl1_fwu_image_copy ::
  "fwu_plat \<Rightarrow> u32 \<Rightarrow> u64 \<Rightarrow> u32 \<Rightarrow> u32 \<Rightarrow> u32 \<Rightarrow> 'p fwu_world \<Rightarrow> (int \<times> 'p fwu_world) option"
where
  "bl1_fwu_image_copy P image_id image_src block_size image_size flags w =
     (case bl1_plat_get_image_desc w image_id of
        None \<Rightarrow> Some (- EPERM, w)
      | Some i \<Rightarrow>
          let d = fw_descs w ! i in
          if id_state d \<noteq> IMAGE_STATE_RESET \<and> id_state d \<noteq> IMAGE_STATE_COPYING then Some (- EPERM, w)
          else if GET_SECURITY_STATE flags = SECURE \<or>
                  GET_SECURITY_STATE (ep_attr (id_ep_info d)) = NON_SECURE
          then Some (- EPERM, w)
          else if image_src = 0 \<or> block_size = 0 then Some (- ENOMEM, w)
          else if id_state d = IMAGE_STATE_COPYING
          then fwu_copy_next P i image_src block_size flags w
          else fwu_copy_first P i image_src block_size image_size flags w)"

section \<open>Authenticating an image\<close>

text \<open>The state checks of \<open>bl1_fwu_image_auth\<close>: which caller may authenticate which image when.\<close>

definition fwu_auth_allowed :: "u32 \<Rightarrow> image_desc \<Rightarrow> bool" where
  "fwu_auth_allowed flags d \<longleftrightarrow>
     (if GET_SECURITY_STATE flags = SECURE then id_state d = IMAGE_STATE_RESET
      else if GET_SECURITY_STATE (ep_attr (id_ep_info d)) = SECURE then id_state d = IMAGE_STATE_COPIED
      else id_state d = IMAGE_STATE_RESET)"

text \<open>The call of the authentication module and what follows it.\<close>

definition fwu_auth_run ::
  "(nat \<Rightarrow> u64 \<Rightarrow> u32 \<Rightarrow> 'p fwu_world \<Rightarrow> (int \<times> 'p fwu_world) option) \<Rightarrow>
   nat \<Rightarrow> u32 \<Rightarrow> u64 \<Rightarrow> u32 \<Rightarrow> 'p fwu_world \<Rightarrow> (int \<times> 'p fwu_world) option"
where
  "fwu_auth_run verify i image_id base_addr total_size w =
     do { (result, w) \<leftarrow> verify (unat image_id) base_addr total_size w;
          if result \<noteq> 0 then
            Some (- EAUTH,
              if id_state (fw_descs w ! i) = IMAGE_STATE_COPIED
              then upd_desc i (\<lambda>d. d\<lparr>id_state := IMAGE_STATE_RESET\<rparr>)
                     (w\<lparr>w_mem := memset (w_mem w) base_addr 0 (ucast total_size)\<rparr>)
              else w)
          else Some (0, upd_desc i (\<lambda>d. d\<lparr>id_state := IMAGE_STATE_AUTHENTICATED\<rparr>) w) }"

definition bl1_fwu_image_auth ::
  "(nat \<Rightarrow> u64 \<Rightarrow> u32 \<Rightarrow> 'p fwu_world \<Rightarrow> (int \<times> 'p fwu_world) option) \<Rightarrow>
   fwu_plat \<Rightarrow> u32 \<Rightarrow> u64 \<Rightarrow> u32 \<Rightarrow> u32 \<Rightarrow> 'p fwu_world \<Rightarrow> (int \<times> 'p fwu_world) option"
where
  "bl1_fwu_image_auth verify P image_id image_src image_size flags w =
     (case bl1_plat_get_image_desc w image_id of
        None \<Rightarrow> Some (- EPERM, w)
      | Some i \<Rightarrow>
          let d = fw_descs w ! i in
          if \<not> fwu_auth_allowed flags d then Some (- EPERM, w)
          else if id_state d = IMAGE_STATE_COPIED
          then fwu_auth_run verify i image_id (id_image_base d) (id_image_size d) w
          else if image_src = 0 \<or> image_size = 0 then Some (- ENOMEM, w)
          else do {
            rc \<leftarrow> bl1_plat_mem_check P image_src image_size (ep_attr (id_ep_info d));
            if rc \<noteq> 0 then Some (- ENOMEM, w)
            else fwu_auth_run verify i image_id image_src image_size
                   (upd_desc i (\<lambda>d. d\<lparr>id_image_size := image_size\<rparr>) w) })"

section \<open>Executing, resuming and leaving a secure image\<close>

definition bl1_prepare_next_image :: "u32 \<Rightarrow> 'p fwu_world \<Rightarrow> 'p fwu_world option" where
  "bl1_prepare_next_image image_id w =
     do { i \<leftarrow> bl1_plat_get_image_desc w image_id;
          let ep = id_ep_info (fw_descs w ! i);
          let sec = GET_SECURITY_STATE (ep_attr ep);
          p \<leftarrow> cm_get_context (fw_cpu w) sec;
          cpu \<leftarrow> (if \<not> p then cm_set_context (fw_cpu w) sec else Some (fw_cpu w));
          let ep = ep\<lparr>ep_spsr :=
            (if sec = SECURE then SPSR_64 MODE_EL1 MODE_SP_ELX DISABLE_ALL_EXCEPTIONS
             else if cpu_id_aa64pfr0 cpu AND ID_AA64PFR0_EL2_FIELD \<noteq> 0
             then SPSR_64 MODE_EL2 MODE_SP_ELX DISABLE_ALL_EXCEPTIONS
             else SPSR_64 MODE_EL1 MODE_SP_ELX DISABLE_ALL_EXCEPTIONS)\<rparr>;
          let ep = bl1_plat_set_ep_info image_id ep;
          cpu \<leftarrow> cm_init_my_context cpu ep;
          cpu \<leftarrow> cm_prepare_el3_exit cpu sec;
          Some (upd_desc i (\<lambda>d. d\<lparr>id_ep_info := ep, id_state := IMAGE_STATE_EXECUTED\<rparr>)
                  (w\<lparr>fw_cpu := cpu\<rparr>)) }"

text \<open>
  The three calls that switch worlds take the address of the handler's \<open>handle\<close>; the handle is the
  security state whose context it points to, and the calls return the new one.
\<close>

definition bl1_fwu_image_execute ::
  "u32 \<Rightarrow> u32 \<Rightarrow> u32 \<Rightarrow> 'p fwu_world \<Rightarrow> (int \<times> u32 \<times> 'p fwu_world) option"
where
  "bl1_fwu_image_execute image_id handle flags w =
     (case bl1_plat_get_image_desc w image_id of
        None \<Rightarrow> Some (- EPERM, handle, w)
      | Some i \<Rightarrow>
          let d = fw_descs w ! i in
          if GET_SECURITY_STATE flags = SECURE \<or>
             GET_SECURITY_STATE (ep_attr (id_ep_info d)) = NON_SECURE \<or>
             EP_GET_EXE (ep_attr (id_ep_info d)) = NON_EXECUTABLE \<or>
             id_state d \<noteq> IMAGE_STATE_AUTHENTICATED
          then Some (- EPERM, handle, w)
          else do {
            cpu \<leftarrow> cm_el1_sysregs_context_save (fw_cpu w) NON_SECURE;
            w \<leftarrow> bl1_prepare_next_image image_id (w\<lparr>fw_cpu := cpu\<rparr>);
            Some (0, SECURE, w\<lparr>fw_sec_exec_image_id := image_id\<rparr>) })"

definition bl1_fwu_image_resume ::
  "u64 \<Rightarrow> u32 \<Rightarrow> u32 \<Rightarrow> 'p fwu_world \<Rightarrow> (u64 \<times> u32 \<times> 'p fwu_world) option"
where
  "bl1_fwu_image_resume image_param handle flags w =
     (let caller_sec_state = GET_SECURITY_STATE flags in
      case bl1_plat_get_image_desc w (fw_sec_exec_image_id w) of
        None \<Rightarrow>
          if caller_sec_state = NON_SECURE then Some (of_int (- EPERM), handle, w) else None
      | Some i \<Rightarrow>
          let d = fw_descs w ! i in do {
          assert_c (GET_SECURITY_STATE (ep_attr (id_ep_info d)) = SECURE);
          assert_c (EP_GET_EXE (ep_attr (id_ep_info d)) = EXECUTABLE);
          assert_c (id_state d = (if caller_sec_state = SECURE then IMAGE_STATE_EXECUTED
                                  else IMAGE_STATE_INTERRUPTED));
          let resume_sec_state = (if caller_sec_state = SECURE then NON_SECURE else SECURE);
          let w = upd_desc i (\<lambda>d. d\<lparr>id_state := (if caller_sec_state = SECURE then IMAGE_STATE_INTERRUPTED
                                               else IMAGE_STATE_EXECUTED)\<rparr>) w;
          cpu \<leftarrow> cm_el1_sysregs_context_save (fw_cpu w) caller_sec_state;
          cpu \<leftarrow> cm_el1_sysregs_context_restore cpu resume_sec_state;
          cpu \<leftarrow> cm_set_next_eret_context cpu resume_sec_state;
          Some (image_param, resume_sec_state, w\<lparr>fw_cpu := cpu\<rparr>) })"

definition bl1_fwu_sec_image_done ::
  "u32 \<Rightarrow> u32 \<Rightarrow> 'p fwu_world \<Rightarrow> (int \<times> u32 \<times> 'p fwu_world) option"
where
  "bl1_fwu_sec_image_done handle flags w =
     (if GET_SECURITY_STATE flags = NON_SECURE then Some (- EPERM, handle, w)
      else do {
        i \<leftarrow> bl1_plat_get_image_desc w (fw_sec_exec_image_id w);
        let d = fw_descs w ! i;
        assert_c (GET_SECURITY_STATE (ep_attr (id_ep_info d)) = SECURE);
        assert_c (EP_GET_EXE (ep_attr (id_ep_info d)) = EXECUTABLE);
        assert_c (id_state d = IMAGE_STATE_EXECUTED);
        let w = upd_desc i (\<lambda>d. d\<lparr>id_state := IMAGE_STATE_RESET\<rparr>) w;
        let w = w\<lparr>fw_sec_exec_image_id := INVALID_IMAGE_ID\<rparr>;
        cpu \<leftarrow> cm_el1_sysregs_context_restore (fw_cpu w) NON_SECURE;
        cpu \<leftarrow> cm_set_next_eret_context cpu NON_SECURE;
        Some (0, NON_SECURE, w\<lparr>fw_cpu := cpu\<rparr>) })"

section \<open>The SMC handlers\<close>

definition FWU_SMC_IMAGE_COPY :: u32 where "FWU_SMC_IMAGE_COPY = 0x10"
definition FWU_SMC_IMAGE_AUTH :: u32 where "FWU_SMC_IMAGE_AUTH = 0x11"
definition FWU_SMC_IMAGE_EXECUTE :: u32 where "FWU_SMC_IMAGE_EXECUTE = 0x12"
definition FWU_SMC_IMAGE_RESUME :: u32 where "FWU_SMC_IMAGE_RESUME = 0x13"
definition FWU_SMC_SEC_IMAGE_DONE :: u32 where "FWU_SMC_SEC_IMAGE_DONE = 0x14"
definition FWU_SMC_UPDATE_DONE :: u32 where "FWU_SMC_UPDATE_DONE = 0x15"

lemmas fwu_fids = FWU_SMC_IMAGE_COPY_def FWU_SMC_IMAGE_AUTH_def FWU_SMC_IMAGE_EXECUTE_def
  FWU_SMC_IMAGE_RESUME_def FWU_SMC_SEC_IMAGE_DONE_def FWU_SMC_UPDATE_DONE_def

text \<open>
  \<open>SMC_RET1(handle, call(.., &handle, ..))\<close> assigns the result of the call to \<open>x0\<close> of the context
  \<open>handle\<close> points to. C does not say whether the pointer on the left is read before or after the call
  on the right changes it; \<open>lhs_first\<close> is the compiler's choice.
\<close>

definition set_x0 :: "u32 \<Rightarrow> u64 \<Rightarrow> 'p fwu_world \<Rightarrow> 'p fwu_world" where
  "set_x0 sec v w =
     w\<lparr>fw_cpu := cm_put_ctx (fw_cpu w) sec
        ((cpu_context (fw_cpu w) sec)\<lparr>cc_gpregs := (cc_gpregs (cpu_context (fw_cpu w) sec))[0 := v]\<rparr>)\<rparr>"

definition smc_ret1 :: "bool \<Rightarrow> u32 \<Rightarrow> u32 \<Rightarrow> u64 \<Rightarrow> 'p fwu_world \<Rightarrow> u32 \<times> 'p fwu_world" where
  "smc_ret1 lhs_first old_handle handle v w =
     (handle, set_x0 (if lhs_first then old_handle else handle) v w)"

definition bl1_fwu_smc_handler ::
  "(nat \<Rightarrow> u64 \<Rightarrow> u32 \<Rightarrow> 'p fwu_world \<Rightarrow> (int \<times> 'p fwu_world) option) \<Rightarrow> fwu_plat \<Rightarrow> bool \<Rightarrow>
   u32 \<Rightarrow> u64 \<Rightarrow> u64 \<Rightarrow> u64 \<Rightarrow> u64 \<Rightarrow> u32 \<Rightarrow> u32 \<Rightarrow> 'p fwu_world \<Rightarrow> (u32 \<times> 'p fwu_world) option"
where
  "bl1_fwu_smc_handler verify P lhs_first smc_fid x1 x2 x3 x4 handle flags w =
     (if smc_fid = FWU_SMC_IMAGE_COPY then
        do { (rc, w) \<leftarrow> bl1_fwu_image_copy P (ucast x1) x2 (ucast x3) (ucast x4) flags w;
             Some (smc_ret1 lhs_first handle handle (of_int rc) w) }
      else if smc_fid = FWU_SMC_IMAGE_AUTH then
        do { (rc, w) \<leftarrow> bl1_fwu_image_auth verify P (ucast x1) x2 (ucast x3) flags w;
             Some (smc_ret1 lhs_first handle handle (of_int rc) w) }
      else if smc_fid = FWU_SMC_IMAGE_EXECUTE then
        do { (rc, handle', w) \<leftarrow> bl1_fwu_image_execute (ucast x1) handle flags w;
             Some (smc_ret1 lhs_first handle handle' (of_int rc) w) }
      else if smc_fid = FWU_SMC_IMAGE_RESUME then
        do { (v, handle', w) \<leftarrow> bl1_fwu_image_resume x1 handle flags w;
             Some (smc_ret1 lhs_first handle handle' v w) }
      else if smc_fid = FWU_SMC_SEC_IMAGE_DONE then
        do { (rc, handle', w) \<leftarrow> bl1_fwu_sec_image_done handle flags w;
             Some (smc_ret1 lhs_first handle handle' (of_int rc) w) }
      else None)"

text \<open>
  BL1's handler dispatches the firmware update range and answers the general service queries.
  \<open>FWU_SMC_UPDATE_DONE\<close> never returns: the platform waits for a reset.
\<close>

definition is_fwu_fid :: "u32 \<Rightarrow> bool" where
  "is_fwu_fid fid \<longleftrightarrow> FWU_SMC_IMAGE_COPY \<le> fid \<and> fid \<le> FWU_SMC_UPDATE_DONE"

definition SMC_UNK :: u64 where "SMC_UNK = 0xFFFFFFFF"

definition set_gpregs :: "u32 \<Rightarrow> u64 list \<Rightarrow> 'p fwu_world \<Rightarrow> 'p fwu_world" where
  "set_gpregs sec vs w =
     w\<lparr>fw_cpu := cm_put_ctx (fw_cpu w) sec
        ((cpu_context (fw_cpu w) sec)\<lparr>cc_gpregs :=
           vs @ drop (length vs) (cc_gpregs (cpu_context (fw_cpu w) sec))\<rparr>)\<rparr>"

definition bl1_smc_handler ::
  "(nat \<Rightarrow> u64 \<Rightarrow> u32 \<Rightarrow> 'p fwu_world \<Rightarrow> (int \<times> 'p fwu_world) option) \<Rightarrow> fwu_plat \<Rightarrow> bool \<Rightarrow>
   u64 list \<Rightarrow> u32 \<Rightarrow> u64 \<Rightarrow> u64 \<Rightarrow> u64 \<Rightarrow> u64 \<Rightarrow> u32 \<Rightarrow> u32 \<Rightarrow> 'p fwu_world \<Rightarrow>
   (u32 \<times> 'p fwu_world) option"
where
  "bl1_smc_handler verify P lhs_first bl1_svc_uid smc_fid x1 x2 x3 x4 handle flags w =
     (if is_fwu_fid smc_fid then
        bl1_fwu_smc_handler verify P lhs_first smc_fid x1 x2 x3 x4 handle flags w
      else if smc_fid = 0 then Some (handle, set_x0 handle 10 w)
      else if smc_fid = 1 then Some (handle, set_gpregs handle bl1_svc_uid w)
      else if smc_fid = 3 then Some (handle, set_x0 handle 1 w)
      else Some (handle, set_x0 handle SMC_UNK w))"

section \<open>The life cycle as a state machine\<close>

text \<open>
  A step is an SMC of the world that runs (the caller's security state in \<open>flags\<close> is the one EL3 last
  returned to), or anything that world does before its next SMC: it changes memory, its EL1 registers
  and, at the entry of the SMC, its saved context. \<open>uid\<close> is the service's UUID.
\<close>

inductive fwu_step ::
  "(nat \<Rightarrow> u64 \<Rightarrow> u32 \<Rightarrow> 'p fwu_world \<Rightarrow> (int \<times> 'p fwu_world) option) \<Rightarrow> fwu_plat \<Rightarrow>
   'p fwu_world \<Rightarrow> 'p fwu_world \<Rightarrow> bool"
for verify P where
  smc: "GET_SECURITY_STATE flags = cpu_next (fw_cpu w) \<Longrightarrow>
        bl1_smc_handler verify P lhs_first uid fid x1 x2 x3 x4 (cpu_next (fw_cpu w)) flags w = Some (h, w') \<Longrightarrow>
        fwu_step verify P w w'"
| run: "fwu_step verify P w
          (w\<lparr>w_mem := m,
             fw_cpu := (fw_cpu w)\<lparr>cpu_el1 := r,
               cpu_context := (cpu_context (fw_cpu w))(cpu_next (fw_cpu w) := ctx)\<rparr>\<rparr>)"

definition desc_secure :: "image_desc \<Rightarrow> bool" where
  "desc_secure d \<longleftrightarrow> GET_SECURITY_STATE (ep_attr (id_ep_info d)) = SECURE"

definition desc_executable :: "image_desc \<Rightarrow> bool" where
  "desc_executable d \<longleftrightarrow> EP_GET_EXE (ep_attr (id_ep_info d)) = EXECUTABLE"

text \<open>The image the secure world runs: secure, executable and in the given state.\<close>

definition sec_image :: "'p fwu_world \<Rightarrow> image_state \<Rightarrow> nat \<Rightarrow> bool" where
  "sec_image w st i \<longleftrightarrow>
     desc_secure (fw_descs w ! i) \<and> desc_executable (fw_descs w ! i) \<and>
     id_state (fw_descs w ! i) = st \<and> cpu_context_ptr (fw_cpu w) SECURE"

definition fwu_init :: "'p fwu_world \<Rightarrow> bool" where
  "fwu_init w \<longleftrightarrow>
     cpu_context_ptr (fw_cpu w) NON_SECURE \<and> cpu_next (fw_cpu w) = NON_SECURE \<and>
     fw_sec_exec_image_id w = INVALID_IMAGE_ID \<and>
     (\<forall>d \<in> set (fw_descs w). id_state d = IMAGE_STATE_RESET \<or>
        (id_state d = IMAGE_STATE_EXECUTED \<and> \<not> desc_secure d))"

text \<open>
  The invariant: which world runs agrees with the state of the secure image under execution; an image
  under copy has a part left; and every secure image that was authenticated, runs or is interrupted
  carries the authentication module's mark.
\<close>

definition desc_ok :: "'p fwu_world \<Rightarrow> image_desc \<Rightarrow> bool" where
  "desc_ok w d \<longleftrightarrow>
     (id_state d = IMAGE_STATE_COPYING \<longrightarrow> id_copied_size d < id_image_size d) \<and>
     (id_state d \<in> {IMAGE_STATE_AUTHENTICATED, IMAGE_STATE_EXECUTED, IMAGE_STATE_INTERRUPTED} \<and>
      desc_secure d \<longrightarrow> marked w (unat (id_image_id d)))"

definition fwu_inv :: "'p fwu_world \<Rightarrow> bool" where
  "fwu_inv w \<longleftrightarrow>
     cpu_context_ptr (fw_cpu w) NON_SECURE \<and>
     sec_state_is_valid (cpu_next (fw_cpu w)) \<and>
     (cpu_next (fw_cpu w) = SECURE \<longrightarrow>
        (\<exists>i. bl1_plat_get_image_desc w (fw_sec_exec_image_id w) = Some i \<and>
             sec_image w IMAGE_STATE_EXECUTED i)) \<and>
     (cpu_next (fw_cpu w) = NON_SECURE \<longrightarrow>
        (\<forall>i. bl1_plat_get_image_desc w (fw_sec_exec_image_id w) = Some i \<longrightarrow>
             sec_image w IMAGE_STATE_INTERRUPTED i)) \<and>
     (\<forall>d \<in> set (fw_descs w). desc_ok w d)"

subsection \<open>Looking up descriptors\<close>

lemma get_image_desc_loop_SomeD:
  "get_image_desc_loop ds k i = Some j \<Longrightarrow>
   k \<le> j \<and> j - k < length ds \<and> id_image_id (ds ! (j - k)) = i \<and> i \<noteq> INVALID_IMAGE_ID"
proof (induction ds arbitrary: k)
  case Nil
  then show ?case by simp
next
  case (Cons d ds)
  show ?case
  proof (cases "id_image_id d = INVALID_IMAGE_ID \<or> id_image_id d = i")
    case True
    with Cons.prems show ?thesis by (auto split: if_splits)
  next
    case False
    with Cons.prems have "get_image_desc_loop ds (Suc k) i = Some j" by simp
    from Cons.IH [OF this] have *: "Suc k \<le> j" "j - Suc k < length ds"
      "id_image_id (ds ! (j - Suc k)) = i" "i \<noteq> INVALID_IMAGE_ID" by simp_all
    moreover from *(1) have "j - k = Suc (j - Suc k)" by simp
    ultimately show ?thesis by simp
  qed
qed

lemma get_image_desc_loop_ids:
  "map id_image_id ds = map id_image_id ds' \<Longrightarrow> get_image_desc_loop ds k i = get_image_desc_loop ds' k i"
proof (induction ds arbitrary: ds' k)
  case Nil
  then show ?case by simp
next
  case (Cons d ds)
  then show ?case by (cases ds') auto
qed

lemma get_image_desc_SomeD:
  "bl1_plat_get_image_desc w i = Some j \<Longrightarrow>
   j < length (fw_descs w) \<and> id_image_id (fw_descs w ! j) = i \<and> i \<noteq> INVALID_IMAGE_ID"
  by (auto simp: bl1_plat_get_image_desc_def dest: get_image_desc_loop_SomeD)

lemma get_image_desc_INVALID [simp]: "bl1_plat_get_image_desc w INVALID_IMAGE_ID = None"
  using get_image_desc_SomeD [of w INVALID_IMAGE_ID] by (cases "bl1_plat_get_image_desc w INVALID_IMAGE_ID") auto

lemma get_image_desc_update:
  assumes "fw_descs w' = (fw_descs w)[i := d']" and "id_image_id d' = id_image_id (fw_descs w ! i)"
  shows "bl1_plat_get_image_desc w' = bl1_plat_get_image_desc w"
proof -
  have "map id_image_id ((fw_descs w)[i := d']) = map id_image_id (fw_descs w)"
  proof (cases "i < length (fw_descs w)")
    case True
    then show ?thesis
      using assms(2) by (metis list_update_id length_map map_update nth_map)
  next
    case False
    then show ?thesis by (simp add: list_update_beyond)
  qed
  from get_image_desc_loop_ids [OF this] show ?thesis
    by (simp add: bl1_plat_get_image_desc_def fun_eq_iff assms(1))
qed

lemma fw_descs_upd_desc [simp]: "fw_descs (upd_desc i f w) = (fw_descs w)[i := f (fw_descs w ! i)]"
  by (simp add: upd_desc_def)

lemma upd_desc_other [simp]:
  "fw_cpu (upd_desc i f w) = fw_cpu w"
  "fw_sec_exec_image_id (upd_desc i f w) = fw_sec_exec_image_id w"
  "w_mem (upd_desc i f w) = w_mem w"
  "w_flags (upd_desc i f w) = w_flags w"
  "w_plat (upd_desc i f w) = w_plat w"
  "marked (upd_desc i f w) = marked w"
  by (simp_all add: upd_desc_def marked_def fun_eq_iff)

lemma EXE_cases: "EP_GET_EXE x = NON_EXECUTABLE \<or> EP_GET_EXE x = EXECUTABLE"
proof -
  have b: "bit (8 :: int) n \<longleftrightarrow> n = 3" for n
    using bit_exp_iff [of 3 n, where 'a = int] by simp
  have "x AND 8 = (if bit x 3 then 8 else 0)"
    by (rule bit_word_eqI) (auto simp: bit_and_iff b)
  then show ?thesis by (auto simp: EP_GET_EXE_def cm_consts)
qed

subsection \<open>Preservation of the invariant\<close>

lemma descs_ok_update:
  assumes "\<forall>d \<in> set (fw_descs w). desc_ok w d" and "fw_descs w' = (fw_descs w)[i := d']"
    and "desc_ok w' d'" and "\<And>j. marked w j \<Longrightarrow> marked w' j"
  shows "\<forall>d \<in> set (fw_descs w'). desc_ok w' d"
proof
  fix d assume "d \<in> set (fw_descs w')"
  then have "d = d' \<or> d \<in> set (fw_descs w)"
    using assms(2) set_update_subset_insert [of "fw_descs w" i d'] by auto
  then show "desc_ok w' d"
    using assms(1,3,4) by (auto simp: desc_ok_def)
qed

text \<open>What an SMC that neither starts nor leaves a secure image does to the state.\<close>

definition quiet_change :: "'p fwu_world \<Rightarrow> nat \<Rightarrow> image_desc \<Rightarrow> 'p fwu_world \<Rightarrow> bool" where
  "quiet_change w i d' w' \<longleftrightarrow>
     i < length (fw_descs w) \<and> fw_descs w' = (fw_descs w)[i := d'] \<and>
     id_image_id d' = id_image_id (fw_descs w ! i) \<and> id_ep_info d' = id_ep_info (fw_descs w ! i) \<and>
     id_state (fw_descs w ! i) \<notin> {IMAGE_STATE_EXECUTED, IMAGE_STATE_INTERRUPTED} \<and>
     id_state d' \<notin> {IMAGE_STATE_EXECUTED, IMAGE_STATE_INTERRUPTED} \<and>
     desc_ok w' d' \<and>
     (\<forall>j. marked w j \<longrightarrow> marked w' j) \<and>
     fw_cpu w' = fw_cpu w \<and> fw_sec_exec_image_id w' = fw_sec_exec_image_id w"

lemma fwu_inv_quiet:
  assumes "fwu_inv w" and "quiet_change w i d' w'"
  shows "fwu_inv w'"
proof -
  note q = assms(2) [unfolded quiet_change_def]
  have look: "bl1_plat_get_image_desc w' = bl1_plat_get_image_desc w"
    using q by (blast intro: get_image_desc_update)
  have sec: "sec_image w' st j" if "sec_image w st j" "st \<in> {IMAGE_STATE_EXECUTED, IMAGE_STATE_INTERRUPTED}" for st j
    using q that by (auto simp: sec_image_def nth_list_update)
  have ok: "\<forall>d \<in> set (fw_descs w'). desc_ok w' d"
    using assms(1) q by (intro descs_ok_update [of w w' i d']) (auto simp: fwu_inv_def)
  from assms(1) q ok show ?thesis
    unfolding fwu_inv_def look using sec by auto
qed

text \<open>The invariant does not look at the contents of contexts, memory or the EL1 registers.\<close>

lemma fwu_inv_cong:
  assumes "fw_descs w' = fw_descs w" "fw_sec_exec_image_id w' = fw_sec_exec_image_id w"
    and "cpu_next (fw_cpu w') = cpu_next (fw_cpu w)"
    and "cpu_context_ptr (fw_cpu w') = cpu_context_ptr (fw_cpu w)"
    and "w_flags w' = w_flags w"
  shows "fwu_inv w' = fwu_inv w"
  using assms by (simp add: fwu_inv_def sec_image_def bl1_plat_get_image_desc_def marked_def desc_ok_def)

lemma fwu_inv_set_x0 [simp]: "fwu_inv (set_x0 s v w) = fwu_inv w"
  by (rule fwu_inv_cong) (simp_all add: set_x0_def)

lemma fwu_inv_set_gpregs [simp]: "fwu_inv (set_gpregs s v w) = fwu_inv w"
  by (rule fwu_inv_cong) (simp_all add: set_gpregs_def)

lemma bl1_fwu_image_copy_quiet:
  assumes "bl1_fwu_image_copy P image_id src blk sz flags w = Some (rc, w')" and "fwu_inv w"
  shows "w' = w \<or> (\<exists>i d'. quiet_change w i d' w')"
proof (cases "w' = w")
  case False
  with assms(1) obtain i where i: "bl1_plat_get_image_desc w image_id = Some i"
    by (auto simp: bl1_fwu_image_copy_def split: option.splits)
  let ?d = "fw_descs w ! i"
  note len = get_image_desc_SomeD [OF i]
  from assms(1) False i consider
    (copying) "id_state ?d = IMAGE_STATE_COPYING" "fwu_copy_next P i src blk flags w = Some (rc, w')"
  | (reset) "id_state ?d = IMAGE_STATE_RESET" "fwu_copy_first P i src blk sz flags w = Some (rc, w')"
    by (auto simp: bl1_fwu_image_copy_def Let_def split: if_splits)
  then show ?thesis
  proof cases
    case copying
    from assms(2) len copying(1) have less: "id_copied_size ?d < id_image_size ?d"
      unfolding fwu_inv_def desc_ok_def using nth_mem by blast
    let ?b = "if id_copied_size ?d + blk > id_image_size ?d then id_image_size ?d - id_copied_size ?d else blk"
    let ?n = "id_copied_size ?d + ?b"
    have le: "?n \<le> id_image_size ?d" by auto
    from copying(2) False have "quiet_change w i
        (if ?n = id_image_size ?d then ?d\<lparr>id_copied_size := ?n, id_state := IMAGE_STATE_COPIED\<rparr>
         else ?d\<lparr>id_copied_size := ?n\<rparr>) w'"
      using len copying(1) le less
      by (auto simp: fwu_copy_next_def Let_def quiet_change_def marked_def desc_ok_def
          split: if_splits Option.bind_splits)
    then show ?thesis by blast
  next
    case reset
    let ?b = "if blk > sz then sz else blk"
    from reset(2) False have "quiet_change w i
        (?d\<lparr>id_image_size := sz,
            id_state := (if ?b = sz then IMAGE_STATE_COPIED else IMAGE_STATE_COPYING),
            id_copied_size := ?b\<rparr>) w'"
      using len reset(1)
      by (auto simp: fwu_copy_first_def Let_def quiet_change_def marked_def desc_ok_def
          split: if_splits Option.bind_splits)
    then show ?thesis by blast
  qed
qed simp


lemma bl1_fwu_image_execute_cases:
  assumes "bl1_fwu_image_execute image_id h flags w = Some (rc, h', w')"
  obtains (refused) "rc = - EPERM" "h' = h" "w' = w"
  | (started) i cpu w1 where "rc = 0" "h' = SECURE"
      "bl1_plat_get_image_desc w image_id = Some i"
      "GET_SECURITY_STATE flags = NON_SECURE"
      "desc_secure (fw_descs w ! i)" "desc_executable (fw_descs w ! i)"
      "id_state (fw_descs w ! i) = IMAGE_STATE_AUTHENTICATED"
      "cm_el1_sysregs_context_save (fw_cpu w) NON_SECURE = Some cpu"
      "bl1_prepare_next_image image_id (w\<lparr>fw_cpu := cpu\<rparr>) = Some w1"
      "w' = w1\<lparr>fw_sec_exec_image_id := image_id\<rparr>"
proof (cases "bl1_plat_get_image_desc w image_id")
  case None
  with assms show ?thesis by (auto simp: bl1_fwu_image_execute_def intro: refused)
next
  case (Some i)
  show ?thesis
  proof (cases "rc = - EPERM \<and> h' = h \<and> w' = w")
    case True
    then show ?thesis using refused by blast
  next
    case False
    with assms Some obtain cpu w1 where
      "GET_SECURITY_STATE flags \<noteq> SECURE"
      "GET_SECURITY_STATE (ep_attr (id_ep_info (fw_descs w ! i))) \<noteq> NON_SECURE"
      "EP_GET_EXE (ep_attr (id_ep_info (fw_descs w ! i))) \<noteq> NON_EXECUTABLE"
      "id_state (fw_descs w ! i) = IMAGE_STATE_AUTHENTICATED"
      "cm_el1_sysregs_context_save (fw_cpu w) NON_SECURE = Some cpu"
      "bl1_prepare_next_image image_id (w\<lparr>fw_cpu := cpu\<rparr>) = Some w1"
      "rc = 0" "h' = SECURE" "w' = w1\<lparr>fw_sec_exec_image_id := image_id\<rparr>"
      by (auto simp: bl1_fwu_image_execute_def Let_def bind_eq_Some_conv simp del: not_SECURE split: if_splits)
    with Some show ?thesis
      using started GET_SECURITY_STATE_cases EXE_cases
      unfolding desc_secure_def desc_executable_def by metis
  qed
qed

lemma bl1_prepare_next_image_SomeD:
  assumes "bl1_prepare_next_image image_id w = Some w'"
  obtains i ep where "bl1_plat_get_image_desc w image_id = Some i"
    and "ep_attr ep = ep_attr (id_ep_info (fw_descs w ! i))"
    and "fw_descs w' = (fw_descs w)[i := (fw_descs w ! i)\<lparr>id_ep_info := ep, id_state := IMAGE_STATE_EXECUTED\<rparr>]"
    and "w_mem w' = w_mem w" "w_flags w' = w_flags w" "fw_sec_exec_image_id w' = fw_sec_exec_image_id w"
    and "cpu_next (fw_cpu w') = GET_SECURITY_STATE (ep_attr ep)"
    and "cpu_context_ptr (fw_cpu w') = (cpu_context_ptr (fw_cpu w))(GET_SECURITY_STATE (ep_attr ep) := True)"
    and "cpu_context (fw_cpu w') = (cpu_context (fw_cpu w))(GET_SECURITY_STATE (ep_attr ep) :=
           cpu_context (fw_cpu w') (GET_SECURITY_STATE (ep_attr ep)))"
proof -
  from assms obtain i where i: "bl1_plat_get_image_desc w image_id = Some i"
    by (auto simp: bl1_prepare_next_image_def bind_eq_Some_conv)
  let ?ep = "id_ep_info (fw_descs w ! i)"
  let ?sec = "GET_SECURITY_STATE (ep_attr ?ep)"
  from assms i obtain spsr cpu1 cpu2 cpu3
    where c1: "cpu1 = fw_cpu w\<lparr>cpu_context_ptr := (cpu_context_ptr (fw_cpu w))(?sec := True)\<rparr>"
      and c2: "cm_init_my_context cpu1 (?ep\<lparr>ep_spsr := spsr\<rparr>) = Some cpu2"
      and c3: "cm_prepare_el3_exit cpu2 ?sec = Some cpu3"
      and w': "w' = upd_desc i (\<lambda>d. d\<lparr>id_ep_info := ?ep\<lparr>ep_spsr := spsr\<rparr>, id_state := IMAGE_STATE_EXECUTED\<rparr>)
                      (w\<lparr>fw_cpu := cpu3\<rparr>)"
    by (auto simp: bl1_prepare_next_image_def bl1_plat_set_ep_info_def cm_get_context_def Let_def
        cm_set_context_def bind_eq_Some_conv fun_upd_idem split: if_splits)
  show thesis
    by (rule that [OF i, of "?ep\<lparr>ep_spsr := spsr\<rparr>"])
      (use c1 c2 c3 in \<open>auto simp: w' cm_op_defs cm_ctx_eq_Some bind_eq_Some_conv Let_def fun_eq_iff\<close>)
qed

lemma fwu_inv_execute:
  assumes inv: "fwu_inv w" and ns: "GET_SECURITY_STATE flags = cpu_next (fw_cpu w)"
    and ex: "bl1_fwu_image_execute image_id h flags w = Some (rc, h', w')"
  shows "fwu_inv w'"
  using ex
proof (cases rule: bl1_fwu_image_execute_cases)
  case refused
  with inv show ?thesis by simp
next
  case (started i cpu w1)
  let ?d = "fw_descs w ! i"
  have cpu: "cpu_context_ptr cpu = cpu_context_ptr (fw_cpu w)" "cpu_next cpu = cpu_next (fw_cpu w)"
    using started(8) by (auto simp: cm_op_defs bind_eq_Some_conv)
  have look0: "bl1_plat_get_image_desc (w\<lparr>fw_cpu := cpu\<rparr>) image_id = Some i"
    using started(3) by (simp add: bl1_plat_get_image_desc_def)
  from started(9) obtain ep where
    ep: "ep_attr ep = ep_attr (id_ep_info ?d)"
    and ds: "fw_descs w1 = (fw_descs w)[i := ?d\<lparr>id_ep_info := ep, id_state := IMAGE_STATE_EXECUTED\<rparr>]"
    and fl: "w_flags w1 = w_flags w"
    and nx: "cpu_next (fw_cpu w1) = GET_SECURITY_STATE (ep_attr ep)"
    and pt: "cpu_context_ptr (fw_cpu w1) = (cpu_context_ptr cpu)(GET_SECURITY_STATE (ep_attr ep) := True)"
    using look0 by (elim bl1_prepare_next_image_SomeD) auto
  note len = get_image_desc_SomeD [OF started(3)]
  have sec: "GET_SECURITY_STATE (ep_attr ep) = SECURE"
    using started(5) ep by (simp add: desc_secure_def)
  have ds': "fw_descs w' = (fw_descs w)[i := ?d\<lparr>id_ep_info := ep, id_state := IMAGE_STATE_EXECUTED\<rparr>]"
    and mk: "marked w' = marked w"
    using ds fl started(10) by (simp_all add: marked_def fun_eq_iff)
  have look: "bl1_plat_get_image_desc w' = bl1_plat_get_image_desc w"
    by (rule get_image_desc_update [OF ds']) simp
  have "marked w (unat (id_image_id ?d))"
    using inv started(5,7) len nth_mem [of i "fw_descs w"] unfolding fwu_inv_def desc_ok_def by blast
  then have "desc_ok w' (?d\<lparr>id_ep_info := ep, id_state := IMAGE_STATE_EXECUTED\<rparr>)"
    by (simp add: desc_ok_def mk)
  then have ok: "\<forall>d \<in> set (fw_descs w'). desc_ok w' d"
    using inv by (intro descs_ok_update [OF _ ds']) (auto simp: fwu_inv_def mk)
  have img: "sec_image w' IMAGE_STATE_EXECUTED i"
    using len ds' pt sec started(5,6,10) ep
    by (simp add: sec_image_def desc_secure_def desc_executable_def)
  show ?thesis
    unfolding fwu_inv_def look
    using inv pt cpu nx sec started(3,10) img ok by (simp add: fwu_inv_def)
qed

lemma fwu_inv_resume:
  assumes inv: "fwu_inv w" and ns: "GET_SECURITY_STATE flags = cpu_next (fw_cpu w)"
    and ex: "bl1_fwu_image_resume x h flags w = Some (rc, h', w')"
  shows "fwu_inv w'"
proof (cases "bl1_plat_get_image_desc w (fw_sec_exec_image_id w)")
  case None
  with ex inv show ?thesis
    by (auto simp: bl1_fwu_image_resume_def Let_def split: if_splits)
next
  case (Some i)
  let ?st = "if GET_SECURITY_STATE flags = SECURE then IMAGE_STATE_INTERRUPTED else IMAGE_STATE_EXECUTED"
  let ?d = "fw_descs w ! i"
  note len = get_image_desc_SomeD [OF Some]
  from ex Some have ds: "fw_descs w' = (fw_descs w)[i := ?d\<lparr>id_state := ?st\<rparr>]"
    and fl: "w_flags w' = w_flags w" and se: "fw_sec_exec_image_id w' = fw_sec_exec_image_id w"
    and nx: "cpu_next (fw_cpu w') = (if GET_SECURITY_STATE flags = SECURE then NON_SECURE else SECURE)"
    and pt: "cpu_context_ptr (fw_cpu w') = cpu_context_ptr (fw_cpu w)"
      "cpu_context_ptr (fw_cpu w) SECURE"
    and as: "desc_secure ?d" "desc_executable ?d"
      "id_state ?d \<in> {IMAGE_STATE_EXECUTED, IMAGE_STATE_INTERRUPTED}"
    by (auto simp: bl1_fwu_image_resume_def Let_def bind_eq_Some_conv cm_op_defs cm_ctx_eq_Some
        desc_secure_def desc_executable_def split: if_splits)
  have look: "bl1_plat_get_image_desc w' = bl1_plat_get_image_desc w"
    by (rule get_image_desc_update [OF ds]) simp
  have mk: "marked w' = marked w"
    using fl by (simp add: marked_def fun_eq_iff)
  have "marked w (unat (id_image_id ?d))"
    using inv as len nth_mem [of i "fw_descs w"] unfolding fwu_inv_def desc_ok_def by blast
  then have "desc_ok w' (?d\<lparr>id_state := ?st\<rparr>)"
    by (simp add: desc_ok_def mk)
  then have ok: "\<forall>d \<in> set (fw_descs w'). desc_ok w' d"
    using inv by (intro descs_ok_update [OF _ ds]) (auto simp: fwu_inv_def mk)
  have img: "sec_image w' ?st i"
    using len ds pt as by (simp add: sec_image_def desc_secure_def desc_executable_def)
  show ?thesis
    unfolding fwu_inv_def look se
    using inv pt nx Some img ok by (auto simp: fwu_inv_def split: if_splits)
qed

lemma fwu_inv_done:
  assumes inv: "fwu_inv w" and ns: "GET_SECURITY_STATE flags = cpu_next (fw_cpu w)"
    and ex: "bl1_fwu_sec_image_done h flags w = Some (rc, h', w')"
  shows "fwu_inv w'"
proof (cases "GET_SECURITY_STATE flags = NON_SECURE")
  case True
  with ex inv show ?thesis by (simp add: bl1_fwu_sec_image_done_def)
next
  case False
  with ex obtain i where i: "bl1_plat_get_image_desc w (fw_sec_exec_image_id w) = Some i"
    and ds: "fw_descs w' = (fw_descs w)[i := (fw_descs w ! i)\<lparr>id_state := IMAGE_STATE_RESET\<rparr>]"
    and fl: "w_flags w' = w_flags w" and se: "fw_sec_exec_image_id w' = INVALID_IMAGE_ID"
    and nx: "cpu_next (fw_cpu w') = NON_SECURE"
    and pt: "cpu_context_ptr (fw_cpu w') = cpu_context_ptr (fw_cpu w)"
    by (auto simp: bl1_fwu_sec_image_done_def Let_def bind_eq_Some_conv cm_op_defs cm_ctx_eq_Some)
  have mk: "marked w' = marked w"
    using fl by (simp add: marked_def fun_eq_iff)
  have "\<forall>d \<in> set (fw_descs w'). desc_ok w' d"
    using inv by (intro descs_ok_update [OF _ ds]) (auto simp: fwu_inv_def desc_ok_def mk)
  then show ?thesis
    using inv pt nx se by (simp add: fwu_inv_def)
qed

subsection \<open>Authentication by any verifier\<close>

text \<open>No operation changes the ids of the descriptors or the attributes of their entry points.\<close>

definition descs_sig :: "'p fwu_world \<Rightarrow> (u32 \<times> u32) list" where
  "descs_sig w = map (\<lambda>d. (id_image_id d, ep_attr (id_ep_info d))) (fw_descs w)"

lemma descs_sig_upd_desc:
  assumes "\<And>d. id_image_id (f d) = id_image_id d" "ep_attr (id_ep_info (f (fw_descs w ! i))) = ep_attr (id_ep_info (fw_descs w ! i))"
  shows "descs_sig (upd_desc i f w) = descs_sig w"
proof (cases "i < length (fw_descs w)")
  case True
  then show ?thesis
    using assms list_update_id [of "descs_sig w" i] by (simp add: descs_sig_def upd_desc_def map_update)
next
  case False
  then show ?thesis by (simp add: descs_sig_def upd_desc_def list_update_beyond)
qed

lemma descs_sig_simps [simp]:
  "descs_sig (w\<lparr>w_mem := m\<rparr>) = descs_sig w" "descs_sig (w\<lparr>fw_cpu := c\<rparr>) = descs_sig w"
  "descs_sig (w\<lparr>fw_sec_exec_image_id := n\<rparr>) = descs_sig w" "descs_sig (set_x0 s v w) = descs_sig w"
  "descs_sig (set_gpregs s vs w) = descs_sig w"
  by (simp_all add: descs_sig_def set_x0_def set_gpregs_def)

lemma image_copy_sig: "bl1_fwu_image_copy P i s b z flags w = Some (rc, w') \<Longrightarrow> descs_sig w' = descs_sig w"
  by (auto simp: bl1_fwu_image_copy_def fwu_copy_next_def fwu_copy_first_def Let_def bind_eq_Some_conv descs_sig_upd_desc
      split: option.splits if_splits)

lemma image_execute_sig: "bl1_fwu_image_execute i h flags w = Some (rc, h', w') \<Longrightarrow> descs_sig w' = descs_sig w"
  by (auto simp: bl1_fwu_image_execute_def bl1_prepare_next_image_def bl1_plat_set_ep_info_def Let_def bind_eq_Some_conv
      descs_sig_upd_desc split: option.splits if_splits)

lemma image_resume_sig: "bl1_fwu_image_resume x h flags w = Some (rc, h', w') \<Longrightarrow> descs_sig w' = descs_sig w"
  by (auto simp: bl1_fwu_image_resume_def Let_def bind_eq_Some_conv descs_sig_upd_desc split: option.splits if_splits)

lemma image_done_sig: "bl1_fwu_sec_image_done h flags w = Some (rc, h', w') \<Longrightarrow> descs_sig w' = descs_sig w"
  by (auto simp: bl1_fwu_sec_image_done_def Let_def bind_eq_Some_conv descs_sig_upd_desc split: option.splits if_splits)

text \<open>The secure images of the service are images that satisfy \<open>ok\<close>.\<close>

definition secure_ids_ok :: "(nat \<Rightarrow> bool) \<Rightarrow> 'p fwu_world \<Rightarrow> bool" where
  "secure_ids_ok ok w \<longleftrightarrow> (\<forall>d \<in> set (fw_descs w). desc_secure d \<longrightarrow> ok (unat (id_image_id d)))"

lemma secure_ids_ok_sig: "secure_ids_ok ok w \<longleftrightarrow>
    (\<forall>(n, attr) \<in> set (descs_sig w). GET_SECURITY_STATE attr = SECURE \<longrightarrow> ok (unat n))"
  by (auto simp: secure_ids_ok_def descs_sig_def desc_secure_def)

lemma secure_ids_ok_cong: "descs_sig w' = descs_sig w \<Longrightarrow> secure_ids_ok ok w' = secure_ids_ok ok w"
  by (simp add: secure_ids_ok_sig)

text \<open>
  The service needs of the authentication module only the laws of \<open>image_verifier\<close>, on the service's
  own state.
\<close>

locale fwu_verifier = image_verifier verify wf_env
  for verify :: "'e \<Rightarrow> nat \<Rightarrow> u64 \<Rightarrow> u32 \<Rightarrow> 'p fwu_world \<Rightarrow> (int \<times> 'p fwu_world) option"
    and wf_env :: "'e \<Rightarrow> nat \<Rightarrow> bool"
begin

lemma verify_frame:
  assumes "verify e i p n w = Some (rc, w')"
  shows "fw_descs w' = fw_descs w" "fw_sec_exec_image_id w' = fw_sec_exec_image_id w" "fw_cpu w' = fw_cpu w"
  using verify_more [OF assms] by (cases w; cases w'; simp)+

lemma auth_run_quiet:
  assumes run: "fwu_auth_run (verify e) i image_id base n w1 = Some (rc, w')"
    and wf: "desc_secure (fw_descs w ! i) \<Longrightarrow> wf_env e (unat image_id)" and i: "bl1_plat_get_image_desc w image_id = Some i"
    and st: "id_state (fw_descs w ! i) = IMAGE_STATE_COPIED \<or> id_state (fw_descs w ! i) = IMAGE_STATE_RESET"
    and w1: "w1 = w \<or> w1 = upd_desc i (\<lambda>d. d\<lparr>id_image_size := sz\<rparr>) w"
  shows "\<exists>d'. quiet_change w i d' w'"
proof -
  note len = get_image_desc_SomeD [OF i]
  let ?d1 = "fw_descs w1 ! i"
  have ds1: "fw_descs w1 = (fw_descs w)[i := ?d1]" "id_image_id ?d1 = image_id"
    "id_ep_info ?d1 = id_ep_info (fw_descs w ! i)" "id_state ?d1 = id_state (fw_descs w ! i)"
    "fw_cpu w1 = fw_cpu w" "fw_sec_exec_image_id w1 = fw_sec_exec_image_id w" "marked w1 = marked w"
    using w1 len by auto
  have l1: "length (fw_descs w1) = length (fw_descs w)"
    using w1 by auto
  have ow: "(fw_descs w1)[i := x] = (fw_descs w)[i := x]" for x
    using ds1(1) by (metis list_update_overwrite)
  from run obtain res w2 where v: "verify e (unat image_id) base n w1 = Some (res, w2)"
    by (auto simp: fwu_auth_run_def bind_eq_Some_conv)
  note fr = verify_frame [OF v]
  have keep: "marked w2 j" if "marked w j" for j
    using verify_keeps_marks [OF v] that ds1 by simp
  show ?thesis
  proof (cases "res = 0")
    case True
    have mk: "desc_secure ?d1 \<Longrightarrow> marked w2 (unat image_id)"
      using verify_marks [OF wf] v True ds1(3) by (simp add: desc_secure_def)
    have "quiet_change w i (?d1\<lparr>id_state := IMAGE_STATE_AUTHENTICATED\<rparr>) w'"
      using run v True fr len ds1(2-) st keep mk l1
      by (auto simp: fwu_auth_run_def quiet_change_def desc_ok_def ow desc_secure_def)
    then show ?thesis ..
  next
    case False
    have m0: "marked (w2\<lparr>w_mem := m\<rparr>) = marked w2" for m
      by (simp add: marked_def fun_eq_iff)
    have "quiet_change w i (if id_state ?d1 = IMAGE_STATE_COPIED then ?d1\<lparr>id_state := IMAGE_STATE_RESET\<rparr>
        else ?d1) w'"
      using run v False fr len ds1(2-) st keep l1
      by (auto simp: fwu_auth_run_def quiet_change_def desc_ok_def m0 ow split: if_splits
          intro: ds1(1))
    then show ?thesis ..
  qed
qed

lemma fwu_inv_auth:
  assumes au: "bl1_fwu_image_auth (verify e) P image_id src sz flags w = Some (rc, w')"
    and wf: "secure_ids_ok (wf_env e) w" and inv: "fwu_inv w"
  shows "fwu_inv w'"
proof (cases "w' = w")
  case False
  with au obtain i where i: "bl1_plat_get_image_desc w image_id = Some i"
    by (auto simp: bl1_fwu_image_auth_def split: option.splits)
  let ?d = "fw_descs w ! i"
  from au False i obtain base n w1 where
    run: "fwu_auth_run (verify e) i image_id base n w1 = Some (rc, w')"
    and w1: "w1 = w \<or> w1 = upd_desc i (\<lambda>d. d\<lparr>id_image_size := sz\<rparr>) w"
    and al: "fwu_auth_allowed flags ?d"
    by (auto simp: bl1_fwu_image_auth_def Let_def bind_eq_Some_conv split: if_splits)
  from al have "id_state ?d = IMAGE_STATE_COPIED \<or> id_state ?d = IMAGE_STATE_RESET"
    by (auto simp: fwu_auth_allowed_def split: if_splits)
  moreover have "wf_env e (unat image_id)" if "desc_secure ?d"
    using wf that get_image_desc_SomeD [OF i] by (auto simp: secure_ids_ok_def)
  ultimately show ?thesis
    using auth_run_quiet [OF run _ i _ w1] inv fwu_inv_quiet by blast
qed (use inv in simp)

lemma fwu_inv_smc:
  assumes sm: "bl1_fwu_smc_handler (verify e) P lhs fid x1 x2 x3 x4 h flags w = Some (h', w')"
    and ns: "GET_SECURITY_STATE flags = cpu_next (fw_cpu w)"
    and wf: "secure_ids_ok (wf_env e) w" and inv: "fwu_inv w"
  shows "fwu_inv w'"
proof -
  have copy: "fwu_inv v" if "bl1_fwu_image_copy P i s b z flags w = Some (rc, v)" for i s b z rc v
    using bl1_fwu_image_copy_quiet [OF that inv] inv fwu_inv_quiet by blast
  from sm show ?thesis
    by (auto simp: bl1_fwu_smc_handler_def smc_ret1_def bind_eq_Some_conv
        dest: copy fwu_inv_auth [OF _ wf inv] fwu_inv_execute [OF inv ns] fwu_inv_resume [OF inv ns]
          fwu_inv_done [OF inv ns]
        split: if_splits)
qed

lemma image_auth_sig:
  "bl1_fwu_image_auth (verify e) P i s z flags w = Some (rc, w') \<Longrightarrow> descs_sig w' = descs_sig w"
proof -
  have v: "descs_sig w' = descs_sig w" if "verify e j p n w = Some (rc, w')" for j p n w rc w'
    using verify_frame(1) [OF that] by (simp add: descs_sig_def)
  have "descs_sig w' = descs_sig w" if "fwu_auth_run (verify e) j i b n w = Some (rc, w')" for j b n w rc w'
    using that by (auto simp: fwu_auth_run_def bind_eq_Some_conv descs_sig_upd_desc dest: v split: if_splits)
  then show "bl1_fwu_image_auth (verify e) P i s z flags w = Some (rc, w') \<Longrightarrow> descs_sig w' = descs_sig w"
    by (fastforce simp: bl1_fwu_image_auth_def Let_def bind_eq_Some_conv descs_sig_upd_desc split: option.splits if_splits)
qed

lemma fwu_step_sig:
  assumes "fwu_step (verify e) P w w'"
  shows "descs_sig w' = descs_sig w"
  using assms
proof cases
  case (smc flags lhs_first uid fid x1 x2 x3 x4 h)
  then show ?thesis
    by (auto simp: bl1_smc_handler_def bl1_fwu_smc_handler_def smc_ret1_def bind_eq_Some_conv
        dest: image_copy_sig image_auth_sig image_execute_sig image_resume_sig image_done_sig split: if_splits)
next
  case (run m r ctx)
  then show ?thesis by (simp add: descs_sig_def)
qed

lemma fwu_step_inv:
  assumes wf: "secure_ids_ok (wf_env e) w" and inv: "fwu_inv w" and step: "fwu_step (verify e) P w w'"
  shows "fwu_inv w'"
  using step
proof cases
  case (smc flags lhs_first uid fid x1 x2 x3 x4 h)
  show ?thesis
  proof (cases "is_fwu_fid fid")
    case True
    with smc inv wf show ?thesis
      by (auto simp: bl1_smc_handler_def intro: fwu_inv_smc)
  next
    case False
    with smc inv show ?thesis
      by (auto simp: bl1_smc_handler_def split: if_splits)
  qed
next
  case (run m r ctx)
  have "fwu_inv w' = fwu_inv w"
    by (rule fwu_inv_cong) (simp_all add: run)
  with inv show ?thesis by simp
qed

end

lemma fwu_init_inv: "fwu_init w \<Longrightarrow> fwu_inv w"
  by (auto simp: fwu_init_def fwu_inv_def desc_ok_def)

interpretation fv: fwu_verifier auth_mod_verify_img own_id
  by unfold_locales

interpretation fwu_machine: state_machine
  "\<lambda>w. secure_ids_ok (own_id e) w \<and> fwu_init w" "fwu_step (auth_mod_verify_img e) P"
  "\<lambda>w. secure_ids_ok (own_id e) w \<and> fwu_inv w"
  for e :: "'p auth_env" and P
  by unfold_locales (auto intro: fwu_init_inv fv.fwu_step_inv simp: secure_ids_ok_cong [OF fv.fwu_step_sig])

subsection \<open>The calls never stop the firmware\<close>



lemma resume_not_None:
  assumes "fwu_inv w" and "GET_SECURITY_STATE flags = cpu_next (fw_cpu w)"
  shows "bl1_fwu_image_resume x h flags w \<noteq> None"
  using assms GET_SECURITY_STATE_cases [of flags]
  by (auto simp: bl1_fwu_image_resume_def fwu_inv_def sec_image_def desc_secure_def desc_executable_def
      cm_op_defs cm_ctx_def cm_get_context_def Let_def split: option.splits)

lemma done_not_None:
  assumes "fwu_inv w" and "GET_SECURITY_STATE flags = cpu_next (fw_cpu w)"
  shows "bl1_fwu_sec_image_done h flags w \<noteq> None"
  using assms GET_SECURITY_STATE_cases [of flags]
  by (auto simp: bl1_fwu_sec_image_done_def fwu_inv_def sec_image_def desc_secure_def desc_executable_def
      cm_op_defs cm_ctx_def cm_get_context_def Let_def)




subsection \<open>Where copying writes\<close>

lemma block_in_window:
  fixes base :: u64 and copied blk sz :: u32
  assumes a: "in_range (base + ucast copied) (ucast blk) a" and "unat copied + unat blk \<le> unat sz"
  shows "in_range base (ucast sz) a"
proof -
  have u: "unat (ucast x :: u64) = unat x" for x :: u32
    using unsigned_less [of x, where ?'a = nat] by (simp add: unsigned_ucast_eq take_bit_nat_eq_self)
  let ?k = "a - (base + ucast copied)"
  from a have "unat ?k < unat blk"
    by (simp add: in_range_def word_less_nat_alt u)
  moreover have "a - base = ucast copied + ?k" by simp
  moreover have "unat sz < 2 ^ 32" using unsigned_less [of sz, where ?'a = nat] by simp
  ultimately have "unat (a - base) < unat sz"
    using assms(2) by (simp only: unat_word_ariths u) simp
  then show ?thesis by (simp add: in_range_def word_less_nat_alt u)
qed

section \<open>A concrete update\<close>

text \<open>
  The raw image 1 of the concrete chain of trust, as a secure executable image of the update service
  that is loaded to \<open>0x2000\<close>; the normal world's memory starts at \<open>0x80000000\<close>.
\<close>

definition demo_fwu_plat :: fwu_plat where
  "demo_fwu_plat =
     \<lparr>fp_addr_map_secure = [], fp_addr_map_non_secure = [(0x80000000, 0xFFFFFFFF), (0, 0)],
      fp_free_base = 0x2000, fp_free_size = 0x100\<rparr>"

definition demo_desc :: image_desc where
  "demo_desc =
     \<lparr>id_image_id = 1, id_state = IMAGE_STATE_RESET, id_copied_size = 0, id_image_base = 0x2000,
      id_image_size = 0,
      id_ep_info = \<lparr>ep_attr = 8, ep_pc = 0x2000, ep_spsr = 0, ep_args = replicate 8 0\<rparr>\<rparr>"

definition demo_end_desc :: image_desc where
  "demo_end_desc = demo_desc\<lparr>id_image_id := INVALID_IMAGE_ID\<rparr>"

definition demo_cpu :: cpu_state where
  "demo_cpu =
     \<lparr>cpu_scr_el3 = 0, cpu_el1 = (\<lambda>_. 3),
      cpu_el2 = \<lparr>r_sctlr_el2 = 0, r_hcr_el2 = 0, r_cptr_el2 = 0, r_cnthctl_el2 = 0, r_cntvoff_el2 = 0,
                 r_vpidr_el2 = 0, r_vmpidr_el2 = 0, r_vttbr_el2 = 0\<rparr>,
      cpu_id_aa64pfr0 = 0, cpu_midr = 0, cpu_mpidr = 0, cpu_context = (\<lambda>_. zero_context),
      cpu_context_ptr = (\<lambda>s. s = NON_SECURE), cpu_next = NON_SECURE\<rparr>"

definition demo_fwu :: "image_state \<Rightarrow> u32 \<Rightarrow> u32 \<Rightarrow> mem \<Rightarrow> u32 list \<Rightarrow> u32 fwu_world" where
  "demo_fwu st copied sz m fl =
     \<lparr>w_mem = m, w_flags = fl, w_plat = 7,
      fw_descs = [demo_desc\<lparr>id_state := st, id_copied_size := copied, id_image_size := sz\<rparr>, demo_end_desc],
      fw_sec_exec_image_id = INVALID_IMAGE_ID, fw_cpu = demo_cpu\<rparr>"

definition demo_fwu_mem :: mem where
  "demo_fwu_mem = (w_mem demo_world1)(0x80000000 := 0x55, 0x800000FC := 1)"

lemmas demo_fwu_defs = demo_fwu_plat_def demo_desc_def demo_end_desc_def demo_cpu_def demo_fwu_def
  demo_fwu_mem_def

lemmas fwu_eval = bl1_plat_get_image_desc_def INVALID_IMAGE_ID_def bl1_fwu_image_copy_def
  fwu_copy_first_def fwu_copy_next_def bl1_plat_mem_check_def GET_SECURITY_STATE_def SECURE_def
  NON_SECURE_def upd_desc_def

lemma demo_get_desc [simp]: "bl1_plat_get_image_desc (demo_fwu st c s m fl) 1 = Some 0"
  by (simp add: demo_fwu_defs fwu_eval)

lemma demo_fwu_init: "fwu_init (demo_fwu IMAGE_STATE_RESET c s m fl)"
  by (simp add: fwu_init_def demo_fwu_defs)

lemma demo_copy_all:
  "bl1_fwu_image_copy demo_fwu_plat 1 0x80000000 4 4 1 (demo_fwu IMAGE_STATE_RESET 0 0 m fl) =
     Some (0, demo_fwu IMAGE_STATE_COPIED 4 4 (memcpy m 0x2000 0x80000000 4) fl)"
  by (simp add: demo_fwu_defs fwu_eval)

lemma demo_copy_part:
  "bl1_fwu_image_copy demo_fwu_plat 1 0x80000000 4 8 1 (demo_fwu IMAGE_STATE_RESET 0 0 m fl) =
     Some (0, demo_fwu IMAGE_STATE_COPYING 4 8 (memcpy m 0x2000 0x80000000 4) fl)"
  by (simp add: demo_fwu_defs fwu_eval)

lemma demo_copy_wraps:
  "bl1_fwu_image_copy demo_fwu_plat 1 0x80000000 0xFFFFFFFC 8 1 (demo_fwu IMAGE_STATE_COPYING 4 8 m fl) =
     Some (0, demo_fwu IMAGE_STATE_COPYING 0 8 (memcpy m 0x2004 0x80000000 0xFFFFFFFC) fl)"
  by (simp add: demo_fwu_defs fwu_eval)

lemma demo_verify:
  "auth_mod_verify_img demo_env 1 0x2000 4 (demo_fwu IMAGE_STATE_COPIED 4 4 (memcpy demo_fwu_mem 0x2000 0x80000000 4) [1, 0]) =
     Some (0, demo_fwu IMAGE_STATE_COPIED 4 4 (memcpy demo_fwu_mem 0x2000 0x80000000 4) [1, 1])"
  by (simp add: demo_fwu_defs demo_defs auth_eval demo_world1_def memcpy_def in_range_def)

lemma demo_auth:
  "bl1_fwu_image_auth (auth_mod_verify_img demo_env) demo_fwu_plat 1 0 0 1
     (demo_fwu IMAGE_STATE_COPIED 4 4 (memcpy demo_fwu_mem 0x2000 0x80000000 4) [1, 0]) =
   Some (0, demo_fwu IMAGE_STATE_AUTHENTICATED 4 4 (memcpy demo_fwu_mem 0x2000 0x80000000 4) [1, 1])"
  using demo_verify
  by (simp add: bl1_fwu_image_auth_def fwu_auth_allowed_def fwu_auth_run_def demo_fwu_defs fwu_eval)

lemma demo_fwu_cpu [simp]: "fw_cpu (demo_fwu st c s m fl) = demo_cpu" "cpu_next demo_cpu = NON_SECURE"
  "w_mem (demo_fwu st c s m fl) = m" "w_flags (demo_fwu st c s m fl) = fl"
  by (simp_all add: demo_fwu_def demo_cpu_def)

lemma demo_run_back:
  "fwu_step V P (set_x0 NON_SECURE v (demo_fwu st c s m fl)) (demo_fwu st c s m fl)"
  using fwu_step.run [of V P "set_x0 NON_SECURE v (demo_fwu st c s m fl)",
      where m = m and r = "\<lambda>_. 3" and ctx = zero_context]
  by (simp add: set_x0_def demo_fwu_def demo_cpu_def cm_put_ctx_def fun_upd_def if_distrib cong: if_cong)

lemma demo_smc:
  assumes "bl1_fwu_smc_handler V P False fid x1 x2 x3 x4 NON_SECURE 1 (demo_fwu st c s m fl) =
      Some (NON_SECURE, set_x0 NON_SECURE v (demo_fwu st' c' s' m' fl'))" and "is_fwu_fid fid"
  shows "(fwu_step V P)\<^sup>*\<^sup>* (demo_fwu st c s m fl) (demo_fwu st' c' s' m' fl')"
proof -
  have "GET_SECURITY_STATE 1 = NON_SECURE"
    by (simp add: GET_SECURITY_STATE_def NON_SECURE_def)
  then have "fwu_step V P (demo_fwu st c s m fl) (set_x0 NON_SECURE v (demo_fwu st' c' s' m' fl'))"
    using assms by (intro fwu_step.smc [where flags = 1 and lhs_first = False and fid = fid])
      (auto simp: bl1_smc_handler_def)
  with demo_run_back show ?thesis
    by (meson rtranclp.rtrancl_into_rtrancl rtranclp.rtrancl_refl)
qed

lemma demo_reach_copied:
  "(fwu_step V demo_fwu_plat)\<^sup>*\<^sup>* (demo_fwu IMAGE_STATE_RESET 0 0 m fl)
     (demo_fwu IMAGE_STATE_COPIED 4 4 (memcpy m 0x2000 0x80000000 4) fl)"
  by (rule demo_smc [of _ _ FWU_SMC_IMAGE_COPY 1 "0x80000000" 4 4, where v = 0])
    (simp_all add: bl1_fwu_smc_handler_def demo_copy_all smc_ret1_def is_fwu_fid_def fwu_fids)

lemma demo_reach_copying:
  "(fwu_step V demo_fwu_plat)\<^sup>*\<^sup>* (demo_fwu IMAGE_STATE_RESET 0 0 m fl)
     (demo_fwu IMAGE_STATE_COPYING 4 8 (memcpy m 0x2000 0x80000000 4) fl)"
  by (rule demo_smc [of _ _ FWU_SMC_IMAGE_COPY 1 "0x80000000" 4 8, where v = 0])
    (simp_all add: bl1_fwu_smc_handler_def demo_copy_part smc_ret1_def is_fwu_fid_def fwu_fids)

lemma demo_reach_authenticated:
  "(fwu_step (auth_mod_verify_img demo_env) demo_fwu_plat)\<^sup>*\<^sup>*
     (demo_fwu IMAGE_STATE_RESET 0 0 demo_fwu_mem [1, 0])
     (demo_fwu IMAGE_STATE_AUTHENTICATED 4 4 (memcpy demo_fwu_mem 0x2000 0x80000000 4) [1, 1])"
proof -
  have "(fwu_step (auth_mod_verify_img demo_env) demo_fwu_plat)\<^sup>*\<^sup>*
     (demo_fwu IMAGE_STATE_COPIED 4 4 (memcpy demo_fwu_mem 0x2000 0x80000000 4) [1, 0])
     (demo_fwu IMAGE_STATE_AUTHENTICATED 4 4 (memcpy demo_fwu_mem 0x2000 0x80000000 4) [1, 1])"
    by (rule demo_smc [of _ _ FWU_SMC_IMAGE_AUTH 1 0 0 0, where v = 0])
      (simp_all add: bl1_fwu_smc_handler_def demo_auth smc_ret1_def is_fwu_fid_def fwu_fids)
  with demo_reach_copied show ?thesis by (rule rtranclp_trans)
qed

section \<open>Properties\<close>

lemma secure_ids_ok_demo: "secure_ids_ok (own_id demo_env) w"
  by (simp add: secure_ids_ok_def own_id_demo)

text \<open>
  C1. In every state the update service can reach from its start, by any sequence of SMCs of either
  world and anything the worlds do in between, every secure image that is authenticated, under
  execution or interrupted carries the authentication module's mark.
\<close>

theorem fwu_only_authenticated:
  assumes "secure_ids_ok (own_id e) w" and "fwu_init w" and "(fwu_step (auth_mod_verify_img e) P)\<^sup>*\<^sup>* w w'"
    and "d \<in> set (fw_descs w')" and "desc_secure d"
    and "id_state d \<in> {IMAGE_STATE_AUTHENTICATED, IMAGE_STATE_EXECUTED, IMAGE_STATE_INTERRUPTED}"
  shows "marked w' (unat (id_image_id d))"
  using fwu_machine.reachable_inv [OF conjI [OF assms(1,2)] assms(3)] assms(4-)
  by (auto simp: fwu_inv_def desc_ok_def)

theorem fwu_only_authenticated_witness:
  "marked (demo_fwu IMAGE_STATE_AUTHENTICATED 4 4 (memcpy demo_fwu_mem 0x2000 0x80000000 4) [1, 1]) 1"
  using fwu_only_authenticated [OF secure_ids_ok_demo demo_fwu_init demo_reach_authenticated,
      of "demo_desc\<lparr>id_state := IMAGE_STATE_AUTHENTICATED, id_copied_size := 4, id_image_size := 4\<rparr>"]
  by (simp add: demo_fwu_def demo_desc_def desc_secure_def GET_SECURITY_STATE_def SECURE_def)



text \<open>
  C7. A successful copy writes only inside the window of the image (its base and its size), and
  never counts more bytes than the image has, provided that the bytes copied so far and the block do
  not add up to \<open>2^32\<close> or more.
\<close>

theorem bl1_fwu_image_copy_confined:
  assumes "fwu_inv w" and "bl1_fwu_image_copy P image_id src blk sz flags w = Some (0, w')"
    and "bl1_plat_get_image_desc w image_id = Some i"
    and "unat (id_copied_size (fw_descs w ! i)) + unat blk < 2 ^ 32"
    and "w_mem w' a \<noteq> w_mem w a"
  shows "in_range (id_image_base (fw_descs w ! i)) (ucast (id_image_size (fw_descs w' ! i))) a \<and>
    id_copied_size (fw_descs w' ! i) \<le> id_image_size (fw_descs w' ! i)"
proof -
  let ?d = "fw_descs w ! i"
  note len = get_image_desc_SomeD [OF assms(3)]
  have sum: "unat (id_copied_size ?d + blk) = unat (id_copied_size ?d) + unat blk"
    using assms(4) by (simp add: unat_word_ariths)
  from assms(2,3) consider
    (copying) "id_state ?d = IMAGE_STATE_COPYING" "fwu_copy_next P i src blk flags w = Some (0, w')"
  | (reset) "id_state ?d = IMAGE_STATE_RESET" "fwu_copy_first P i src blk sz flags w = Some (0, w')"
    by (auto simp: bl1_fwu_image_copy_def Let_def errno_defs split: if_splits)
  then show ?thesis
  proof cases
    case copying
    from assms(1) len copying(1) have less: "id_copied_size ?d < id_image_size ?d"
      unfolding fwu_inv_def desc_ok_def using nth_mem by blast
    define b where "b = (if id_copied_size ?d + blk > id_image_size ?d
                         then id_image_size ?d - id_copied_size ?d else blk)"
    have b: "unat (id_copied_size ?d) + unat b \<le> unat (id_image_size ?d)"
      using less sum unfolding b_def
      by (auto simp: word_less_nat_alt word_le_nat_alt not_less unat_sub_if')
    then have b': "id_copied_size ?d + b \<le> id_image_size ?d"
      using unsigned_less [of "id_image_size ?d", where ?'a = nat]
      by (simp add: word_le_nat_alt unat_word_ariths)
    from copying(2) len have m: "w_mem w' = memcpy (w_mem w) (id_image_base ?d + ucast (id_copied_size ?d)) src (ucast b)"
      and d': "id_image_size (fw_descs w' ! i) = id_image_size ?d" "id_copied_size (fw_descs w' ! i) = id_copied_size ?d + b"
      by (auto simp: fwu_copy_next_def Let_def errno_defs b_def [symmetric] split: Option.bind_splits if_splits)
    from m assms(5) have "in_range (id_image_base ?d + ucast (id_copied_size ?d)) (ucast b) a"
      using memcpy_outside by metis
    from block_in_window [OF this b] b' d' show ?thesis by simp
  next
    case reset
    let ?b = "if blk > sz then sz else blk"
    from reset(2) len have m: "w_mem w' = memcpy (w_mem w) (id_image_base ?d) src (ucast ?b)"
      and d': "id_image_size (fw_descs w' ! i) = sz" "id_copied_size (fw_descs w' ! i) = ?b"
      by (auto simp: fwu_copy_first_def Let_def errno_defs split: Option.bind_splits if_splits)
    from m assms(5) have "in_range (id_image_base ?d) (ucast ?b) a"
      using memcpy_outside by metis
    then show ?thesis
      using in_range_mono [OF _ ucast_le_ucast] d' by (auto simp: not_less split: if_splits)
  qed
qed


theorem bl1_fwu_image_copy_confined_witness:
  "let m = (\<lambda>_. 0)(0x80000001 := 9) in
   bl1_fwu_image_copy demo_fwu_plat 1 0x80000000 4 4 1 (demo_fwu IMAGE_STATE_RESET 0 0 m []) =
     Some (0, demo_fwu IMAGE_STATE_COPIED 4 4 (memcpy m 0x2000 0x80000000 4) []) \<and>
   memcpy m 0x2000 0x80000000 4 0x2001 \<noteq> m 0x2001 \<and> in_range 0x2000 4 0x2001"
proof -
  let ?m = "(\<lambda>_. 0)(0x80000001 := 9) :: mem"
  have cp: "bl1_fwu_image_copy demo_fwu_plat 1 0x80000000 4 4 1 (demo_fwu IMAGE_STATE_RESET 0 0 ?m []) =
      Some (0, demo_fwu IMAGE_STATE_COPIED 4 4 (memcpy ?m 0x2000 0x80000000 4) [])"
    by (rule demo_copy_all)
  have inv: "fwu_inv (demo_fwu IMAGE_STATE_RESET 0 0 ?m [])"
    by (rule fwu_init_inv [OF demo_fwu_init])
  have "memcpy ?m 0x2000 0x80000000 4 0x2001 \<noteq> ?m 0x2001"
    by (simp add: memcpy_def in_range_def)
  with bl1_fwu_image_copy_confined [OF inv cp demo_get_desc, of "0x2001"] cp show ?thesis
    unfolding Let_def by (simp add: demo_fwu_def demo_desc_def)
qed

text \<open>
  C8. Without that proviso the claim fails: from the start of the service the normal world can reach
  a state with an image under copy from which one more successful copy call, whose 32-bit sum wraps
  around, overwrites memory outside the window of the image and outside the free trusted RAM.
\<close>

theorem bl1_fwu_image_copy_wraps:
  "\<exists>(w0 :: u32 fwu_world) w w' a.
     fwu_init w0 \<and> (fwu_step (auth_mod_verify_img demo_env) demo_fwu_plat)\<^sup>*\<^sup>* w0 w \<and>
     bl1_plat_get_image_desc w 1 = Some 0 \<and>
     bl1_fwu_image_copy demo_fwu_plat 1 0x80000000 0xFFFFFFFC 8 1 w = Some (0, w') \<and>
     w_mem w' a \<noteq> w_mem w a \<and>
     \<not> in_range (id_image_base (fw_descs w ! 0)) (ucast (id_image_size (fw_descs w ! 0))) a \<and>
     \<not> in_range (fp_free_base demo_fwu_plat) (fp_free_size demo_fwu_plat) a"
proof (intro exI conjI)
  let ?m = "memcpy demo_fwu_mem 0x2000 0x80000000 4"
  let ?w = "demo_fwu IMAGE_STATE_COPYING 4 8 ?m [1, 0]"
  show "fwu_init (demo_fwu IMAGE_STATE_RESET 0 0 demo_fwu_mem [1, 0])"
    by (rule demo_fwu_init)
  show "(fwu_step (auth_mod_verify_img demo_env) demo_fwu_plat)\<^sup>*\<^sup>*
      (demo_fwu IMAGE_STATE_RESET 0 0 demo_fwu_mem [1, 0]) ?w"
    by (rule demo_reach_copying)
  show "bl1_fwu_image_copy demo_fwu_plat 1 0x80000000 0xFFFFFFFC 8 1 ?w =
      Some (0, demo_fwu IMAGE_STATE_COPYING 0 8 (memcpy ?m 0x2004 0x80000000 0xFFFFFFFC) [1, 0])"
    by (rule demo_copy_wraps)
  show "w_mem (demo_fwu IMAGE_STATE_COPYING 0 8 (memcpy ?m 0x2004 0x80000000 0xFFFFFFFC) [1, 0]) 0x2100
      \<noteq> w_mem ?w 0x2100"
    by (simp add: memcpy_def in_range_def demo_fwu_mem_def demo_world1_def demo_mem_def)
qed (simp_all add: in_range_def demo_fwu_plat_def demo_fwu_def demo_desc_def bl1_plat_get_image_desc_def
    INVALID_IMAGE_ID_def)

text \<open>
  C9. When the authentication of a copied secure image fails, the service answers with the error,
  erases every byte of the image, puts it back to the reset state and no mark changes.
\<close>

theorem bl1_fwu_image_auth_failure_erases:
  assumes "bl1_plat_get_image_desc w image_id = Some i"
    and "GET_SECURITY_STATE flags = NON_SECURE" and "desc_secure (fw_descs w ! i)"
    and "id_state (fw_descs w ! i) = IMAGE_STATE_COPIED"
    and "auth_mod_verify_img e (unat image_id) (id_image_base (fw_descs w ! i)) (id_image_size (fw_descs w ! i)) w
         = Some (res, w1)" and "res \<noteq> 0"
  shows "\<exists>w'. bl1_fwu_image_auth (auth_mod_verify_img e) P image_id src sz flags w = Some (- EAUTH, w') \<and>
    id_state (fw_descs w' ! i) = IMAGE_STATE_RESET \<and> w_flags w' = w_flags w \<and>
    (\<forall>a. in_range (id_image_base (fw_descs w ! i)) (ucast (id_image_size (fw_descs w ! i))) a \<longrightarrow> w_mem w' a = 0)"
  using assms get_image_desc_SomeD [OF assms(1)] fv.verify_frame [OF assms(5)] av.verify_failure [OF assms(5,6)]
  by (auto simp: bl1_fwu_image_auth_def fwu_auth_allowed_def fwu_auth_run_def desc_secure_def memset_inside Let_def)

theorem bl1_fwu_image_auth_failure_erases_witness:
  "\<exists>w'. bl1_fwu_image_auth (auth_mod_verify_img demo_env) demo_fwu_plat 1 0 0 1
       (demo_fwu IMAGE_STATE_COPIED 4 4 ((\<lambda>_. 0)(0x100 := 1, 0x2001 := 2)) [1, 0]) = Some (- EAUTH, w') \<and>
     w_mem w' 0x2001 = 0"
proof -
  have v: "auth_mod_verify_img demo_env 1 0x2000 4 (demo_fwu IMAGE_STATE_COPIED 4 4 ((\<lambda>_. 0)(0x100 := 1, 0x2001 := 2)) [1, 0])
      = Some (1, demo_fwu IMAGE_STATE_COPIED 4 4 ((\<lambda>_. 0)(0x100 := 1, 0x2001 := 2)) [1, 0])"
    by (simp add: demo_fwu_defs demo_defs auth_eval)
  have "in_range 0x2000 4 0x2001" by (simp add: in_range_def)
  with v bl1_fwu_image_auth_failure_erases [OF demo_get_desc, of 1 IMAGE_STATE_COPIED 4 4
      "(\<lambda>_. 0)(0x100 := 1, 0x2001 := 2)" "[1, 0]" demo_env 1 _ demo_fwu_plat 0 0]
  show ?thesis
    by (auto simp: demo_fwu_def demo_desc_def desc_secure_def GET_SECURITY_STATE_def SECURE_def NON_SECURE_def)
qed

text \<open>
  C10. World isolation of an execution: after a secure image is started, whatever it does to memory,
  to the EL1 registers and to its own context, its final call brings back exactly the EL1 registers
  that the normal world had when it started the image, and the service is idle again.
\<close>

theorem fwu_execute_done_restores:
  assumes "fwu_inv w" and "cpu_next (fw_cpu w) = NON_SECURE" and "GET_SECURITY_STATE flags = NON_SECURE"
    and "bl1_fwu_image_execute image_id NON_SECURE flags w = Some (0, h, w1)"
    and "w2 = w1\<lparr>w_mem := m, fw_cpu := (fw_cpu w1)\<lparr>cpu_el1 := r,
                  cpu_context := (cpu_context (fw_cpu w1))(SECURE := ctx)\<rparr>\<rparr>"
    and "GET_SECURITY_STATE flags' = SECURE"
  shows "\<exists>w3. bl1_fwu_sec_image_done SECURE flags' w2 = Some (0, NON_SECURE, w3) \<and>
    cpu_el1 (fw_cpu w3) = cpu_el1 (fw_cpu w) \<and> cpu_next (fw_cpu w3) = NON_SECURE \<and>
    fw_sec_exec_image_id w3 = INVALID_IMAGE_ID"
proof -
  have ns: "GET_SECURITY_STATE flags = cpu_next (fw_cpu w)" using assms(2,3) by simp
  have inv1: "fwu_inv w1" by (rule fwu_inv_execute [OF assms(1) ns assms(4)])
  have inv2: "fwu_inv w2"
    using inv1 fwu_inv_cong [of w2 w1] assms(5) by simp
  from assms(4) obtain i cpu w1' where st: "bl1_plat_get_image_desc w image_id = Some i"
    "desc_secure (fw_descs w ! i)" "cm_el1_sysregs_context_save (fw_cpu w) NON_SECURE = Some cpu"
    "bl1_prepare_next_image image_id (w\<lparr>fw_cpu := cpu\<rparr>) = Some w1'"
    "w1 = w1'\<lparr>fw_sec_exec_image_id := image_id\<rparr>"
    by (elim bl1_fwu_image_execute_cases) (auto simp: errno_defs)
  have look: "bl1_plat_get_image_desc (w\<lparr>fw_cpu := cpu\<rparr>) image_id = Some i"
    using st(1) by (simp add: bl1_plat_get_image_desc_def)
  from st(4) have nx: "cpu_next (fw_cpu w1') = SECURE"
    using st(2) look by (elim bl1_prepare_next_image_SomeD) (simp add: desc_secure_def)
  have cx: "cpu_context (fw_cpu w1') NON_SECURE = cpu_context cpu NON_SECURE"
    using st(4)
  proof (rule bl1_prepare_next_image_SomeD)
    fix j ep
    assume *: "bl1_plat_get_image_desc (w\<lparr>fw_cpu := cpu\<rparr>) image_id = Some j"
      "ep_attr ep = ep_attr (id_ep_info (fw_descs (w\<lparr>fw_cpu := cpu\<rparr>) ! j))"
      and u: "cpu_context (fw_cpu w1') = (cpu_context (fw_cpu (w\<lparr>fw_cpu := cpu\<rparr>)))(GET_SECURITY_STATE (ep_attr ep) :=
        cpu_context (fw_cpu w1') (GET_SECURITY_STATE (ep_attr ep)))"
    have "GET_SECURITY_STATE (ep_attr ep) = SECURE"
      using * look st(2) by (simp add: desc_secure_def)
    then show ?thesis by (subst u) simp
  qed
  have sec: "GET_SECURITY_STATE flags' = cpu_next (fw_cpu w2)"
    using assms(5,6) nx st(5) by simp
  obtain rc h3 w3 where dn: "bl1_fwu_sec_image_done SECURE flags' w2 = Some (rc, h3, w3)"
    using done_not_None [OF inv2 sec, of SECURE] by auto
  have "cpu_el1 (fw_cpu w3) = cc_sysregs (cpu_context (fw_cpu w2) NON_SECURE)"
    "rc = 0" "h3 = NON_SECURE" "cpu_next (fw_cpu w3) = NON_SECURE" "fw_sec_exec_image_id w3 = INVALID_IMAGE_ID"
    using dn assms(6) by (auto simp: bl1_fwu_sec_image_done_def Let_def bind_eq_Some_conv cm_op_defs cm_ctx_eq_Some)
  moreover have "cc_sysregs (cpu_context (fw_cpu w2) NON_SECURE) = cpu_el1 (fw_cpu w)"
    using assms(5) st(3,5) cx by (auto simp: cm_op_defs cm_ctx_eq_Some bind_eq_Some_conv)
  ultimately show ?thesis using dn by simp
qed

text \<open>
  C11. World isolation of an interruption: when the secure image hands over to the normal world and the
  normal world, after any work of its own, resumes it, the secure image finds its EL1 registers as
  it left them, and it is again the image under execution.
\<close>

theorem fwu_resume_resume_restores:
  assumes "fwu_inv w" and "cpu_next (fw_cpu w) = SECURE" and "GET_SECURITY_STATE flags = SECURE"
    and "bl1_fwu_image_resume x SECURE flags w = Some (v, h, w1)"
    and "w2 = w1\<lparr>w_mem := m, fw_cpu := (fw_cpu w1)\<lparr>cpu_el1 := r,
                  cpu_context := (cpu_context (fw_cpu w1))(NON_SECURE := ctx)\<rparr>\<rparr>"
    and "GET_SECURITY_STATE flags' = NON_SECURE"
  shows "\<exists>w3. bl1_fwu_image_resume x' NON_SECURE flags' w2 = Some (x', SECURE, w3) \<and>
    cpu_el1 (fw_cpu w3) = cpu_el1 (fw_cpu w) \<and> cpu_next (fw_cpu w3) = SECURE \<and>
    fw_descs w3 = fw_descs w \<and> h = NON_SECURE \<and> v = x"
proof -
  have ns: "GET_SECURITY_STATE flags = cpu_next (fw_cpu w)" using assms(2,3) by simp
  have inv1: "fwu_inv w1" by (rule fwu_inv_resume [OF assms(1) ns assms(4)])
  have inv2: "fwu_inv w2"
    using inv1 fwu_inv_cong [of w2 w1] assms(5) by simp
  from assms(1,2) obtain i where i: "bl1_plat_get_image_desc w (fw_sec_exec_image_id w) = Some i"
    and ex: "id_state (fw_descs w ! i) = IMAGE_STATE_EXECUTED"
    by (auto simp: fwu_inv_def sec_image_def)
  note len = get_image_desc_SomeD [OF i]
  from assms(3,4) i have w1: "h = NON_SECURE" "v = x" "cpu_next (fw_cpu w1) = NON_SECURE"
    "fw_descs w1 = (fw_descs w)[i := (fw_descs w ! i)\<lparr>id_state := IMAGE_STATE_INTERRUPTED\<rparr>]"
    "fw_sec_exec_image_id w1 = fw_sec_exec_image_id w"
    "cc_sysregs (cpu_context (fw_cpu w1) SECURE) = cpu_el1 (fw_cpu w)"
    by (auto simp: bl1_fwu_image_resume_def Let_def bind_eq_Some_conv cm_op_defs cm_ctx_eq_Some)
  have look: "bl1_plat_get_image_desc w2 (fw_sec_exec_image_id w2) = Some i"
  proof -
    have "bl1_plat_get_image_desc w2 = bl1_plat_get_image_desc w1"
      by (simp add: fun_eq_iff bl1_plat_get_image_desc_def assms(5))
    with get_image_desc_update [OF w1(4)] i w1(5) assms(5) show ?thesis by simp
  qed
  have ns2: "GET_SECURITY_STATE flags' = cpu_next (fw_cpu w2)"
    using assms(5,6) w1(3) by simp
  obtain v3 h3 w3 where rs: "bl1_fwu_image_resume x' NON_SECURE flags' w2 = Some (v3, h3, w3)"
    using resume_not_None [OF inv2 ns2, of x' NON_SECURE] by auto
  with look assms(6) have "v3 = x'" "h3 = SECURE" "cpu_next (fw_cpu w3) = SECURE"
    "fw_descs w3 = (fw_descs w2)[i := (fw_descs w2 ! i)\<lparr>id_state := IMAGE_STATE_EXECUTED\<rparr>]"
    "cpu_el1 (fw_cpu w3) = cc_sysregs (cpu_context (fw_cpu w2) SECURE)"
    by (auto simp: bl1_fwu_image_resume_def Let_def bind_eq_Some_conv cm_op_defs cm_ctx_eq_Some)
  moreover have "(fw_descs w2)[i := (fw_descs w2 ! i)\<lparr>id_state := IMAGE_STATE_EXECUTED\<rparr>] = fw_descs w"
    using assms(5) w1(4) len ex by (simp add: list_update_same_conv)
  ultimately show ?thesis
    using rs w1(1,2,6) assms(5) by simp
qed

section \<open>Witnesses of the world switches\<close>

definition demo_ready :: "u32 fwu_world" where
  "demo_ready = demo_fwu IMAGE_STATE_AUTHENTICATED 4 4 (\<lambda>_. 0) [1, 1]"

lemma demo_ready_inv: "fwu_inv demo_ready"
  by (simp add: demo_ready_def fwu_inv_def desc_ok_def demo_fwu_defs fwu_eval marked_def
      IMG_FLAG_AUTHENTICATED_def sec_state_is_valid_def desc_secure_def)

lemma demo_executes:
  "\<exists>w1. bl1_fwu_image_execute 1 NON_SECURE 1 demo_ready = Some (0, SECURE, w1) \<and> cpu_next (fw_cpu w1) = SECURE"
  by (simp add: demo_ready_def demo_fwu_defs bl1_fwu_image_execute_def bl1_prepare_next_image_def fwu_eval
      cm_op_defs cm_ctx_def cm_get_context_def sec_state_is_valid_def EP_GET_EXE_def NON_EXECUTABLE_def
      Let_def bl1_plat_set_ep_info_def)

lemma demo_flags [simp]: "GET_SECURITY_STATE 1 = NON_SECURE" "GET_SECURITY_STATE 0 = SECURE"
  by (simp_all add: GET_SECURITY_STATE_def NON_SECURE_def SECURE_def)

lemma demo_ready_cpu [simp]: "cpu_next (fw_cpu demo_ready) = NON_SECURE" "cpu_el1 (fw_cpu demo_ready) = (\<lambda>_. 3)"
  by (simp_all add: demo_ready_def demo_cpu_def)

theorem fwu_execute_done_restores_witness:
  "\<exists>w1 w3. bl1_fwu_image_execute 1 NON_SECURE 1 demo_ready = Some (0, SECURE, w1) \<and>
     bl1_fwu_sec_image_done SECURE 0 (w1\<lparr>w_mem := \<lambda>_. 1, fw_cpu := (fw_cpu w1)\<lparr>cpu_el1 := \<lambda>_. 9,
       cpu_context := (cpu_context (fw_cpu w1))(SECURE := zero_context)\<rparr>\<rparr>) = Some (0, NON_SECURE, w3) \<and>
     cpu_el1 (fw_cpu w3) = (\<lambda>_. 3)"
proof -
  obtain w1 where ex: "bl1_fwu_image_execute 1 NON_SECURE 1 demo_ready = Some (0, SECURE, w1)"
    using demo_executes by blast
  from fwu_execute_done_restores [OF demo_ready_inv _ _ ex refl,
      where flags' = 0 and m = "\<lambda>_. 1" and r = "\<lambda>_. 9" and ctx = zero_context] ex
  show ?thesis by auto
qed

theorem fwu_resume_resume_restores_witness:
  "\<exists>(w :: u32 fwu_world) v h w1 w3. cpu_next (fw_cpu w) = SECURE \<and>
     bl1_fwu_image_resume 5 SECURE 0 w = Some (v, h, w1) \<and>
     bl1_fwu_image_resume 6 NON_SECURE 1 (w1\<lparr>w_mem := \<lambda>_. 1, fw_cpu := (fw_cpu w1)\<lparr>cpu_el1 := \<lambda>_. 9,
       cpu_context := (cpu_context (fw_cpu w1))(NON_SECURE := zero_context)\<rparr>\<rparr>) = Some (6, SECURE, w3) \<and>
     cpu_el1 (fw_cpu w3) = cpu_el1 (fw_cpu w)"
proof -
  obtain w where ex: "bl1_fwu_image_execute 1 NON_SECURE 1 demo_ready = Some (0, SECURE, w)"
    and nx: "cpu_next (fw_cpu w) = SECURE"
    using demo_executes by blast
  have inv: "fwu_inv w"
    by (rule fwu_inv_execute [OF demo_ready_inv _ ex]) simp
  obtain v h w1 where rs: "bl1_fwu_image_resume 5 SECURE 0 w = Some (v, h, w1)"
    using resume_not_None [OF inv, of 0 5 SECURE] nx by auto
  from fwu_resume_resume_restores [OF inv nx _ rs refl,
      where flags' = 1 and x' = 6 and m = "\<lambda>_. 1" and r = "\<lambda>_. 9" and ctx = zero_context] rs nx
  show ?thesis by fastforce
qed

end
