(* ===== verification/Io_Storage.thy ===== *)
theory Io_Storage
  imports Prelude
begin

text \<open>
  The I/O abstraction of the trusted firmware (\<open>drivers/io/io_storage.c\<close>): a fixed pool of entities
  (open files), the registered devices, and operations that dispatch to the function table of a
  device. A device handle is a number, the address of the device's \<open>io_dev_info\<close> structure, whose
  function table is constant; \<open>F\<close> gives the table of a handle (0 and unknown handles have none). An
  entity handle is the index of the entity in the pool. A parameter that C passes by address for a
  result is passed as its old value and returned as its new one.
\<close>

section \<open>Types and state\<close>

datatype io_type =
  IO_TYPE_INVALID | IO_TYPE_SEMIHOSTING | IO_TYPE_MEMMAP | IO_TYPE_DUMMY
| IO_TYPE_FIRMWARE_IMAGE_PACKAGE | IO_TYPE_BLOCK | IO_TYPE_MAX

datatype io_seek_mode = IO_SEEK_INVALID | IO_SEEK_SET | IO_SEEK_END | IO_SEEK_CUR | IO_SEEK_MAX

text \<open>
  The \<open>info\<close> word of an entity is \<open>NULL\<close> or the address of a driver's static object, which is named by
  its file and variable.
\<close>

datatype io_info = Info_Null | Info_Static string

record io_entity =
  ie_dev_handle :: nat
  ie_info :: io_info

definition MAX_IO_HANDLES :: nat where "MAX_IO_HANDLES = 4"
definition MAX_IO_DEVICES :: nat where "MAX_IO_DEVICES = 3"

text \<open>
  The static data of the module and the memory of the machine. An entry of \<open>entity_map\<close> is \<open>NULL\<close> or
  a pointer into the pool.
\<close>

record io_state =
  io_mem :: mem
  io_entity_pool :: "io_entity list"
  io_entity_map :: "nat option list"
  io_entity_count :: u32
  io_devices :: "nat list"
  io_dev_count :: u32

record 's io_dev_funcs =
  df_type :: io_type
  df_open :: "(nat \<Rightarrow> u64 \<Rightarrow> nat \<Rightarrow> 's \<Rightarrow> (int \<times> 's) option) option"
  df_seek :: "(nat \<Rightarrow> io_seek_mode \<Rightarrow> u64 \<Rightarrow> 's \<Rightarrow> (int \<times> 's) option) option"
  df_size :: "(nat \<Rightarrow> u64 \<Rightarrow> 's \<Rightarrow> (int \<times> u64 \<times> 's) option) option"
  df_read :: "(nat \<Rightarrow> u64 \<Rightarrow> u64 \<Rightarrow> u64 \<Rightarrow> 's \<Rightarrow> (int \<times> u64 \<times> 's) option) option"
  df_write :: "(nat \<Rightarrow> u64 \<Rightarrow> u64 \<Rightarrow> u64 \<Rightarrow> 's \<Rightarrow> (int \<times> u64 \<times> 's) option) option"
  df_close :: "(nat \<Rightarrow> 's \<Rightarrow> (int \<times> 's) option) option"
  df_dev_init :: "(nat \<Rightarrow> u64 \<Rightarrow> 's \<Rightarrow> (int \<times> 's) option) option"
  df_dev_close :: "(nat \<Rightarrow> 's \<Rightarrow> (int \<times> 's) option) option"

type_synonym 's dev_table = "nat \<Rightarrow> 's io_dev_funcs option"

section \<open>Validation\<close>

definition is_valid_dev :: "'s dev_table \<Rightarrow> nat \<Rightarrow> bool" where
  "is_valid_dev F dev_handle \<longleftrightarrow>
     dev_handle \<noteq> 0 \<and>
     (case F dev_handle of None \<Rightarrow> False | Some f \<Rightarrow> df_type f \<noteq> IO_TYPE_MAX)"

definition is_valid_entity :: "'x io_state_scheme dev_table \<Rightarrow> nat \<Rightarrow> 'x io_state_scheme \<Rightarrow> bool" where
  "is_valid_entity F handle s \<longleftrightarrow>
     handle < length (io_entity_pool s) \<and> is_valid_dev F (ie_dev_handle (io_entity_pool s ! handle))"

definition is_valid_seek_mode :: "io_seek_mode \<Rightarrow> bool" where
  "is_valid_seek_mode mode \<longleftrightarrow> mode \<noteq> IO_SEEK_INVALID \<and> mode \<noteq> IO_SEEK_MAX"

section \<open>The pool of entities\<close>

text \<open>The search for the first map entry equal to \<open>entity\<close>.\<close>

fun find_entity_loop :: "nat option list \<Rightarrow> nat \<Rightarrow> nat option \<Rightarrow> nat option" where
  "find_entity_loop [] index entity = None"
| "find_entity_loop (e # es) index entity =
     (if e = entity then Some index else find_entity_loop es (Suc index) entity)"

definition find_first_entity :: "nat option \<Rightarrow> 'x io_state_scheme \<Rightarrow> nat option" where
  "find_first_entity entity s = find_entity_loop (io_entity_map s) 0 entity"

definition allocate_entity :: "'x io_state_scheme \<Rightarrow> (int \<times> nat \<times> 'x io_state_scheme) option" where
  "allocate_entity s =
     (if unat (io_entity_count s) < MAX_IO_HANDLES then
        do { index \<leftarrow> find_first_entity None s;
             Some (0, index, s\<lparr>io_entity_map := (io_entity_map s)[index := Some index],
                               io_entity_count := io_entity_count s + 1\<rparr>) }
      else Some (- ENOMEM, 0, s))"

definition free_entity :: "nat \<Rightarrow> 'x io_state_scheme \<Rightarrow> int \<times> 'x io_state_scheme" where
  "free_entity entity s =
     (case find_first_entity (Some entity) s of
        None \<Rightarrow> (- ENOENT, s)
      | Some index \<Rightarrow>
          (0, s\<lparr>io_entity_map := (io_entity_map s)[index := None],
                io_entity_count := io_entity_count s - 1\<rparr>))"

section \<open>Devices\<close>

definition io_register_device :: "nat \<Rightarrow> 'x io_state_scheme \<Rightarrow> (int \<times> 'x io_state_scheme) option" where
  "io_register_device dev_info s =
     do { assert_c (dev_info \<noteq> 0);
          Some (if unat (io_dev_count s) < MAX_IO_DEVICES then
                  (0, s\<lparr>io_devices := (io_devices s)[unat (io_dev_count s) := dev_info],
                        io_dev_count := io_dev_count s + 1\<rparr>)
                else (- ENOMEM, s)) }"

text \<open>A connector is its \<open>dev_open\<close> function, which yields the device's handle.\<close>

definition io_dev_open :: "(u64 \<Rightarrow> 's \<Rightarrow> (int \<times> nat \<times> 's) option) \<Rightarrow> u64 \<Rightarrow> 's \<Rightarrow> (int \<times> nat \<times> 's) option" where
  "io_dev_open dev_con dev_spec s = dev_con dev_spec s"

definition io_dev_init :: "'s dev_table \<Rightarrow> nat \<Rightarrow> u64 \<Rightarrow> 's \<Rightarrow> (int \<times> 's) option" where
  "io_dev_init F dev_handle init_params s =
     do { assert_c (dev_handle \<noteq> 0);
          assert_c (is_valid_dev F dev_handle);
          funcs \<leftarrow> F dev_handle;
          (case df_dev_init funcs of
             None \<Rightarrow> Some (0, s)
           | Some f \<Rightarrow> f dev_handle init_params s) }"

definition io_dev_close :: "'s dev_table \<Rightarrow> nat \<Rightarrow> 's \<Rightarrow> (int \<times> 's) option" where
  "io_dev_close F dev_handle s =
     do { assert_c (dev_handle \<noteq> 0);
          assert_c (is_valid_dev F dev_handle);
          funcs \<leftarrow> F dev_handle;
          (case df_dev_close funcs of
             None \<Rightarrow> Some (0, s)
           | Some f \<Rightarrow> f dev_handle s) }"

section \<open>Entities\<close>

definition io_open ::
  "'x io_state_scheme dev_table \<Rightarrow> nat \<Rightarrow> u64 \<Rightarrow> nat \<Rightarrow> 'x io_state_scheme \<Rightarrow>
   (int \<times> nat \<times> 'x io_state_scheme) option"
where
  "io_open F dev_handle spec handle s =
     do { assert_c (spec \<noteq> 0);
          assert_c (is_valid_dev F dev_handle);
          funcs \<leftarrow> F dev_handle;
          (result, entity, s) \<leftarrow> allocate_entity s;
          if result \<noteq> 0 then Some (result, handle, s) else do {
          open_fn \<leftarrow> df_open funcs;
          (result, s) \<leftarrow> open_fn dev_handle spec entity s;
          if result = 0 then
            Some (0, entity,
              s\<lparr>io_entity_pool := (io_entity_pool s)
                  [entity := (io_entity_pool s ! entity)\<lparr>ie_dev_handle := dev_handle\<rparr>]\<rparr>)
          else Some (result, handle, snd (free_entity entity s)) } }"

text \<open>The function table of the device that an open entity belongs to.\<close>

definition entity_funcs ::
  "'x io_state_scheme dev_table \<Rightarrow> nat \<Rightarrow> 'x io_state_scheme \<Rightarrow> 'x io_state_scheme io_dev_funcs option"
where
  "entity_funcs F handle s = F (ie_dev_handle (io_entity_pool s ! handle))"

definition io_seek ::
  "'x io_state_scheme dev_table \<Rightarrow> nat \<Rightarrow> io_seek_mode \<Rightarrow> u64 \<Rightarrow> 'x io_state_scheme \<Rightarrow>
   (int \<times> 'x io_state_scheme) option"
where
  "io_seek F handle mode offset s =
     do { assert_c (is_valid_entity F handle s \<and> is_valid_seek_mode mode);
          funcs \<leftarrow> entity_funcs F handle s;
          (case df_seek funcs of
             None \<Rightarrow> Some (- ENODEV, s)
           | Some f \<Rightarrow> f handle mode offset s) }"

definition io_size ::
  "'x io_state_scheme dev_table \<Rightarrow> nat \<Rightarrow> u64 \<Rightarrow> 'x io_state_scheme \<Rightarrow> (int \<times> u64 \<times> 'x io_state_scheme) option"
where
  "io_size F handle len s =
     do { assert_c (is_valid_entity F handle s);
          funcs \<leftarrow> entity_funcs F handle s;
          (case df_size funcs of
             None \<Rightarrow> Some (- ENODEV, len, s)
           | Some f \<Rightarrow> f handle len s) }"

text \<open>
  The Marvell platforms define \<open>PLAT_ALLOW_ZERO_ADDR_COPY\<close>, which removes the assertion that the
  buffer of a read is not at address 0.
\<close>

definition io_read ::
  "'x io_state_scheme dev_table \<Rightarrow> nat \<Rightarrow> u64 \<Rightarrow> u64 \<Rightarrow> u64 \<Rightarrow> 'x io_state_scheme \<Rightarrow>
   (int \<times> u64 \<times> 'x io_state_scheme) option"
where
  "io_read F handle buffer len length_read s =
     do { assert_c (is_valid_entity F handle s);
          funcs \<leftarrow> entity_funcs F handle s;
          (case df_read funcs of
             None \<Rightarrow> Some (- ENODEV, length_read, s)
           | Some f \<Rightarrow> f handle buffer len length_read s) }"

definition io_write ::
  "'x io_state_scheme dev_table \<Rightarrow> nat \<Rightarrow> u64 \<Rightarrow> u64 \<Rightarrow> u64 \<Rightarrow> 'x io_state_scheme \<Rightarrow>
   (int \<times> u64 \<times> 'x io_state_scheme) option"
where
  "io_write F handle buffer len length_written s =
     do { assert_c (is_valid_entity F handle s \<and> buffer \<noteq> 0);
          funcs \<leftarrow> entity_funcs F handle s;
          (case df_write funcs of
             None \<Rightarrow> Some (- ENODEV, length_written, s)
           | Some f \<Rightarrow> f handle buffer len length_written s) }"

definition io_close ::
  "'x io_state_scheme dev_table \<Rightarrow> nat \<Rightarrow> 'x io_state_scheme \<Rightarrow> (int \<times> 'x io_state_scheme) option"
where
  "io_close F handle s =
     do { assert_c (is_valid_entity F handle s);
          funcs \<leftarrow> entity_funcs F handle s;
          (result, s) \<leftarrow> (case df_close funcs of
             None \<Rightarrow> Some (0, s)
           | Some f \<Rightarrow> f handle s);
          Some (result, snd (free_entity handle s)) }"

section \<open>The pool invariant\<close>

text \<open>
  Every slot of the map is free or points to its own entity, and the count is the number of slots in
  use.
\<close>

definition used_count :: "nat option list \<Rightarrow> nat" where
  "used_count es = length (filter (\<lambda>e. \<not> Option.is_none e) es)"

definition wf_io :: "'x io_state_scheme \<Rightarrow> bool" where
  "wf_io s \<longleftrightarrow>
     length (io_entity_pool s) = MAX_IO_HANDLES \<and> length (io_entity_map s) = MAX_IO_HANDLES \<and>
     (\<forall>i < MAX_IO_HANDLES. io_entity_map s ! i = None \<or> io_entity_map s ! i = Some i) \<and>
     unat (io_entity_count s) = used_count (io_entity_map s)"

definition io_used :: "'x io_state_scheme \<Rightarrow> nat \<Rightarrow> bool" where
  "io_used s i \<longleftrightarrow> i < MAX_IO_HANDLES \<and> io_entity_map s ! i = Some i"

lemma find_entity_loop_None: "find_entity_loop es k e = None \<longleftrightarrow> e \<notin> set es"
  by (induction es arbitrary: k) auto

lemma find_entity_loop_Some:
  "find_entity_loop es k e = Some j \<Longrightarrow> k \<le> j \<and> j - k < length es \<and> es ! (j - k) = e"
proof (induction es arbitrary: k)
  case Nil
  then show ?case by simp
next
  case (Cons x es)
  show ?case
  proof (cases "x = e")
    case True
    with Cons.prems show ?thesis by simp
  next
    case False
    with Cons.prems Cons.IH [of "Suc k"] have "Suc k \<le> j" "j - Suc k < length es" "es ! (j - Suc k) = e"
      by simp_all
    moreover from this(1) have "j - k = Suc (j - Suc k)" by simp
    ultimately show ?thesis by simp
  qed
qed

lemma find_first_entity_Some:
  "find_first_entity e s = Some j \<Longrightarrow> j < length (io_entity_map s) \<and> io_entity_map s ! j = e"
  by (auto simp: find_first_entity_def dest: find_entity_loop_Some)

lemma find_first_entity_None: "find_first_entity e s = None \<longleftrightarrow> e \<notin> set (io_entity_map s)"
  by (simp add: find_first_entity_def find_entity_loop_None)

lemma find_first_entity_used:
  assumes "wf_io s" and "io_used s i"
  shows "find_first_entity (Some i) s = Some i"
proof (cases "find_first_entity (Some i) s")
  case None
  with assms show ?thesis
    by (metis find_first_entity_None io_used_def nth_mem wf_io_def)
next
  case (Some j)
  from find_first_entity_Some [OF this] assms show ?thesis
    unfolding Some by (auto simp: wf_io_def)
qed

lemma count_update:
  "i < length es \<Longrightarrow> es ! i = None \<Longrightarrow> used_count (es[i := Some x]) = Suc (used_count es)"
  unfolding used_count_def by (induction es arbitrary: i) (auto split: nat.splits)

lemma count_remove:
  "i < length es \<Longrightarrow> es ! i = Some x \<Longrightarrow> Suc (used_count (es[i := None])) = used_count es"
  unfolding used_count_def by (induction es arbitrary: i) (auto split: nat.splits)

lemma used_count_le: "used_count es \<le> length es"
  by (simp add: used_count_def)

lemma used_count_full: "used_count es = length es \<longleftrightarrow> None \<notin> set es"
proof (induction es)
  case (Cons e es)
  have "length (filter (\<lambda>e. \<not> Option.is_none e) es) \<noteq> Suc (length es)"
    using length_filter_le [of "\<lambda>e. \<not> Option.is_none e" es] by linarith
  with Cons show ?case by (cases e) (auto simp: used_count_def)
qed (simp add: used_count_def)

lemma MAX_IO_HANDLES_small [simp]: "MAX_IO_HANDLES < 2 ^ 32"
  by (simp add: MAX_IO_HANDLES_def)

lemma allocate_entity_cases:
  assumes "wf_io s"
  obtains (full) "allocate_entity s = Some (- ENOMEM, 0, s)" "\<forall>i < MAX_IO_HANDLES. io_used s i"
  | (allocated) i where "allocate_entity s = Some (0, i, s\<lparr>io_entity_map := (io_entity_map s)[i := Some i],
        io_entity_count := io_entity_count s + 1\<rparr>)" "i < MAX_IO_HANDLES" "io_entity_map s ! i = None"
proof (cases "unat (io_entity_count s) < MAX_IO_HANDLES")
  case True
  have "None \<in> set (io_entity_map s)"
    using True assms used_count_full [of "io_entity_map s"] by (auto simp: wf_io_def)
  then obtain i where i: "find_first_entity None s = Some i"
    by (cases "find_first_entity None s") (auto simp: find_first_entity_None)
  with find_first_entity_Some [OF i] assms True show ?thesis
    by (intro allocated [of i]) (auto simp: allocate_entity_def wf_io_def)
next
  case False
  have "None \<notin> set (io_entity_map s)"
    using False assms used_count_full [of "io_entity_map s"] used_count_le [of "io_entity_map s"]
    by (simp add: wf_io_def)
  then have "\<forall>i < MAX_IO_HANDLES. io_used s i"
    using assms unfolding io_used_def wf_io_def by (metis nth_mem)
  with False show ?thesis
    by (intro full) (auto simp: allocate_entity_def)
qed

lemma wf_io_allocated:
  assumes "wf_io s" and "i < MAX_IO_HANDLES" and "io_entity_map s ! i = None"
  shows "wf_io (s\<lparr>io_entity_map := (io_entity_map s)[i := Some i], io_entity_count := io_entity_count s + 1\<rparr>)"
proof -
  have "used_count (io_entity_map s) \<le> MAX_IO_HANDLES"
    using assms(1) used_count_le [of "io_entity_map s"] by (simp add: wf_io_def)
  then have "unat (io_entity_count s + 1) = Suc (unat (io_entity_count s))"
    using assms(1) by (simp add: wf_io_def unat_word_ariths MAX_IO_HANDLES_def)
  with assms show ?thesis
    by (auto simp: wf_io_def count_update nth_list_update)
qed

lemma free_entity_used:
  assumes "wf_io s" and "io_used s i"
  shows "free_entity i s = (0, s\<lparr>io_entity_map := (io_entity_map s)[i := None],
           io_entity_count := io_entity_count s - 1\<rparr>)"
  by (simp add: free_entity_def find_first_entity_used [OF assms])

lemma wf_io_freed:
  assumes "wf_io s" and "io_used s i"
  shows "wf_io (s\<lparr>io_entity_map := (io_entity_map s)[i := None], io_entity_count := io_entity_count s - 1\<rparr>)"
proof -
  have c: "Suc (used_count ((io_entity_map s)[i := None])) = unat (io_entity_count s)"
    using assms count_remove [of i "io_entity_map s" i] by (auto simp: wf_io_def io_used_def)
  then have "unat (io_entity_count s - 1) = unat (io_entity_count s) - 1"
    by (simp add: unat_sub_if')
  with c assms show ?thesis
    by (auto simp: wf_io_def nth_list_update io_used_def)
qed

section \<open>The contract of a driver\<close>

text \<open>
  What the module relies on when it calls a driver for entity \<open>e\<close>: the pool stays well formed, no slot
  is taken or released, and the other open entities are not touched.
\<close>

definition kept :: "nat \<Rightarrow> 'x io_state_scheme \<Rightarrow> 'x io_state_scheme \<Rightarrow> bool" where
  "kept e s s' \<longleftrightarrow>
     (wf_io s \<longrightarrow>
        wf_io s' \<and> io_entity_map s' = io_entity_map s \<and>
        (\<forall>i. io_used s i \<longrightarrow>
           ie_dev_handle (io_entity_pool s' ! i) = ie_dev_handle (io_entity_pool s ! i) \<and>
           (i \<noteq> e \<longrightarrow> io_entity_pool s' ! i = io_entity_pool s ! i)))"

lemma kept_refl [simp]: "kept e s s"
  by (simp add: kept_def)

lemma kept_trans: "kept e s t \<Longrightarrow> kept e t u \<Longrightarrow> kept e s u"
  unfolding kept_def io_used_def by metis

lemma kept_same:
  assumes "io_entity_map s' = io_entity_map s" "io_entity_count s' = io_entity_count s"
    "io_entity_pool s' = io_entity_pool s"
  shows "kept e s s'"
  using assms by (simp add: kept_def wf_io_def)

lemma kept_info:
  assumes "io_entity_map s' = io_entity_map s" "io_entity_count s' = io_entity_count s"
    "io_entity_pool s' = (io_entity_pool s)[e := (io_entity_pool s ! e)\<lparr>ie_info := v\<rparr>]"
  shows "kept e s s'"
proof (cases "e < length (io_entity_pool s)")
  case True
  with assms show ?thesis by (auto simp: kept_def wf_io_def nth_list_update)
next
  case False
  with assms show ?thesis by (intro kept_same) (auto simp: list_update_beyond)
qed

locale io_driver =
  fixes funcs :: "'x io_state_scheme io_dev_funcs"
  assumes open_kept: "df_open funcs = Some f1 \<Longrightarrow> f1 d spec e s = Some (rc, s') \<Longrightarrow> io_used s e \<Longrightarrow> kept e s s'"
    and seek_kept: "df_seek funcs = Some f2 \<Longrightarrow> f2 e mode off s = Some (rc, s') \<Longrightarrow> io_used s e \<Longrightarrow> kept e s s'"
    and size_kept: "df_size funcs = Some f3 \<Longrightarrow> f3 e n s = Some (rc, n', s') \<Longrightarrow> io_used s e \<Longrightarrow> kept e s s'"
    and read_kept: "df_read funcs = Some f4 \<Longrightarrow> f4 e b len n s = Some (rc, n', s') \<Longrightarrow> io_used s e \<Longrightarrow> kept e s s'"
    and write_kept: "df_write funcs = Some f5 \<Longrightarrow> f5 e b len n s = Some (rc, n', s') \<Longrightarrow> io_used s e \<Longrightarrow> kept e s s'"
    and close_kept: "df_close funcs = Some f6 \<Longrightarrow> f6 e s = Some (rc, s') \<Longrightarrow> io_used s e \<Longrightarrow> kept e s s'"
    and init_kept: "df_dev_init funcs = Some f7 \<Longrightarrow> f7 d prm s = Some (rc, s') \<Longrightarrow> kept MAX_IO_HANDLES s s'"
    and dev_close_kept: "df_dev_close funcs = Some f8 \<Longrightarrow> f8 d s = Some (rc, s') \<Longrightarrow> kept MAX_IO_HANDLES s s'"

text \<open>A table all of whose devices keep the contract: what a client of the module may rely on.\<close>

locale io_table =
  fixes F :: "'x io_state_scheme dev_table"
  assumes drivers: "F d = Some funcs \<Longrightarrow> io_driver funcs"
begin

lemma opened:
  assumes "wf_io s" and "io_open F d spec h s = Some (rc, h', s')"
  shows "if rc = 0
    then h' < MAX_IO_HANDLES \<and> io_entity_map s ! h' = None \<and> wf_io s' \<and> io_used s' h' \<and>
         io_entity_map s' = (io_entity_map s)[h' := Some h'] \<and>
         ie_dev_handle (io_entity_pool s' ! h') = d \<and>
         (\<forall>i. io_used s i \<longrightarrow> io_entity_pool s' ! i = io_entity_pool s ! i)
    else wf_io s' \<and> h' = h \<and> io_entity_map s' = io_entity_map s \<and>
         (\<forall>i. io_used s i \<longrightarrow> io_entity_pool s' ! i = io_entity_pool s ! i)"
  using assms(1)
proof (cases rule: allocate_entity_cases)
  case full
  with assms show ?thesis
    by (auto simp: io_open_def errno_defs bind_eq_Some_conv)
next
  case (allocated i)
  let ?s1 = "s\<lparr>io_entity_map := (io_entity_map s)[i := Some i], io_entity_count := io_entity_count s + 1\<rparr>"
  have wf1: "wf_io ?s1" by (rule wf_io_allocated [OF assms(1) allocated(2,3)])
  have u1: "io_used ?s1 i"
    using allocated(2) assms(1) by (simp add: io_used_def wf_io_def)
  from assms(2) allocated(1) obtain funcs f rc1 s2
    where F: "F d = Some funcs" and f: "df_open funcs = Some f" and run: "f d spec i ?s1 = Some (rc1, s2)"
      and res: "if rc1 = 0
        then rc = 0 \<and> h' = i \<and> s' = s2\<lparr>io_entity_pool := (io_entity_pool s2)
               [i := (io_entity_pool s2 ! i)\<lparr>ie_dev_handle := d\<rparr>]\<rparr>
        else rc = rc1 \<and> h' = h \<and> s' = snd (free_entity i s2)"
    by (auto simp: io_open_def bind_eq_Some_conv split: if_splits)
  have k: "kept i ?s1 s2" by (rule io_driver.open_kept [OF drivers [OF F] f run u1])
  have wf2: "wf_io s2" and m2: "io_entity_map s2 = (io_entity_map s)[i := Some i]"
    using k wf1 by (auto simp: kept_def)
  have u2: "io_used s2 i"
    using u1 m2 by (simp add: io_used_def)
  have old: "io_entity_pool s2 ! j = io_entity_pool s ! j \<and> j \<noteq> i" if "io_used s j" for j
  proof -
    from that allocated(3) have "j \<noteq> i" by (auto simp: io_used_def)
    with that have "io_used ?s1 j" by (simp add: io_used_def)
    with k wf1 \<open>j \<noteq> i\<close> show ?thesis by (simp add: kept_def)
  qed
  have bk: "(io_entity_map s)[i := None] = io_entity_map s"
    using allocated(2,3) assms(1) by (metis list_update_id)
  show ?thesis
  proof (cases "rc1 = 0")
    case True
    have "wf_io s'"
      using res True wf2 by (simp add: wf_io_def)
    moreover have "io_entity_pool s' ! j = io_entity_pool s ! j" if "io_used s j" for j
      using old [OF that] res True by auto
    ultimately show ?thesis
      using res True u2 m2 allocated(2,3) wf2 by (auto simp: io_used_def wf_io_def)
  next
    case False
    with res old m2 bk wf_io_freed [OF wf2 u2] free_entity_used [OF wf2 u2] show ?thesis by simp
  qed
qed

lemma used_driver:
  assumes "entity_funcs F h s = Some funcs"
  shows "io_driver funcs"
  using assms drivers by (auto simp: entity_funcs_def)

lemma seek_keeps:
  assumes "io_seek F h mode off s = Some (rc, s')" and "io_used s h"
  shows "kept h s s'"
  using assms
  by (auto simp: io_seek_def bind_eq_Some_conv split: option.splits dest: used_driver intro: io_driver.seek_kept)

lemma size_keeps:
  assumes "io_size F h n s = Some (rc, n', s')" and "io_used s h"
  shows "kept h s s'"
  using assms
  by (auto simp: io_size_def bind_eq_Some_conv split: option.splits dest: used_driver intro: io_driver.size_kept)

lemma read_keeps:
  assumes "io_read F h b len n s = Some (rc, n', s')" and "io_used s h"
  shows "kept h s s'"
  using assms
  by (auto simp: io_read_def bind_eq_Some_conv split: option.splits dest: used_driver intro: io_driver.read_kept)

lemma write_keeps:
  assumes "io_write F h b len n s = Some (rc, n', s')" and "io_used s h"
  shows "kept h s s'"
  using assms
  by (auto simp: io_write_def bind_eq_Some_conv split: option.splits dest: used_driver intro: io_driver.write_kept)

lemma dev_init_keeps:
  assumes "io_dev_init F d prm s = Some (rc, s')"
  shows "kept MAX_IO_HANDLES s s'"
  using assms
  by (auto simp: io_dev_init_def bind_eq_Some_conv split: option.splits dest: drivers intro: io_driver.init_kept)

lemma dev_close_keeps:
  assumes "io_dev_close F d s = Some (rc, s')"
  shows "kept MAX_IO_HANDLES s s'"
  using assms
  by (auto simp: io_dev_close_def bind_eq_Some_conv split: option.splits dest: drivers intro: io_driver.dev_close_kept)

lemma closed:
  assumes "wf_io s" and "io_close F h s = Some (rc, s')" and "io_used s h"
  shows "wf_io s' \<and> io_entity_map s' = (io_entity_map s)[h := None] \<and>
    (\<forall>i. io_used s i \<and> i \<noteq> h \<longrightarrow> io_entity_pool s' ! i = io_entity_pool s ! i)"
proof -
  from assms(2) obtain funcs where fs: "entity_funcs F h s = Some funcs"
    by (auto simp: io_close_def bind_eq_Some_conv)
  with assms(2) have "(df_close funcs = None \<and> s' = snd (free_entity h s)) \<or>
      (\<exists>f s1. df_close funcs = Some f \<and> f h s = Some (rc, s1) \<and> s' = snd (free_entity h s1))"
    by (cases "df_close funcs") (auto simp: io_close_def bind_eq_Some_conv)
  then obtain s1 where k: "kept h s s1" and s': "s' = snd (free_entity h s1)"
    using io_driver.close_kept [OF used_driver [OF fs]] assms(3) kept_refl by metis
  have wf1: "wf_io s1" and u1: "io_used s1 h" and m1: "io_entity_map s1 = io_entity_map s"
    using k assms(1,3) by (auto simp: kept_def io_used_def)
  show ?thesis
    using wf_io_freed [OF wf1 u1] k assms(1) m1 unfolding s' free_entity_used [OF wf1 u1]
    by (auto simp: kept_def)
qed

text \<open>A balanced open and close is invisible to the other open entities.\<close>

lemma open_close_kept:
  assumes "wf_io s" and "io_open F d spec h s = Some (0, h', s1)" and "kept h' s1 s2"
    and "io_close F h' s2 = Some (rc, s3)"
  shows "wf_io s3" "io_entity_map s3 = io_entity_map s"
    "io_used s i \<Longrightarrow> io_entity_pool s3 ! i = io_entity_pool s ! i"
proof -
  from opened [OF assms(1,2)] have op1: "h' < MAX_IO_HANDLES" "io_entity_map s ! h' = None" "wf_io s1" "io_used s1 h'"
    "io_entity_map s1 = (io_entity_map s)[h' := Some h']"
    "\<And>i. io_used s i \<Longrightarrow> io_entity_pool s1 ! i = io_entity_pool s ! i" by auto
  have k: "wf_io s2" "io_entity_map s2 = io_entity_map s1"
    "\<And>i. io_used s1 i \<Longrightarrow> i \<noteq> h' \<Longrightarrow> io_entity_pool s2 ! i = io_entity_pool s1 ! i"
    using assms(3) op1(3) by (auto simp: kept_def)
  have u2: "io_used s2 h'" using op1(4) k(2) by (simp add: io_used_def)
  note c = closed [OF k(1) assms(4) u2]
  from c show "wf_io s3" by simp
  have bk: "(io_entity_map s)[h' := None] = io_entity_map s"
    using op1(2) by (metis list_update_id)
  from c op1(5) k(2) bk show "io_entity_map s3 = io_entity_map s" by simp
  assume u: "io_used s i"
  then have "i \<noteq> h'" using op1(2) by (auto simp: io_used_def)
  moreover have "io_used s1 i" "io_used s2 i"
    using u op1(5) k(2) \<open>i \<noteq> h'\<close> by (simp_all add: io_used_def)
  ultimately show "io_entity_pool s3 ! i = io_entity_pool s ! i"
    using c k(3) op1(6) u by simp
qed

end

end
