(* ===== verification/Io_Memmap.thy ===== *)
theory Io_Memmap
  imports Io_Storage
begin

text \<open>
  The driver of memory mapped files (\<open>drivers/io/io_memmap.c\<close>): a file is a range of memory, and one
  file can be open at a time, because its cursor is a static variable.
\<close>

section \<open>State\<close>

record memmap_state = io_state +
  mm_in_use :: int
  mm_base :: u64
  mm_file_pos :: u64
  mm_size :: u64

definition MEMMAP_FILE :: io_info where "MEMMAP_FILE = Info_Static ''io_memmap.c:current_file''"

text \<open>The two words of an \<open>io_block_spec\<close> structure in memory.\<close>

definition block_spec_offset :: "mem \<Rightarrow> u64 \<Rightarrow> u64" where "block_spec_offset m spec = mem_u64 m spec"
definition block_spec_length :: "mem \<Rightarrow> u64 \<Rightarrow> u64" where "block_spec_length m spec = mem_u64 m (spec + 8)"

definition set_info :: "nat \<Rightarrow> io_info \<Rightarrow> 'x io_state_scheme \<Rightarrow> 'x io_state_scheme" where
  "set_info entity v s =
     s\<lparr>io_entity_pool := (io_entity_pool s)[entity := (io_entity_pool s ! entity)\<lparr>ie_info := v\<rparr>]\<rparr>"

definition get_info :: "nat \<Rightarrow> 'x io_state_scheme \<Rightarrow> io_info" where
  "get_info entity s = ie_info (io_entity_pool s ! entity)"

section \<open>Operations\<close>

definition memmap_dev_close :: "nat \<Rightarrow> 'x memmap_state_scheme \<Rightarrow> (int \<times> 'x memmap_state_scheme) option" where
  "memmap_dev_close dev_info s = Some (0, s)"

definition memmap_block_open ::
  "nat \<Rightarrow> u64 \<Rightarrow> nat \<Rightarrow> 'x memmap_state_scheme \<Rightarrow> (int \<times> 'x memmap_state_scheme) option"
where
  "memmap_block_open dev_info spec entity s =
     (if mm_in_use s = 0 then
        do { assert_c (spec \<noteq> 0);
             Some (0, set_info entity MEMMAP_FILE
                        (s\<lparr>mm_in_use := 1,
                           mm_base := block_spec_offset (io_mem s) spec,
                           mm_file_pos := 0,
                           mm_size := block_spec_length (io_mem s) spec\<rparr>)) }
      else Some (- ENOMEM, s))"

text \<open>The operations reach the file through the entity's \<open>info\<close> pointer.\<close>

definition memmap_block_seek ::
  "nat \<Rightarrow> io_seek_mode \<Rightarrow> u64 \<Rightarrow> 'x memmap_state_scheme \<Rightarrow> (int \<times> 'x memmap_state_scheme) option"
where
  "memmap_block_seek entity mode offset s =
     (if mode = IO_SEEK_SET then
        do { assert_c (get_info entity s = MEMMAP_FILE);
             Some (0, s\<lparr>mm_file_pos := offset\<rparr>) }
      else Some (- ENOENT, s))"

definition memmap_block_len ::
  "nat \<Rightarrow> u64 \<Rightarrow> 'x memmap_state_scheme \<Rightarrow> (int \<times> u64 \<times> 'x memmap_state_scheme) option"
where
  "memmap_block_len entity len s =
     do { assert_c (get_info entity s = MEMMAP_FILE);
          Some (0, mm_size s, s) }"

definition memmap_block_read ::
  "nat \<Rightarrow> u64 \<Rightarrow> u64 \<Rightarrow> u64 \<Rightarrow> 'x memmap_state_scheme \<Rightarrow> (int \<times> u64 \<times> 'x memmap_state_scheme) option"
where
  "memmap_block_read entity buffer len length_read s =
     do { assert_c (get_info entity s = MEMMAP_FILE);
          Some (0, len,
            s\<lparr>io_mem := memcpy (io_mem s) buffer (mm_base s + mm_file_pos s) len,
              mm_file_pos := mm_file_pos s + len\<rparr>) }"

definition memmap_block_write ::
  "nat \<Rightarrow> u64 \<Rightarrow> u64 \<Rightarrow> u64 \<Rightarrow> 'x memmap_state_scheme \<Rightarrow> (int \<times> u64 \<times> 'x memmap_state_scheme) option"
where
  "memmap_block_write entity buffer len length_written s =
     do { assert_c (buffer \<noteq> 0);
          assert_c (get_info entity s = MEMMAP_FILE);
          Some (0, len,
            s\<lparr>io_mem := memcpy (io_mem s) (mm_base s + mm_file_pos s) buffer len,
              mm_file_pos := mm_file_pos s + len\<rparr>) }"

definition memmap_block_close :: "nat \<Rightarrow> 'x memmap_state_scheme \<Rightarrow> (int \<times> 'x memmap_state_scheme) option" where
  "memmap_block_close entity s =
     Some (0, (set_info entity Info_Null s)\<lparr>mm_in_use := 0, mm_base := 0, mm_file_pos := 0, mm_size := 0\<rparr>)"

definition memmap_dev_funcs :: "'x memmap_state_scheme io_dev_funcs" where
  "memmap_dev_funcs =
     \<lparr>df_type = IO_TYPE_MEMMAP,
      df_open = Some memmap_block_open,
      df_seek = Some memmap_block_seek,
      df_size = Some memmap_block_len,
      df_read = Some memmap_block_read,
      df_write = Some memmap_block_write,
      df_close = Some memmap_block_close,
      df_dev_init = None,
      df_dev_close = Some memmap_dev_close\<rparr>"

text \<open>Opening a connection yields the handle of the driver's one device; the address is a parameter.\<close>

definition memmap_dev_open :: "nat \<Rightarrow> u64 \<Rightarrow> 's \<Rightarrow> (int \<times> nat \<times> 's) option" where
  "memmap_dev_open memmap_dev_info dev_spec s = Some (0, memmap_dev_info, s)"

definition register_io_dev_memmap ::
  "nat \<Rightarrow> 'x io_state_scheme \<Rightarrow>
   (int \<times> (u64 \<Rightarrow> 'x io_state_scheme \<Rightarrow> (int \<times> nat \<times> 'x io_state_scheme) option) option \<times> 'x io_state_scheme) option"
where
  "register_io_dev_memmap memmap_dev_info s =
     do { (result, s) \<leftarrow> io_register_device memmap_dev_info s;
          Some (result, if result = 0 then Some (memmap_dev_open memmap_dev_info) else None, s) }"

section \<open>The driver keeps the contract\<close>

lemma set_info_simps [simp]:
  "io_mem (set_info e v s) = io_mem s" "io_entity_map (set_info e v s) = io_entity_map s"
  "io_entity_count (set_info e v s) = io_entity_count s" "length (io_entity_pool (set_info e v s)) = length (io_entity_pool s)"
  by (simp_all add: set_info_def)

lemma set_info_memmap [simp]:
  "mm_in_use (set_info e v s) = mm_in_use s" "mm_base (set_info e v s) = mm_base s"
  "mm_file_pos (set_info e v s) = mm_file_pos s" "mm_size (set_info e v s) = mm_size s"
  by (simp_all add: set_info_def)

lemmas memmap_defs = memmap_block_open_def memmap_block_seek_def memmap_block_len_def
  memmap_block_read_def memmap_block_write_def memmap_block_close_def memmap_dev_close_def

lemma io_driver_memmap: "io_driver memmap_dev_funcs"
  by unfold_locales
    (auto simp: memmap_dev_funcs_def memmap_defs set_info_def split: if_splits
      intro: kept_same kept_info)

interpretation memmap: io_driver memmap_dev_funcs
  by (rule io_driver_memmap)

end
