(* ===== verification/Io_Fip.thy ===== *)
theory Io_Fip
  imports Io_Memmap
begin

text \<open>
  The driver of firmware image packages (\<open>drivers/io/io_fip.c\<close>). A package is a file of another device,
  the backend: a header, a table of contents that ends with an entry of the null UUID, and the
  images. The driver reads the entry of the open file into a static structure; that structure and
  the header on the stack are memory, at the addresses of the record \<open>fip_addrs\<close>.
\<close>

section \<open>Data\<close>

record fip_addrs =
  fa_entry :: u64
  fa_header :: u64

record fip_state = memmap_state +
  ff_file_pos :: u32
  ff_backend_dev_handle :: nat
  ff_backend_image_spec :: u64

definition FIP_FILE :: io_info where "FIP_FILE = Info_Static ''io_fip.c:current_file''"

definition TOC_HEADER_NAME :: u32 where "TOC_HEADER_NAME = 0xAA640001"
definition sizeof_header :: u64 where "sizeof_header = 16"
definition sizeof_entry :: u64 where "sizeof_entry = 40"
definition uuid_null :: "u8 list" where "uuid_null = replicate 16 0"

text \<open>The fields of the header and of an entry of the table of contents in memory.\<close>

definition header_name :: "mem \<Rightarrow> u64 \<Rightarrow> u32" where "header_name m a = mem_u32 m a"
definition header_serial_number :: "mem \<Rightarrow> u64 \<Rightarrow> u32" where "header_serial_number m a = mem_u32 m (a + 4)"
definition entry_uuid :: "mem \<Rightarrow> u64 \<Rightarrow> u8 list" where "entry_uuid m a = mem_bytes m a 16"
definition entry_offset_address :: "mem \<Rightarrow> u64 \<Rightarrow> u64" where "entry_offset_address m a = mem_u64 m (a + 16)"
definition entry_size :: "mem \<Rightarrow> u64 \<Rightarrow> u64" where "entry_size m a = mem_u64 m (a + 24)"

definition is_valid_header :: "mem \<Rightarrow> u64 \<Rightarrow> bool" where
  "is_valid_header m a \<longleftrightarrow> header_name m a = TOC_HEADER_NAME \<and> header_serial_number m a \<noteq> 0"

section \<open>Device operations\<close>

text \<open>\<open>plat\<close> is the platform's \<open>plat_get_image_source\<close>, \<open>F\<close> the devices that can be a backend.\<close>

type_synonym 's image_source = "u32 \<Rightarrow> nat \<Rightarrow> u64 \<Rightarrow> 's \<Rightarrow> (int \<times> nat \<times> u64 \<times> 's) option"

definition fip_dev_init ::
  "fip_addrs \<Rightarrow> 'x fip_state_scheme image_source \<Rightarrow> 'x fip_state_scheme dev_table \<Rightarrow>
   nat \<Rightarrow> u64 \<Rightarrow> 'x fip_state_scheme \<Rightarrow> (int \<times> 'x fip_state_scheme) option"
where
  "fip_dev_init K plat F dev_info init_params s =
     do { (result, bdev, bspec, s) \<leftarrow>
             plat (ucast init_params) (ff_backend_dev_handle s) (ff_backend_image_spec s) s;
          let s = s\<lparr>ff_backend_dev_handle := bdev, ff_backend_image_spec := bspec\<rparr>;
          if result \<noteq> 0 then Some (- ENOENT, s) else do {
          (result, backend_handle, s) \<leftarrow> io_open F bdev bspec 0 s;
          if result \<noteq> 0 then Some (- ENOENT, s) else do {
          (result, bytes_read, s) \<leftarrow> io_read F backend_handle (fa_header K) sizeof_header 0 s;
          let result = (if result = 0
                        then (if \<not> is_valid_header (io_mem s) (fa_header K) then - ENOENT else 0)
                        else result);
          (_, s) \<leftarrow> io_close F backend_handle s;
          Some (result, s) } } }"

definition fip_dev_close :: "nat \<Rightarrow> 'x fip_state_scheme \<Rightarrow> (int \<times> 'x fip_state_scheme) option" where
  "fip_dev_close dev_info s = Some (0, s\<lparr>ff_backend_dev_handle := 0, ff_backend_image_spec := 0\<rparr>)"

section \<open>File operations\<close>

text \<open>
  The loop over the table of contents: it ends when the entry read has the wanted UUID (the second
  component of the result), when it has the null UUID, or when the backend fails. A table without
  a null entry may keep it running for ever, which is the value \<^term>\<open>None\<close>.
\<close>

partial_function (option) fip_toc_loop ::
  "fip_addrs \<Rightarrow> 'x fip_state_scheme dev_table \<Rightarrow> nat \<Rightarrow> u64 \<Rightarrow> 'x fip_state_scheme \<Rightarrow>
   (int \<times> bool \<times> 'x fip_state_scheme) option"
where
  "fip_toc_loop K F backend_handle spec s =
     Option.bind (io_read F backend_handle (fa_entry K) sizeof_entry 0 s) (\<lambda>(result, bytes_read, s).
       if result = 0 then
         if entry_uuid (io_mem s) (fa_entry K) = mem_bytes (io_mem s) spec 16 then Some (0, True, s)
         else if entry_uuid (io_mem s) (fa_entry K) = uuid_null then Some (0, False, s)
         else fip_toc_loop K F backend_handle spec s
       else Some (result, False, s))"

definition fip_file_open ::
  "fip_addrs \<Rightarrow> 'x fip_state_scheme dev_table \<Rightarrow> nat \<Rightarrow> u64 \<Rightarrow> nat \<Rightarrow> 'x fip_state_scheme \<Rightarrow>
   (int \<times> 'x fip_state_scheme) option"
where
  "fip_file_open K F dev_info spec entity s =
     do { assert_c (spec \<noteq> 0);
          if entry_offset_address (io_mem s) (fa_entry K) \<noteq> 0 then Some (- ENOMEM, s) else do {
          (result, backend_handle, s) \<leftarrow> io_open F (ff_backend_dev_handle s) (ff_backend_image_spec s) 0 s;
          if result \<noteq> 0 then Some (- ENOENT, s) else do {
          (result, s) \<leftarrow> io_seek F backend_handle IO_SEEK_SET sizeof_header s;
          (result, s) \<leftarrow>
            (if result \<noteq> 0 then Some (- ENOENT, s) else do {
               (result, found_file, s) \<leftarrow> fip_toc_loop K F backend_handle spec s;
               Some (if result \<noteq> 0 then (result, s)
                     else if found_file
                     then (0, set_info entity FIP_FILE (s\<lparr>ff_file_pos := 0\<rparr>))
                     else (- ENOENT, s\<lparr>io_mem := mem_write (io_mem s) (fa_entry K + 16) (replicate 8 0)\<rparr>)) });
          (_, s) \<leftarrow> io_close F backend_handle s;
          Some (result, s) } } }"

definition fip_file_len ::
  "fip_addrs \<Rightarrow> nat \<Rightarrow> u64 \<Rightarrow> 'x fip_state_scheme \<Rightarrow> (int \<times> u64 \<times> 'x fip_state_scheme) option"
where
  "fip_file_len K entity len s =
     do { assert_c (get_info entity s = FIP_FILE);
          Some (0, entry_size (io_mem s) (fa_entry K), s) }"

definition fip_file_read ::
  "fip_addrs \<Rightarrow> 'x fip_state_scheme dev_table \<Rightarrow> nat \<Rightarrow> u64 \<Rightarrow> u64 \<Rightarrow> u64 \<Rightarrow> 'x fip_state_scheme \<Rightarrow>
   (int \<times> u64 \<times> 'x fip_state_scheme) option"
where
  "fip_file_read K F entity buffer len length_read s =
     do { assert_c (get_info entity s = FIP_FILE);
          (result, backend_handle, s) \<leftarrow> io_open F (ff_backend_dev_handle s) (ff_backend_image_spec s) 0 s;
          if result \<noteq> 0 then Some (- ENOENT, length_read, s) else do {
          let file_offset = entry_offset_address (io_mem s) (fa_entry K) + ucast (ff_file_pos s);
          (result, s) \<leftarrow> io_seek F backend_handle IO_SEEK_SET file_offset s;
          (result, length_read, s) \<leftarrow>
            (if result \<noteq> 0 then Some (- ENOENT, length_read, s) else do {
               (result, bytes_read, s) \<leftarrow> io_read F backend_handle buffer len 0 s;
               Some (if result \<noteq> 0 then (- ENOENT, length_read, s)
                     else (0, bytes_read, s\<lparr>ff_file_pos := ff_file_pos s + ucast bytes_read\<rparr>)) });
          (_, s) \<leftarrow> io_close F backend_handle s;
          Some (result, length_read, s) } }"

definition fip_file_close ::
  "fip_addrs \<Rightarrow> nat \<Rightarrow> 'x fip_state_scheme \<Rightarrow> (int \<times> 'x fip_state_scheme) option"
where
  "fip_file_close K entity s =
     Some (0, set_info entity Info_Null
       (if entry_offset_address (io_mem s) (fa_entry K) \<noteq> 0
        then s\<lparr>io_mem := memset (io_mem s) (fa_entry K) 0 sizeof_entry, ff_file_pos := 0\<rparr>
        else s))"

definition fip_dev_funcs ::
  "fip_addrs \<Rightarrow> 'x fip_state_scheme image_source \<Rightarrow> 'x fip_state_scheme dev_table \<Rightarrow>
   'x fip_state_scheme io_dev_funcs"
where
  "fip_dev_funcs K plat F =
     \<lparr>df_type = IO_TYPE_FIRMWARE_IMAGE_PACKAGE,
      df_open = Some (fip_file_open K F),
      df_seek = None,
      df_size = Some (fip_file_len K),
      df_read = Some (fip_file_read K F),
      df_write = None,
      df_close = Some (fip_file_close K),
      df_dev_init = Some (fip_dev_init K plat F),
      df_dev_close = Some fip_dev_close\<rparr>"

definition fip_dev_open :: "nat \<Rightarrow> u64 \<Rightarrow> 's \<Rightarrow> (int \<times> nat \<times> 's) option" where
  "fip_dev_open fip_dev_info dev_spec s = Some (0, fip_dev_info, s)"

definition register_io_dev_fip ::
  "nat \<Rightarrow> 'x io_state_scheme \<Rightarrow>
   (int \<times> (u64 \<Rightarrow> 'x io_state_scheme \<Rightarrow> (int \<times> nat \<times> 'x io_state_scheme) option) option \<times> 'x io_state_scheme) option"
where
  "register_io_dev_fip fip_dev_info s =
     do { (result, s) \<leftarrow> io_register_device fip_dev_info s;
          Some (result, if result = 0 then Some (fip_dev_open fip_dev_info) else None, s) }"

section \<open>The driver keeps the contract\<close>

lemma kept_upd [simp]:
  "kept e s (t\<lparr>io_mem := m\<rparr>) = kept e s t" "kept e s (u\<lparr>ff_file_pos := p\<rparr>) = kept e s u"
  "kept e s (u\<lparr>ff_backend_dev_handle := d\<rparr>) = kept e s u" "kept e s (u\<lparr>ff_backend_image_spec := q\<rparr>) = kept e s u"
  "kept e (t\<lparr>io_mem := m\<rparr>) s = kept e t s" "kept e (u\<lparr>ff_file_pos := p\<rparr>) s' = kept e u s'"
  "kept e (u\<lparr>ff_backend_dev_handle := d\<rparr>) s' = kept e u s'" "kept e (u\<lparr>ff_backend_image_spec := q\<rparr>) s' = kept e u s'"
  by (simp_all add: kept_def wf_io_def io_used_def)

lemma kept_set_info: "kept e s t \<Longrightarrow> kept e s (set_info e v t)"
  by (rule kept_trans [of _ _ t]) (auto simp: set_info_def intro: kept_info)

text \<open>Two entities may change: the file of the package and the backend's.\<close>

definition kept2 :: "nat \<Rightarrow> nat \<Rightarrow> 'x io_state_scheme \<Rightarrow> 'x io_state_scheme \<Rightarrow> bool" where
  "kept2 h e s s' \<longleftrightarrow>
     (wf_io s \<longrightarrow>
        wf_io s' \<and> io_entity_map s' = io_entity_map s \<and>
        (\<forall>i. io_used s i \<longrightarrow>
           ie_dev_handle (io_entity_pool s' ! i) = ie_dev_handle (io_entity_pool s ! i) \<and>
           (i \<noteq> h \<and> i \<noteq> e \<longrightarrow> io_entity_pool s' ! i = io_entity_pool s ! i)))"

lemma kept2_left: "kept h s s' \<Longrightarrow> kept2 h e s s'"
  by (simp add: kept_def kept2_def)

lemma kept2_set_info: "kept h s t \<Longrightarrow> kept2 h e s (set_info e v t)"
proof -
  assume "kept h s t"
  moreover have "kept e t (set_info e v t)"
    by (auto simp: set_info_def intro: kept_info)
  ultimately show ?thesis
    unfolding kept_def kept2_def io_used_def by metis
qed

context io_table
begin

lemma open_failed_kept:
  "io_open F d spec h s = Some (rc, h', s') \<Longrightarrow> rc \<noteq> 0 \<Longrightarrow> kept e s s'"
  using opened [of s d spec h rc h' s'] by (auto simp: kept_def)

lemma session_kept:
  assumes "io_open F d spec h s = Some (0, h', s1)" and "wf_io s1 \<Longrightarrow> io_used s1 h' \<Longrightarrow> kept2 h' e s1 s2"
    and "io_close F h' s2 = Some (rc, s3)"
  shows "kept e s s3"
proof (cases "wf_io s")
  case True
  from opened [OF True assms(1)] have op1: "h' < MAX_IO_HANDLES" "io_entity_map s ! h' = None" "wf_io s1" "io_used s1 h'"
    "io_entity_map s1 = (io_entity_map s)[h' := Some h']"
    "\<And>i. io_used s i \<Longrightarrow> io_entity_pool s1 ! i = io_entity_pool s ! i" by auto
  from assms(2) op1 have k: "wf_io s2" "io_entity_map s2 = io_entity_map s1"
    "\<And>i. io_used s1 i \<Longrightarrow> ie_dev_handle (io_entity_pool s2 ! i) = ie_dev_handle (io_entity_pool s1 ! i) \<and>
      (i \<noteq> h' \<and> i \<noteq> e \<longrightarrow> io_entity_pool s2 ! i = io_entity_pool s1 ! i)"
    by (auto simp: kept2_def)
  have u2: "io_used s2 h'" using op1(4) k(2) by (simp add: io_used_def)
  note c = closed [OF k(1) assms(3) u2]
  have bk: "(io_entity_map s)[h' := None] = io_entity_map s"
    using op1(2) by (metis list_update_id)
  have "ie_dev_handle (io_entity_pool s3 ! i) = ie_dev_handle (io_entity_pool s ! i) \<and>
      (i \<noteq> e \<longrightarrow> io_entity_pool s3 ! i = io_entity_pool s ! i)" if u: "io_used s i" for i
  proof -
    have "i \<noteq> h'" using u op1(2) by (auto simp: io_used_def)
    then have "io_used s1 i" "io_used s2 i"
      using u op1(5) k(2) by (simp_all add: io_used_def)
    with c k(3) [of i] op1(6) [OF u] \<open>i \<noteq> h'\<close> show ?thesis by simp
  qed
  with c bk op1(5) k(2) show ?thesis by (simp add: kept_def)
qed (simp add: kept_def)

end

text \<open>
  The package driver keeps the contract when its backends and the platform's policy do: an open file of
  the package leaves no backend file open.
\<close>

lemma fip_toc_loop_kept:
  assumes "fip_toc_loop K F h spec s = Some y"
  shows "io_table F \<longrightarrow> wf_io s \<longrightarrow> io_used s h \<longrightarrow> kept h s (snd (snd y))"
proof (rule fip_toc_loop.raw_induct [OF _ assms,
    of "\<lambda>K F h spec s y. io_table F \<longrightarrow> wf_io s \<longrightarrow> io_used s h \<longrightarrow> kept h s (snd (snd y))"], intro impI)
  fix loop :: "fip_addrs \<Rightarrow> 'a fip_state_scheme dev_table \<Rightarrow> nat \<Rightarrow> u64 \<Rightarrow> 'a fip_state_scheme \<Rightarrow>
    (int \<times> bool \<times> 'a fip_state_scheme) option"
    and K F h spec s y
  assume IH: "\<And>K F h spec s y. loop K F h spec s = Some y \<Longrightarrow>
      io_table F \<longrightarrow> wf_io s \<longrightarrow> io_used s h \<longrightarrow> kept h s (snd (snd y))"
    and step: "Option.bind (io_read F h (fa_entry K) sizeof_entry 0 s) (\<lambda>(result, bytes_read, s).
       if result = 0 then
         if entry_uuid (io_mem s) (fa_entry K) = mem_bytes (io_mem s) spec 16 then Some (0, True, s)
         else if entry_uuid (io_mem s) (fa_entry K) = uuid_null then Some (0, False, s)
         else loop K F h spec s
       else Some (result, False, s)) = Some y"
    and T: "io_table F" and wf: "wf_io s" and used: "io_used s h"
  from step obtain result n s1 where rd: "io_read F h (fa_entry K) sizeof_entry 0 s = Some (result, n, s1)"
    and rest: "snd (snd y) = s1 \<or> loop K F h spec s1 = Some y"
    by (auto simp: bind_eq_Some_conv split: if_splits)
  have k: "kept h s s1" by (rule io_table.read_keeps [OF T rd used])
  then have "wf_io s1" "io_used s1 h" using wf used by (auto simp: kept_def io_used_def)
  with rest k IH T show "kept h s (snd (snd y))"
    by (blast intro: kept_trans)
qed


lemma fip_file_open_kept:
  assumes T: "io_table F" and run: "fip_file_open K F d spec e s = Some (rc, s')"
  shows "kept e s s'"
proof (cases "\<exists>rc1 h s1. io_open F (ff_backend_dev_handle s) (ff_backend_image_spec s) 0 s = Some (rc1, h, s1) \<and>
    entry_offset_address (io_mem s) (fa_entry K) = 0")
  case False
  with run show ?thesis by (auto simp: fip_file_open_def bind_eq_Some_conv split: if_splits)
next
  case True
  then obtain rc1 h s1 where op: "io_open F (ff_backend_dev_handle s) (ff_backend_image_spec s) 0 s = Some (rc1, h, s1)"
    and z: "entry_offset_address (io_mem s) (fa_entry K) = 0" by blast
  show ?thesis
  proof (cases "rc1 = 0")
    case False
    with run op z have "s' = s1" by (auto simp: fip_file_open_def bind_eq_Some_conv split: if_splits)
    with io_table.open_failed_kept [OF T op False] show ?thesis by simp
  next
    case ok: True
    with run op z obtain rc2 s2 s3 rc4 where
      sk: "io_seek F h IO_SEEK_SET sizeof_header s1 = Some (rc2, s2)"
      and cl: "io_close F h s3 = Some (rc4, s')"
      and mid: "s3 = s2 \<or> (\<exists>y. fip_toc_loop K F h spec s2 = Some y \<and>
        (s3 = snd (snd y) \<or> s3 = set_info e FIP_FILE ((snd (snd y))\<lparr>ff_file_pos := 0\<rparr>) \<or>
         s3 = (snd (snd y))\<lparr>io_mem := mem_write (io_mem (snd (snd y))) (fa_entry K + 16) (replicate 8 0)\<rparr>))"
      by (fastforce simp: fip_file_open_def bind_eq_Some_conv split: if_splits)
    have "kept2 h e s1 s3" if wf: "wf_io s1" and u: "io_used s1 h"
    proof -
      have k2: "kept h s1 s2" by (rule io_table.seek_keeps [OF T sk u])
      then have w2: "wf_io s2" "io_used s2 h" using wf u by (auto simp: kept_def io_used_def)
      have k3: "kept h s1 (snd (snd y))" if "fip_toc_loop K F h spec s2 = Some y" for y
        using kept_trans [OF k2] fip_toc_loop_kept [OF that] T w2 by blast
      from mid k2 k3 show ?thesis
        by (auto intro: kept2_left kept2_set_info)
    qed
    from io_table.session_kept [OF T op [unfolded ok] this cl] show ?thesis by simp
  qed
qed

lemma fip_file_read_kept:
  assumes T: "io_table F" and run: "fip_file_read K F e buf len n s = Some (rc, n', s')"
  shows "kept e s s'"
proof -
  from run obtain rc1 h s1 where op: "io_open F (ff_backend_dev_handle s) (ff_backend_image_spec s) 0 s = Some (rc1, h, s1)"
    by (auto simp: fip_file_read_def bind_eq_Some_conv)
  show ?thesis
  proof (cases "rc1 = 0")
    case False
    with run op have "s' = s1" by (auto simp: fip_file_read_def bind_eq_Some_conv)
    with io_table.open_failed_kept [OF T op False] show ?thesis by simp
  next
    case ok: True
    with run op obtain off rc2 s2 s3 rc4 where
      sk: "io_seek F h IO_SEEK_SET off s1 = Some (rc2, s2)"
      and cl: "io_close F h s3 = Some (rc4, s')"
      and mid: "s3 = s2 \<or> (\<exists>rc3 n3 t. io_read F h buf len 0 s2 = Some (rc3, n3, t) \<and>
        (s3 = t \<or> s3 = t\<lparr>ff_file_pos := ff_file_pos t + ucast n3\<rparr>))"
      by (fastforce simp: fip_file_read_def bind_eq_Some_conv Let_def split: if_splits)
    have "kept2 h e s1 s3" if wf: "wf_io s1" and u: "io_used s1 h"
    proof -
      have k2: "kept h s1 s2" by (rule io_table.seek_keeps [OF T sk u])
      then have "io_used s2 h" using wf u by (auto simp: kept_def io_used_def)
      with mid k2 io_table.read_keeps [OF T] show ?thesis
        by (auto intro!: kept2_left intro: kept_trans)
    qed
    from io_table.session_kept [OF T op [unfolded ok] this cl] show ?thesis by simp
  qed
qed

text \<open>What the contract asks of the platform's image policy.\<close>

definition source_kept :: "'x io_state_scheme image_source \<Rightarrow> bool" where
  "source_kept plat \<longleftrightarrow>
     (\<forall>i d q s rc d' q' s'. plat i d q s = Some (rc, d', q', s') \<longrightarrow> kept MAX_IO_HANDLES s s')"

lemma fip_dev_init_kept:
  assumes T: "io_table F" and P: "source_kept plat"
    and run: "fip_dev_init K plat F d prm s = Some (rc, s')"
  shows "kept MAX_IO_HANDLES s s'"
proof -
  from run obtain rc0 bd bs s0 where pl: "plat (ucast prm) (ff_backend_dev_handle s) (ff_backend_image_spec s) s = Some (rc0, bd, bs, s0)"
    by (auto simp: fip_dev_init_def bind_eq_Some_conv)
  let ?s0 = "s0\<lparr>ff_backend_dev_handle := bd, ff_backend_image_spec := bs\<rparr>"
  have k0: "kept MAX_IO_HANDLES s ?s0"
    using P pl unfolding source_kept_def by (simp; blast)
  show ?thesis
  proof (cases "rc0 = 0")
    case False
    with run pl k0 show ?thesis by (auto simp: fip_dev_init_def Let_def)
  next
    case True
    with run pl obtain rc1 h s1 where op: "io_open F bd bs 0 ?s0 = Some (rc1, h, s1)"
      by (auto simp: fip_dev_init_def bind_eq_Some_conv Let_def)
    have "kept MAX_IO_HANDLES ?s0 s'"
    proof (cases "rc1 = 0")
      case False
      with run pl op True have "s' = s1" by (auto simp: fip_dev_init_def bind_eq_Some_conv Let_def)
      with io_table.open_failed_kept [OF T op False] show ?thesis by simp
    next
      case ok: True
      with run pl op True obtain rc3 n3 s3 rc4 where rd: "io_read F h (fa_header K) sizeof_header 0 s1 = Some (rc3, n3, s3)"
        and cl: "io_close F h s3 = Some (rc4, s')"
        by (auto simp: fip_dev_init_def bind_eq_Some_conv Let_def)
      from io_table.session_kept [OF T op [unfolded ok] kept2_left [OF io_table.read_keeps [OF T rd]] cl]
      show ?thesis by simp
    qed
    with k0 show ?thesis by (rule kept_trans)
  qed
qed

lemma io_driver_fip:
  assumes "io_table F" and "source_kept plat"
  shows "io_driver (fip_dev_funcs K plat F)"
  by unfold_locales
    (auto simp: fip_dev_funcs_def fip_file_len_def fip_file_close_def fip_dev_close_def
      intro: fip_file_open_kept [OF assms(1)] fip_file_read_kept [OF assms(1)] fip_dev_init_kept [OF assms]
      intro!: kept_set_info)

section \<open>Sessions on a memory mapped backend\<close>

text \<open>
  The state of the drivers between calls: the memory mapped driver has no open file and its static
  structure is cleared.
\<close>

definition mm_idle :: "'x memmap_state_scheme \<Rightarrow> bool" where
  "mm_idle s \<longleftrightarrow> mm_in_use s = 0 \<and> mm_base s = 0 \<and> mm_file_pos s = 0 \<and> mm_size s = 0"

text \<open>A device of the memory mapped driver in the table.\<close>

definition memmap_dev :: "'x memmap_state_scheme dev_table \<Rightarrow> nat \<Rightarrow> bool" where
  "memmap_dev F d \<longleftrightarrow> d \<noteq> 0 \<and> F d = Some memmap_dev_funcs"

text \<open>A free slot of the pool is left.\<close>

definition io_free :: "'x io_state_scheme \<Rightarrow> bool" where
  "io_free s \<longleftrightarrow> (\<exists>i < MAX_IO_HANDLES. io_entity_map s ! i = None)"

lemma memmap_valid [simp]: "memmap_dev F d \<Longrightarrow> is_valid_dev F d"
  by (simp add: memmap_dev_def is_valid_dev_def memmap_dev_funcs_def)

lemma io_entity_upd [simp]: "r\<lparr>ie_info := v, ie_dev_handle := d\<rparr> = \<lparr>ie_dev_handle = d, ie_info = v\<rparr>"
  for r :: io_entity
  by (cases r) simp

lemma memmap_open:
  fixes s :: "'x memmap_state_scheme"
  assumes "wf_io s" "io_free s" "mm_in_use s = 0" "memmap_dev F d" "spec \<noteq> 0"
  obtains i where "i < MAX_IO_HANDLES" "io_entity_map s ! i = None"
    "io_open F d spec h s = Some (0, i,
       s\<lparr>io_entity_map := (io_entity_map s)[i := Some i],
         io_entity_count := io_entity_count s + 1,
         mm_in_use := 1, mm_base := block_spec_offset (io_mem s) spec, mm_file_pos := 0,
         mm_size := block_spec_length (io_mem s) spec,
         io_entity_pool := (io_entity_pool s)[i := \<lparr>ie_dev_handle = d, ie_info = MEMMAP_FILE\<rparr>]\<rparr>)"
  using assms(1)
proof (cases rule: allocate_entity_cases)
  case full
  with assms(2) show ?thesis by (auto simp: io_free_def io_used_def)
next
  case (allocated i)
  have "i < length (io_entity_pool s)"
    using allocated(2) assms(1) by (simp add: wf_io_def)
  with allocated assms show ?thesis
    by (intro that [of i])
      (auto simp: io_open_def memmap_dev_def memmap_dev_funcs_def memmap_block_open_def set_info_def)
qed

text \<open>An open memory mapped file.\<close>

definition mm_file :: "'x memmap_state_scheme dev_table \<Rightarrow> nat \<Rightarrow> nat \<Rightarrow> 'x memmap_state_scheme \<Rightarrow> bool" where
  "mm_file F d i s \<longleftrightarrow>
     memmap_dev F d \<and> i < length (io_entity_pool s) \<and>
     io_entity_pool s ! i = \<lparr>ie_dev_handle = d, ie_info = MEMMAP_FILE\<rparr>"

lemma memmap_read:
  assumes "mm_file F d i s"
  shows "io_read F i buf len n s = Some (0, len,
    s\<lparr>io_mem := memcpy (io_mem s) buf (mm_base s + mm_file_pos s) len, mm_file_pos := mm_file_pos s + len\<rparr>)"
  using assms
  by (simp add: mm_file_def memmap_dev_def io_read_def is_valid_entity_def is_valid_dev_def entity_funcs_def
      memmap_dev_funcs_def memmap_block_read_def get_info_def)

lemma memmap_seek:
  assumes "mm_file F d i s"
  shows "io_seek F i IO_SEEK_SET off s = Some (0, s\<lparr>mm_file_pos := off\<rparr>)"
  using assms
  by (simp add: mm_file_def memmap_dev_def io_seek_def is_valid_entity_def is_valid_dev_def entity_funcs_def
      memmap_dev_funcs_def memmap_block_seek_def get_info_def is_valid_seek_mode_def)

lemma memmap_close:
  assumes "mm_file F d i s" "wf_io s" "io_used s i"
  shows "io_close F i s = Some (0,
    s\<lparr>io_entity_pool := (io_entity_pool s)[i := \<lparr>ie_dev_handle = d, ie_info = Info_Null\<rparr>],
      io_entity_map := (io_entity_map s)[i := None], io_entity_count := io_entity_count s - 1,
      mm_in_use := 0, mm_base := 0, mm_file_pos := 0, mm_size := 0\<rparr>)"
proof -
  let ?s = "(set_info i Info_Null s)\<lparr>mm_in_use := 0, mm_base := 0, mm_file_pos := 0, mm_size := 0\<rparr>"
  have "wf_io ?s" "io_used ?s i"
    using assms(2,3) by (simp_all add: wf_io_def io_used_def)
  from free_entity_used [OF this] assms(1) show ?thesis
    by (simp add: mm_file_def memmap_dev_def io_close_def is_valid_entity_def is_valid_dev_def entity_funcs_def
        memmap_dev_funcs_def memmap_block_close_def set_info_def)
qed

section \<open>The table of contents\<close>

text \<open>
  The specification of a table of contents in memory: entries with a UUID, an offset and a size, one
  after the other, and then an entry with the null UUID.
\<close>

record fip_entry =
  fe_uuid :: "u8 list"
  fe_offset :: u64
  fe_size :: u64

fun toc_at :: "mem \<Rightarrow> u64 \<Rightarrow> fip_entry list \<Rightarrow> bool" where
  "toc_at m a [] \<longleftrightarrow> entry_uuid m a = uuid_null"
| "toc_at m a (e # es) \<longleftrightarrow>
     entry_uuid m a = fe_uuid e \<and> fe_uuid e \<noteq> uuid_null \<and>
     entry_offset_address m a = fe_offset e \<and> entry_size m a = fe_size e \<and>
     toc_at m (a + sizeof_entry) es"

text \<open>The position of the first entry with a UUID, the number of entries if there is none.\<close>

definition toc_index :: "u8 list \<Rightarrow> fip_entry list \<Rightarrow> nat" where
  "toc_index u es = length (takeWhile (\<lambda>e. fe_uuid e \<noteq> u) es)"

text \<open>The ranges of \<open>n\<close> bytes at \<open>a\<close> and of \<open>k\<close> bytes at \<open>b\<close> have no byte in common.\<close>

definition disjoint_range :: "u64 \<Rightarrow> nat \<Rightarrow> u64 \<Rightarrow> u64 \<Rightarrow> bool" where
  "disjoint_range a n b k \<longleftrightarrow> (\<forall>i < n. \<not> in_range b k (a + of_nat i))"

lemma disjoint_range_sub:
  "disjoint_range a n b k \<Longrightarrow> i + j \<le> n \<Longrightarrow> disjoint_range (a + of_nat i) j b k"
  unfolding disjoint_range_def by (metis add.assoc add_less_mono less_le_trans nat_add_left_cancel_less of_nat_add)

lemma mem_bytes_memcpy_disjoint:
  "disjoint_range a n dst k \<Longrightarrow> mem_bytes (memcpy m dst src k) a n = mem_bytes m a n"
  by (intro mem_bytes_cong) (auto simp: disjoint_range_def memcpy_outside)

lemma memcpy_overwrite:
  assumes "disjoint_range b (unat k) dst k"
  shows "memcpy (memcpy m dst a k) dst b k = memcpy m dst b k"
proof
  fix x
  show "memcpy (memcpy m dst a k) dst b k x = memcpy m dst b k x"
  proof (cases "in_range dst k x")
    case True
    then have "unat (x - dst) < unat k" by (simp add: in_range_def word_less_nat_alt)
    then have "\<not> in_range dst k (b + of_nat (unat (x - dst)))"
      using assms unfolding disjoint_range_def by blast
    then have "\<not> in_range dst k (b + (x - dst))" by simp
    with True show ?thesis by (simp add: memcpy_def)
  qed (simp add: memcpy_def)
qed

lemma mem_bytes_memcpy_inside:
  assumes "i + n \<le> unat k"
  shows "mem_bytes (memcpy m dst src k) (dst + of_nat i) n = mem_bytes m (src + of_nat i) n"
proof (rule nth_equalityI)
  fix j assume "j < length (mem_bytes (memcpy m dst src k) (dst + of_nat i) n)"
  then have j: "j < n" by simp
  have "unat k < 2 ^ 64" using unsigned_less [of k, where ?'a = nat] by simp
  then have "unat (of_nat (i + j) :: u64) = i + j"
    using assms j by (simp add: unat_of_nat del: of_nat_add)
  then have "in_range dst k (dst + of_nat (i + j))"
    using assms j by (simp add: in_range_def word_less_nat_alt del: of_nat_add)
  then show "mem_bytes (memcpy m dst src k) (dst + of_nat i) n ! j = mem_bytes m (src + of_nat i) n ! j"
    using j by (simp add: nth_mem_bytes memcpy_def algebra_simps)
qed simp

lemma entry_memcpy_inside:
  "entry_uuid (memcpy m E a sizeof_entry) E = entry_uuid m a"
  "entry_offset_address (memcpy m E a sizeof_entry) E = entry_offset_address m a"
  "entry_size (memcpy m E a sizeof_entry) E = entry_size m a"
  using mem_bytes_memcpy_inside [of 0 16 sizeof_entry m E a] mem_bytes_memcpy_inside [of 16 8 sizeof_entry m E a]
    mem_bytes_memcpy_inside [of 24 8 sizeof_entry m E a]
  by (simp_all add: entry_uuid_def entry_offset_address_def entry_size_def mem_u64_def sizeof_entry_def)

lemma toc_at_cong:
  assumes "toc_at m a es" and "mem_bytes m' a (40 * (length es + 1)) = mem_bytes m a (40 * (length es + 1))"
  shows "toc_at m' a es"
  using assms
proof (induction es arbitrary: a)
  case Nil
  have "take 16 (mem_bytes m' a 40) = take 16 (mem_bytes m a 40)"
    using Nil.prems(2) by simp
  with Nil.prems(1) show ?case by (simp add: entry_uuid_def take_mem_bytes)
next
  case (Cons e es)
  have sub: "mem_bytes m' (a + of_nat i) n = mem_bytes m (a + of_nat i) n"
    if "i + n \<le> 40 * (length (e # es) + 1)" for i n
  proof -
    have "take n (drop i (mem_bytes m' a (40 * (length (e # es) + 1)))) =
        take n (drop i (mem_bytes m a (40 * (length (e # es) + 1))))"
      using Cons.prems(2) by simp
    moreover have "i \<le> 40 * (length (e # es) + 1)" and "n \<le> 40 * (length (e # es) + 1) - i"
      using that by simp_all
    ultimately show ?thesis
      by (simp only: drop_mem_bytes take_mem_bytes min_absorb1)
  qed
  have "mem_bytes m' (a + sizeof_entry) (40 * (length es + 1)) = mem_bytes m (a + sizeof_entry) (40 * (length es + 1))"
    using sub [of 40 "40 * (length es + 1)"] by (simp add: sizeof_entry_def)
  with Cons.IH Cons.prems(1) sub [of 0 16] sub [of 16 8] sub [of 24 8] show ?case
    by (simp add: entry_uuid_def entry_offset_address_def entry_size_def mem_u64_def)
qed

lemma disjoint_range_head: "disjoint_range a n b k \<Longrightarrow> j \<le> n \<Longrightarrow> disjoint_range a j b k"
  by (auto simp: disjoint_range_def)

lemma unat_sizeof_entry [simp]: "unat sizeof_entry = 40"
  by (simp add: sizeof_entry_def)

text \<open>The loop finds the first entry with the UUID and leaves it in the static structure.\<close>

lemma fip_toc_loop_memmap:
  assumes "mm_file F d h s" and "toc_at (io_mem s) a es" and "a = mm_base s + mm_file_pos s"
    and "disjoint_range a (40 * (length es + 1)) (fa_entry K) sizeof_entry"
    and "disjoint_range spec 16 (fa_entry K) sizeof_entry"
    and "mem_bytes (io_mem s) spec 16 = u" and "u \<noteq> uuid_null" and "k = toc_index u es"
  shows "fip_toc_loop K F h spec s = Some (0, k < length es,
    s\<lparr>io_mem := memcpy (io_mem s) (fa_entry K) (a + of_nat (40 * k)) sizeof_entry,
      mm_file_pos := mm_file_pos s + of_nat (40 * (k + 1))\<rparr>)"
  using assms
proof (induction es arbitrary: s a k)
  case Nil
  let ?m = "memcpy (io_mem s) (fa_entry K) a sizeof_entry"
  have "entry_uuid ?m (fa_entry K) = uuid_null" "mem_bytes ?m spec 16 = u"
    using Nil.prems by (simp_all add: entry_memcpy_inside mem_bytes_memcpy_disjoint)
  with Nil.prems memmap_read [OF Nil.prems(1), of "fa_entry K" sizeof_entry 0] show ?case
    by (subst fip_toc_loop.simps) (simp add: toc_index_def sizeof_entry_def)
next
  case (Cons e es)
  let ?m = "memcpy (io_mem s) (fa_entry K) a sizeof_entry"
  let ?s = "s\<lparr>io_mem := ?m, mm_file_pos := mm_file_pos s + sizeof_entry\<rparr>"
  have uuid: "entry_uuid ?m (fa_entry K) = fe_uuid e" "mem_bytes ?m spec 16 = u"
    using Cons.prems by (simp_all add: entry_memcpy_inside mem_bytes_memcpy_disjoint)
  have rd: "io_read F h (fa_entry K) sizeof_entry 0 s = Some (0, sizeof_entry, ?s)"
    using memmap_read [OF Cons.prems(1), of "fa_entry K" sizeof_entry 0] Cons.prems(3) by simp
  show ?case
  proof (cases "fe_uuid e = u")
    case True
    with rd uuid Cons.prems(8) show ?thesis
      by (subst fip_toc_loop.simps) (simp add: toc_index_def sizeof_entry_def)
  next
    case False
    have dj: "disjoint_range (a + sizeof_entry) (40 * (length es + 1)) (fa_entry K) sizeof_entry"
      using disjoint_range_sub [OF Cons.prems(4), of 40 "40 * (length es + 1)"] by (simp add: sizeof_entry_def)
    have toc: "toc_at ?m (a + sizeof_entry) es"
      using Cons.prems(2) mem_bytes_memcpy_disjoint [OF dj] by (auto intro: toc_at_cong)
    let ?k = "toc_index u es"
    have k: "k = Suc ?k" using False Cons.prems(8) by (simp add: toc_index_def)
    have fl: "mm_file F d h ?s" using Cons.prems(1) by (simp add: mm_file_def)
    have le: "?k \<le> length es" by (simp add: toc_index_def length_takeWhile_le)
    have ow: "memcpy ?m (fa_entry K) (a + sizeof_entry + of_nat (40 * ?k)) sizeof_entry =
        memcpy (io_mem s) (fa_entry K) (a + sizeof_entry + of_nat (40 * ?k)) sizeof_entry"
      using disjoint_range_sub [OF dj, of "40 * ?k" 40] le by (intro memcpy_overwrite) simp
    have "fip_toc_loop K F h spec ?s = Some (0, ?k < length es,
        ?s\<lparr>io_mem := memcpy ?m (fa_entry K) (a + sizeof_entry + of_nat (40 * ?k)) sizeof_entry,
          mm_file_pos := mm_file_pos ?s + of_nat (40 * (?k + 1))\<rparr>)"
      using Cons.IH [OF fl, of "a + sizeof_entry" ?k] toc uuid dj Cons.prems(3,5,7) by simp
    moreover have "fip_toc_loop K F h spec s = fip_toc_loop K F h spec ?s"
      using rd uuid False Cons.prems(2) by (subst fip_toc_loop.simps) simp
    ultimately show ?thesis
      using k by (simp only: ow) (simp add: sizeof_entry_def algebra_simps)
  qed
qed

section \<open>Files of a memory mapped package\<close>

text \<open>
  The driver is initialised on a package at address \<open>B\<close>, and ready when a table of contents \<open>es\<close> is
  there and neither the table nor the backend's specification overlaps the driver's static entry.
\<close>

definition fip_backend :: "'x fip_state_scheme dev_table \<Rightarrow> u64 \<Rightarrow> 'x fip_state_scheme \<Rightarrow> bool" where
  "fip_backend F B s \<longleftrightarrow>
     wf_io s \<and> mm_idle s \<and> memmap_dev F (ff_backend_dev_handle s) \<and> ff_backend_image_spec s \<noteq> 0 \<and>
     block_spec_offset (io_mem s) (ff_backend_image_spec s) = B"

definition fip_ready ::
  "fip_addrs \<Rightarrow> 'x fip_state_scheme dev_table \<Rightarrow> u64 \<Rightarrow> fip_entry list \<Rightarrow> 'x fip_state_scheme \<Rightarrow> bool"
where
  "fip_ready K F B es s \<longleftrightarrow>
     fip_backend F B s \<and>
     toc_at (io_mem s) (B + sizeof_header) es \<and>
     disjoint_range (B + sizeof_header) (40 * (length es + 1)) (fa_entry K) sizeof_entry \<and>
     disjoint_range (ff_backend_image_spec s) 16 (fa_entry K) sizeof_entry"

text \<open>What a call leaves as it was: the pool, the backend and the data of the other modules.\<close>

definition fip_same :: "'x fip_state_scheme \<Rightarrow> 'x fip_state_scheme \<Rightarrow> bool" where
  "fip_same s s' \<longleftrightarrow>
     wf_io s' \<and> mm_idle s' \<and> io_entity_map s' = io_entity_map s \<and>
     (\<forall>i. io_used s i \<longrightarrow> ie_dev_handle (io_entity_pool s' ! i) = ie_dev_handle (io_entity_pool s ! i)) \<and>
     ff_backend_dev_handle s' = ff_backend_dev_handle s \<and> ff_backend_image_spec s' = ff_backend_image_spec s \<and>
     fip_state.more s' = fip_state.more s"

text \<open>The state after the backend's file was opened.\<close>

definition mm_opened :: "nat \<Rightarrow> u64 \<Rightarrow> nat \<Rightarrow> 'x memmap_state_scheme \<Rightarrow> 'x memmap_state_scheme" where
  "mm_opened d spec i s =
     s\<lparr>io_entity_map := (io_entity_map s)[i := Some i], io_entity_count := io_entity_count s + 1,
       mm_in_use := 1, mm_base := block_spec_offset (io_mem s) spec, mm_file_pos := 0,
       mm_size := block_spec_length (io_mem s) spec,
       io_entity_pool := (io_entity_pool s)[i := \<lparr>ie_dev_handle = d, ie_info = MEMMAP_FILE\<rparr>]\<rparr>"

lemma mm_opened_facts:
  assumes "wf_io s" "i < MAX_IO_HANDLES" "io_entity_map s ! i = None" "memmap_dev F d"
  shows "mm_file F d i (mm_opened d spec i s)" "wf_io (mm_opened d spec i s)" "io_used (mm_opened d spec i s) i"
  using assms wf_io_allocated [OF assms(1-3)]
  by (auto simp: mm_opened_def mm_file_def wf_io_def io_used_def)

lemma backend_open:
  assumes "fip_backend F B s" "io_free s"
  obtains i where "i < MAX_IO_HANDLES" "io_entity_map s ! i = None"
    "io_open F (ff_backend_dev_handle s) (ff_backend_image_spec s) 0 s =
       Some (0, i, mm_opened (ff_backend_dev_handle s) (ff_backend_image_spec s) i s)"
    "mm_base (mm_opened (ff_backend_dev_handle s) (ff_backend_image_spec s) i s) = B"
proof -
  have p: "wf_io s" "mm_in_use s = 0" "memmap_dev F (ff_backend_dev_handle s)" "ff_backend_image_spec s \<noteq> 0"
    "block_spec_offset (io_mem s) (ff_backend_image_spec s) = B"
    using assms(1) by (auto simp: fip_backend_def mm_idle_def)
  from memmap_open [OF p(1) assms(2) p(2-4), where h = 0] obtain i where
    "i < MAX_IO_HANDLES" "io_entity_map s ! i = None"
    "io_open F (ff_backend_dev_handle s) (ff_backend_image_spec s) 0 s =
       Some (0, i, mm_opened (ff_backend_dev_handle s) (ff_backend_image_spec s) i s)"
    unfolding mm_opened_def by blast
  then show thesis
    by (rule that) (simp add: mm_opened_def p(5))
qed

text \<open>A state during a session with device \<open>d\<close> that started in \<open>s\<close> with handle \<open>i\<close>.\<close>

definition in_session ::
  "'x fip_state_scheme dev_table \<Rightarrow> nat \<Rightarrow> 'x fip_state_scheme \<Rightarrow> nat \<Rightarrow> 'x fip_state_scheme \<Rightarrow> bool"
where
  "in_session F d s i t \<longleftrightarrow>
     i < MAX_IO_HANDLES \<and> io_entity_map s ! i = None \<and> mm_file F d i t \<and> wf_io s \<and> wf_io t \<and>
     io_entity_map t = (io_entity_map s)[i := Some i] \<and>
     (\<forall>j. io_used s j \<longrightarrow> ie_dev_handle (io_entity_pool t ! j) = ie_dev_handle (io_entity_pool s ! j)) \<and>
     ff_backend_dev_handle t = ff_backend_dev_handle s \<and> ff_backend_image_spec t = ff_backend_image_spec s \<and>
     fip_state.more t = fip_state.more s"

lemma used_neq: "io_used s j \<Longrightarrow> io_entity_map s ! i = None \<Longrightarrow> i \<noteq> j"
  by (auto simp: io_used_def)

lemma session_start:
  assumes "wf_io s" "i < MAX_IO_HANDLES" "io_entity_map s ! i = None" "memmap_dev F d"
  shows "in_session F d s i (mm_opened d spec i s)"
  using assms mm_opened_facts [OF assms] used_neq [OF _ assms(3)]
  by (simp add: in_session_def) (simp add: mm_opened_def)

lemma session_upd [simp]:
  "in_session F d s i (t\<lparr>io_mem := m\<rparr>) = in_session F d s i t"
  "in_session F d s i (t\<lparr>mm_file_pos := p\<rparr>) = in_session F d s i t"
  "in_session F d s i (t\<lparr>ff_file_pos := q\<rparr>) = in_session F d s i t"
  by (auto simp: in_session_def mm_file_def wf_io_def)

lemma session_set_info:
  assumes "in_session F d s i t" and "io_used s e"
  shows "in_session F d s i (set_info e v t)"
proof -
  from assms have "e \<noteq> i" by (auto simp: in_session_def io_used_def)
  with assms show ?thesis
    by (auto simp: in_session_def mm_file_def wf_io_def set_info_def nth_list_update io_used_def)
qed

lemma session_close:
  assumes "in_session F d s i t"
  obtains t' where "io_close F i t = Some (0, t')" "fip_same s t'" "io_mem t' = io_mem t"
    "ff_file_pos t' = ff_file_pos t" "\<And>j. io_used s j \<Longrightarrow> io_entity_pool t' ! j = io_entity_pool t ! j"
proof -
  have i: "i < MAX_IO_HANDLES" "io_entity_map s ! i = None" "mm_file F d i t"
    "wf_io t" "wf_io s" "io_entity_map t = (io_entity_map s)[i := Some i]"
    using assms by (auto simp: in_session_def)
  have u: "io_used t i" using i by (simp add: io_used_def wf_io_def)
  let ?t = "t\<lparr>io_entity_pool := (io_entity_pool t)[i := \<lparr>ie_dev_handle = d, ie_info = Info_Null\<rparr>],
      io_entity_map := (io_entity_map t)[i := None], io_entity_count := io_entity_count t - 1,
      mm_in_use := 0, mm_base := 0, mm_file_pos := 0, mm_size := 0\<rparr>"
  have cl: "io_close F i t = Some (0, ?t)"
    by (rule memmap_close [OF i(3,4) u])
  have "wf_io ?t"
    using wf_io_freed [OF i(4) u] by (simp add: wf_io_def)
  moreover have "io_entity_map ?t = io_entity_map s"
    using i(2,6) by simp (metis list_update_id)
  ultimately show thesis
    using assms used_neq [OF _ i(2)] by (intro that [OF cl]) (simp_all add: fip_same_def mm_idle_def in_session_def)
qed

lemma fip_file_open_memmap:
  assumes rdy: "fip_ready K F B es s" and free: "io_free s" and used: "io_used s e"
    and z: "entry_offset_address (io_mem s) (fa_entry K) = 0"
    and spec: "spec \<noteq> 0" "disjoint_range spec 16 (fa_entry K) sizeof_entry"
    and u: "mem_bytes (io_mem s) spec 16 = u" "u \<noteq> uuid_null" and k: "k = toc_index u es"
  defines "m \<equiv> memcpy (io_mem s) (fa_entry K) (B + sizeof_header + of_nat (40 * k)) sizeof_entry"
  obtains s' where "fip_same s s'"
    "fip_file_open K F dev spec e s = Some (if k < length es then 0 else - ENOENT, s')"
    "io_mem s' = (if k < length es then m else mem_write m (fa_entry K + 16) (replicate 8 0))"
    "k < length es \<Longrightarrow> get_info e s' = FIP_FILE \<and> ff_file_pos s' = 0"
proof -
  have bk: "fip_backend F B s" using rdy by (simp add: fip_ready_def)
  from backend_open [OF bk free] obtain i where i: "i < MAX_IO_HANDLES" "io_entity_map s ! i = None"
    "io_open F (ff_backend_dev_handle s) (ff_backend_image_spec s) 0 s =
       Some (0, i, mm_opened (ff_backend_dev_handle s) (ff_backend_image_spec s) i s)"
    "mm_base (mm_opened (ff_backend_dev_handle s) (ff_backend_image_spec s) i s) = B" .
  define s1 where "s1 = mm_opened (ff_backend_dev_handle s) (ff_backend_image_spec s) i s"
  have ses: "in_session F (ff_backend_dev_handle s) s i s1"
    unfolding s1_def using bk i(1,2) by (intro session_start) (auto simp: fip_backend_def)
  have m1: "io_mem s1 = io_mem s" by (simp add: s1_def mm_opened_def)
  have sk: "io_seek F i IO_SEEK_SET sizeof_header s1 = Some (0, s1\<lparr>mm_file_pos := sizeof_header\<rparr>)"
    using ses memmap_seek by (auto simp: in_session_def)
  let ?s3 = "s1\<lparr>mm_file_pos := sizeof_header + of_nat (40 * (k + 1)), io_mem := m\<rparr>"
  have base: "mm_base s1 = B" using i(4) by (simp add: s1_def)
  have fl: "mm_file F (ff_backend_dev_handle s) i (s1\<lparr>mm_file_pos := sizeof_header\<rparr>)"
    using ses by (simp add: in_session_def mm_file_def)
  have dj: "disjoint_range (B + sizeof_header) (40 * (length es + 1)) (fa_entry K) sizeof_entry"
    and toc: "toc_at (io_mem s) (B + sizeof_header) es"
    using rdy by (simp_all add: fip_ready_def)
  have loop: "fip_toc_loop K F i spec (s1\<lparr>mm_file_pos := sizeof_header\<rparr>) = Some (0, k < length es, ?s3)"
    by (subst fip_toc_loop_memmap [OF fl, of "B + sizeof_header" es K spec u k])
      (use toc dj spec(2) u k in \<open>simp_all add: base m1 m_def\<close>)
  show thesis
  proof (cases "k < length es")
    case True
    have "in_session F (ff_backend_dev_handle s) s i (set_info e FIP_FILE (?s3\<lparr>ff_file_pos := 0\<rparr>))"
      by (rule session_set_info) (use ses used in simp_all)
    then obtain t where t: "io_close F i (set_info e FIP_FILE (?s3\<lparr>ff_file_pos := 0\<rparr>)) = Some (0, t)" "fip_same s t"
      "io_mem t = io_mem (set_info e FIP_FILE (?s3\<lparr>ff_file_pos := 0\<rparr>))"
      "ff_file_pos t = ff_file_pos (set_info e FIP_FILE (?s3\<lparr>ff_file_pos := 0\<rparr>))"
      "\<And>j. io_used s j \<Longrightarrow> io_entity_pool t ! j = io_entity_pool (set_info e FIP_FILE (?s3\<lparr>ff_file_pos := 0\<rparr>)) ! j"
      by (rule session_close) blast
    have "e < length (io_entity_pool s1)"
      using ses used by (simp add: in_session_def wf_io_def io_used_def)
    then have "get_info e t = FIP_FILE"
      using t(5) [OF used] by (simp add: get_info_def set_info_def)
    moreover have "fip_file_open K F dev spec e s = Some (0, t)"
      using True i(3) [folded s1_def] sk loop z spec(1) t(1) by (simp add: fip_file_open_def)
    moreover have "io_mem t = m" "ff_file_pos t = 0"
      using t(3,4) by (simp_all add: set_info_def)
    ultimately show thesis
      using True t(2) by (intro that [of t]) simp_all
  next
    case False
    have "in_session F (ff_backend_dev_handle s) s i (?s3\<lparr>io_mem := mem_write m (fa_entry K + 16) (replicate 8 0)\<rparr>)"
      using ses by simp
    then obtain t where t: "io_close F i (?s3\<lparr>io_mem := mem_write m (fa_entry K + 16) (replicate 8 0)\<rparr>) = Some (0, t)"
      "fip_same s t" "io_mem t = io_mem (?s3\<lparr>io_mem := mem_write m (fa_entry K + 16) (replicate 8 0)\<rparr>)"
      by (rule session_close) blast
    have "fip_file_open K F dev spec e s = Some (- ENOENT, t)"
      using False i(3) [folded s1_def] sk loop z spec(1) t(1) by (simp add: fip_file_open_def)
    with t(2,3) False show thesis
      by (intro that [of t]) simp_all
  qed
qed

lemma fip_backend_same:
  assumes "fip_backend F B s" "fip_same s s'"
    and "mem_bytes (io_mem s') (ff_backend_image_spec s) 8 = mem_bytes (io_mem s) (ff_backend_image_spec s) 8"
  shows "fip_backend F B s'"
  using assms by (auto simp: fip_backend_def fip_same_def block_spec_offset_def mem_u64_def)

lemma fip_file_read_memmap:
  assumes bk: "fip_backend F B s" and free: "io_free s" and used: "io_used s e" and inf: "get_info e s = FIP_FILE"
  obtains s' where "fip_file_read K F e buf len n s = Some (0, len, s')" "fip_same s s'"
    "io_mem s' = memcpy (io_mem s) buf (B + (entry_offset_address (io_mem s) (fa_entry K) + ucast (ff_file_pos s))) len"
    "ff_file_pos s' = ff_file_pos s + ucast len" "get_info e s' = FIP_FILE"
proof -
  from backend_open [OF bk free] obtain i where i: "i < MAX_IO_HANDLES" "io_entity_map s ! i = None"
    "io_open F (ff_backend_dev_handle s) (ff_backend_image_spec s) 0 s =
       Some (0, i, mm_opened (ff_backend_dev_handle s) (ff_backend_image_spec s) i s)"
    "mm_base (mm_opened (ff_backend_dev_handle s) (ff_backend_image_spec s) i s) = B" .
  define s1 where "s1 = mm_opened (ff_backend_dev_handle s) (ff_backend_image_spec s) i s"
  have ses: "in_session F (ff_backend_dev_handle s) s i s1"
    unfolding s1_def using bk i(1,2) by (intro session_start) (auto simp: fip_backend_def)
  have s1: "io_mem s1 = io_mem s" "ff_file_pos s1 = ff_file_pos s" "mm_base s1 = B"
    using i(4) by (simp_all add: s1_def mm_opened_def)
  define off where "off = entry_offset_address (io_mem s) (fa_entry K) + ucast (ff_file_pos s)"
  define m where "m = memcpy (io_mem s) buf (B + off) len"
  let ?s2 = "s1\<lparr>mm_file_pos := off\<rparr>"
  let ?s3 = "?s2\<lparr>io_mem := m, mm_file_pos := off + len\<rparr>"
  let ?s4 = "?s3\<lparr>ff_file_pos := ff_file_pos s + ucast len\<rparr>"
  have sk: "io_seek F i IO_SEEK_SET off s1 = Some (0, ?s2)"
    using ses memmap_seek by (auto simp: in_session_def)
  have fl: "mm_file F (ff_backend_dev_handle s) i ?s2"
    using ses by (simp add: in_session_def mm_file_def)
  have rd: "io_read F i buf len 0 ?s2 = Some (0, len, ?s3)"
    using memmap_read [OF fl, of buf len 0] by (simp add: s1 m_def)
  have "in_session F (ff_backend_dev_handle s) s i ?s4" using ses by simp
  then obtain t where t: "io_close F i ?s4 = Some (0, t)" "fip_same s t" "io_mem t = io_mem ?s4"
    "ff_file_pos t = ff_file_pos ?s4" "\<And>j. io_used s j \<Longrightarrow> io_entity_pool t ! j = io_entity_pool ?s4 ! j"
    by (rule session_close) blast
  have "fip_file_read K F e buf len n s = Some (0, len, t)"
    using inf i(3) [folded s1_def] sk rd t(1) by (simp add: fip_file_read_def s1 off_def [symmetric])
  moreover have "io_entity_pool s1 ! e = io_entity_pool s ! e"
    using used_neq [OF used i(2)] by (simp add: s1_def mm_opened_def)
  then have "get_info e t = FIP_FILE"
    using t(5) [OF used] inf by (simp add: get_info_def)
  ultimately show thesis
    using t(2-4) by (intro that [of t]) (simp_all add: m_def off_def)
qed

text \<open>The initialisation of the device on a package with a valid header.\<close>

lemma backend_header_read:
  assumes bk: "fip_backend F B s" and free: "io_free s"
  obtains i s1 s2 where "io_open F (ff_backend_dev_handle s) (ff_backend_image_spec s) 0 s = Some (0, i, s1)"
    "io_read F i buf len 0 s1 = Some (0, len, s2)" "io_mem s2 = memcpy (io_mem s) buf B len"
    "in_session F (ff_backend_dev_handle s) s i s2" "ff_file_pos s2 = ff_file_pos s"
proof -
  from backend_open [OF bk free] obtain i where i: "i < MAX_IO_HANDLES" "io_entity_map s ! i = None"
    "io_open F (ff_backend_dev_handle s) (ff_backend_image_spec s) 0 s =
       Some (0, i, mm_opened (ff_backend_dev_handle s) (ff_backend_image_spec s) i s)"
    "mm_base (mm_opened (ff_backend_dev_handle s) (ff_backend_image_spec s) i s) = B" .
  define s1 where "s1 = mm_opened (ff_backend_dev_handle s) (ff_backend_image_spec s) i s"
  have ses: "in_session F (ff_backend_dev_handle s) s i s1"
    unfolding s1_def using bk i(1,2) by (intro session_start) (auto simp: fip_backend_def)
  have s1: "io_mem s1 = io_mem s" "ff_file_pos s1 = ff_file_pos s" "mm_base s1 = B" "mm_file_pos s1 = 0"
    using i(4) by (simp_all add: s1_def mm_opened_def)
  have fl: "mm_file F (ff_backend_dev_handle s) i s1"
    using ses by (simp add: in_session_def)
  show thesis
    by (rule that [OF i(3) [folded s1_def] memmap_read [OF fl]]) (use ses in \<open>simp_all add: s1\<close>)
qed

end
