(* ===== verification/Marvell_Io.thy ===== *)
theory Marvell_Io
  imports Io_Fip
begin

text \<open>
  The storage policy of the Marvell platforms (\<open>plat/marvell/common/marvell_io_storage.c\<close>): the package is
  a memory mapped file at a fixed address, and every other image is a file of the package. The
  addresses of the static structures are a parameter; the structures themselves are in memory.
\<close>

section \<open>Data\<close>

record marvell_addrs =
  ma_memmap_dev :: nat
  ma_fip_dev :: nat
  ma_fip_block_spec :: u64
  ma_bl2_uuid_spec :: u64
  ma_scp_bl2_uuid_spec :: u64
  ma_bl31_uuid_spec :: u64
  ma_bl32_uuid_spec :: u64
  ma_bl33_uuid_spec :: u64
  ma_fip :: fip_addrs

record marvell_state = fip_state +
  ms_fip_dev_handle :: nat
  ms_memmap_dev_handle :: nat

definition FIP_IMAGE_ID :: u32 where "FIP_IMAGE_ID = 0"
definition BL2_IMAGE_ID :: u32 where "BL2_IMAGE_ID = 1"
definition SCP_BL2_IMAGE_ID :: u32 where "SCP_BL2_IMAGE_ID = 2"
definition BL31_IMAGE_ID :: u32 where "BL31_IMAGE_ID = 3"
definition BL32_IMAGE_ID :: u32 where "BL32_IMAGE_ID = 4"
definition BL33_IMAGE_ID :: u32 where "BL33_IMAGE_ID = 5"

text \<open>
  A policy names the variable that holds the device handle, the specification of the image and the
  check, which is \<open>open_memmap\<close> or \<open>open_fip\<close>.
\<close>

datatype policy_dev = MEMMAP_DEV_HANDLE | FIP_DEV_HANDLE
datatype policy_check = OPEN_MEMMAP | OPEN_FIP

record plat_io_policy =
  pp_dev_handle :: policy_dev
  pp_image_spec :: u64
  pp_check :: policy_check

definition fip_policy :: "u64 \<Rightarrow> plat_io_policy" where
  "fip_policy spec = \<lparr>pp_dev_handle = FIP_DEV_HANDLE, pp_image_spec = spec, pp_check = OPEN_FIP\<rparr>"

text \<open>The array is indexed by the image id.\<close>

definition policies :: "marvell_addrs \<Rightarrow> plat_io_policy list" where
  "policies A =
     [\<lparr>pp_dev_handle = MEMMAP_DEV_HANDLE, pp_image_spec = ma_fip_block_spec A, pp_check = OPEN_MEMMAP\<rparr>,
      fip_policy (ma_bl2_uuid_spec A),
      fip_policy (ma_scp_bl2_uuid_spec A),
      fip_policy (ma_bl31_uuid_spec A),
      fip_policy (ma_bl32_uuid_spec A),
      fip_policy (ma_bl33_uuid_spec A)]"

section \<open>Operations\<close>

text \<open>The common body of the two checks: initialise the device and try to open the image.\<close>

definition try_open ::
  "'x marvell_state_scheme dev_table \<Rightarrow> nat \<Rightarrow> u64 \<Rightarrow> u64 \<Rightarrow> 'x marvell_state_scheme \<Rightarrow>
   (int \<times> 'x marvell_state_scheme) option"
where
  "try_open F dev_handle init_params spec s =
     do { (result, s) \<leftarrow> io_dev_init F dev_handle init_params s;
          if result \<noteq> 0 then Some (result, s) else do {
          (result, local_image_handle, s) \<leftarrow> io_open F dev_handle spec 0 s;
          if result \<noteq> 0 then Some (result, s) else do {
          (_, s) \<leftarrow> io_close F local_image_handle s;
          Some (result, s) } } }"

definition open_fip ::
  "'x marvell_state_scheme dev_table \<Rightarrow> u64 \<Rightarrow> 'x marvell_state_scheme \<Rightarrow> (int \<times> 'x marvell_state_scheme) option"
where
  "open_fip F spec s = try_open F (ms_fip_dev_handle s) (ucast FIP_IMAGE_ID) spec s"

definition open_memmap ::
  "'x marvell_state_scheme dev_table \<Rightarrow> u64 \<Rightarrow> 'x marvell_state_scheme \<Rightarrow> (int \<times> 'x marvell_state_scheme) option"
where
  "open_memmap F spec s = try_open F (ms_memmap_dev_handle s) 0 spec s"

definition plat_marvell_get_alt_image_source ::
  "u32 \<Rightarrow> nat \<Rightarrow> u64 \<Rightarrow> 's \<Rightarrow> (int \<times> nat \<times> u64 \<times> 's) option"
where
  "plat_marvell_get_alt_image_source image_id dev_handle image_spec s =
     Some (- ENOENT, dev_handle, image_spec, s)"

definition plat_get_image_source ::
  "marvell_addrs \<Rightarrow> 'x marvell_state_scheme dev_table \<Rightarrow> 'x marvell_state_scheme image_source"
where
  "plat_get_image_source A F image_id dev_handle image_spec s =
     do { assert_c (unat image_id < length (policies A));
          let policy = policies A ! unat image_id;
          (result, s) \<leftarrow> (case pp_check policy of
             OPEN_MEMMAP \<Rightarrow> open_memmap F (pp_image_spec policy) s
           | OPEN_FIP \<Rightarrow> open_fip F (pp_image_spec policy) s);
          if result = 0 then
            Some (0, (case pp_dev_handle policy of
                        MEMMAP_DEV_HANDLE \<Rightarrow> ms_memmap_dev_handle s
                      | FIP_DEV_HANDLE \<Rightarrow> ms_fip_dev_handle s), pp_image_spec policy, s)
          else plat_marvell_get_alt_image_source image_id dev_handle image_spec s }"

text \<open>
  The devices of the platform. The package driver asks the policy for the package itself, which is a
  file of the memory mapped device, so its own table holds only that device.
\<close>

definition marvell_backends :: "marvell_addrs \<Rightarrow> 'x marvell_state_scheme dev_table" where
  "marvell_backends A = (\<lambda>d. if d = ma_memmap_dev A then Some memmap_dev_funcs else None)"

definition marvell_devices :: "marvell_addrs \<Rightarrow> 'x marvell_state_scheme dev_table" where
  "marvell_devices A =
     (marvell_backends A)(ma_fip_dev A :=
        Some (fip_dev_funcs (ma_fip A) (plat_get_image_source A (marvell_backends A)) (marvell_backends A)))"

definition marvell_io_setup ::
  "marvell_addrs \<Rightarrow> 'x marvell_state_scheme \<Rightarrow> 'x marvell_state_scheme option"
where
  "marvell_io_setup A s =
     do { (io_result, con, s) \<leftarrow> register_io_dev_fip (ma_fip_dev A) s;
          assert_c (io_result = 0);
          fip_dev_con \<leftarrow> con;
          (io_result, con, s) \<leftarrow> register_io_dev_memmap (ma_memmap_dev A) s;
          assert_c (io_result = 0);
          memmap_dev_con \<leftarrow> con;
          (io_result, h, s) \<leftarrow> io_dev_open fip_dev_con 0 s;
          let s = s\<lparr>ms_fip_dev_handle := h\<rparr>;
          assert_c (io_result = 0);
          (io_result, h, s) \<leftarrow> io_dev_open memmap_dev_con 0 s;
          let s = s\<lparr>ms_memmap_dev_handle := h\<rparr>;
          assert_c (io_result = 0);
          Some s }"

definition marvell_io_is_toc_valid ::
  "'x marvell_state_scheme dev_table \<Rightarrow> 'x marvell_state_scheme \<Rightarrow> (bool \<times> 'x marvell_state_scheme) option"
where
  "marvell_io_is_toc_valid F s =
     do { (result, s) \<leftarrow> io_dev_init F (ms_fip_dev_handle s) (ucast FIP_IMAGE_ID) s;
          Some (result = 0, s) }"

section \<open>The devices keep the contract\<close>

lemma backends_table: "io_table (marvell_backends A)"
  by (rule io_table.intro) (auto simp: marvell_backends_def io_driver_memmap split: if_splits)

interpretation mb: io_table "marvell_backends A" for A
  by (rule backends_table)

context io_table
begin

lemma try_session_kept:
  assumes "io_open F d spec h s = Some (0, h', s1)" and "io_close F h' s1 = Some (rc, s2)"
  shows "kept e s s2"
  by (rule session_kept [OF assms(1) _ assms(2)]) (simp add: kept2_left)

end

lemma try_open_kept:
  assumes T: "io_table F" and run: "try_open F d prm spec s = Some (rc, s')"
  shows "kept MAX_IO_HANDLES s s'"
proof -
  from run obtain rc1 s1 where ini: "io_dev_init F d prm s = Some (rc1, s1)"
    by (auto simp: try_open_def bind_eq_Some_conv)
  have k1: "kept MAX_IO_HANDLES s s1" by (rule io_table.dev_init_keeps [OF T ini])
  show ?thesis
  proof (cases "rc1 = 0")
    case False
    with run ini k1 show ?thesis by (simp add: try_open_def)
  next
    case True
    with run ini obtain rc2 h s2 where op: "io_open F d spec 0 s1 = Some (rc2, h, s2)"
      by (auto simp: try_open_def bind_eq_Some_conv)
    show ?thesis
    proof (cases "rc2 = 0")
      case False
      with run ini op True have "s' = s2" by (simp add: try_open_def)
      with kept_trans [OF k1 io_table.open_failed_kept [OF T op False]] show ?thesis by simp
    next
      case ok: True
      with run ini op True obtain rc3 where "io_close F h s2 = Some (rc3, s')"
        by (auto simp: try_open_def bind_eq_Some_conv)
      from kept_trans [OF k1 io_table.try_session_kept [OF T op [unfolded ok] this]] show ?thesis .
    qed
  qed
qed

lemma plat_get_image_source_kept:
  assumes "io_table F"
  shows "source_kept (plat_get_image_source A F)"
  unfolding source_kept_def
proof (intro allI impI)
  fix i d q s rc d' q' s'
  assume run: "plat_get_image_source A F i d q s = Some (rc, d', q', s')"
  let ?p = "policies A ! unat i"
  from run obtain dev prm rc1 where "try_open F dev prm (pp_image_spec ?p) s = Some (rc1, s')"
    by (cases "pp_check ?p")
      (auto simp: plat_get_image_source_def Let_def open_memmap_def open_fip_def bind_eq_Some_conv
        plat_marvell_get_alt_image_source_def split: if_splits)
  then show "kept MAX_IO_HANDLES s s'" by (rule try_open_kept [OF assms])
qed

lemma devices_table: "io_table (marvell_devices A)"
proof (rule io_table.intro)
  fix d and funcs :: "'a marvell_state_scheme io_dev_funcs"
  assume *: "marvell_devices A d = Some funcs"
  show "io_driver funcs"
  proof (cases "d = ma_fip_dev A")
    case True
    with * have "funcs = fip_dev_funcs (ma_fip A) (plat_get_image_source A (marvell_backends A)) (marvell_backends A)"
      by (simp only: marvell_devices_def fun_upd_same option.inject)
    then show ?thesis
      by (simp only: io_driver_fip [OF backends_table plat_get_image_source_kept [OF backends_table]])
  next
    case False
    with * have "marvell_backends A d = Some funcs"
      by (simp only: marvell_devices_def fun_upd_other not_False_eq_True)
    then show ?thesis by (rule mb.drivers)
  qed
qed

interpretation md: io_table "marvell_devices A" for A
  by (rule devices_table)

section \<open>Clients of the storage layer\<close>

text \<open>
  A client opens images with the handles it gets, uses them while they are open and closes them, in any
  order, and asks the platform for images.
\<close>

inductive io_client :: "marvell_addrs \<Rightarrow> 'x marvell_state_scheme \<Rightarrow> 'x marvell_state_scheme \<Rightarrow> bool"
for A where
  io_client_source: "plat_get_image_source A (marvell_devices A) i d q s = Some r \<Longrightarrow> io_client A s (snd (snd (snd r)))"
| io_client_open: "io_open (marvell_devices A) d spec h s = Some r \<Longrightarrow> io_client A s (snd (snd r))"
| io_client_seek: "io_used s h \<Longrightarrow> io_seek (marvell_devices A) h mode off s = Some r \<Longrightarrow> io_client A s (snd r)"
| io_client_size: "io_used s h \<Longrightarrow> io_size (marvell_devices A) h n s = Some r \<Longrightarrow> io_client A s (snd (snd r))"
| io_client_read: "io_used s h \<Longrightarrow> io_read (marvell_devices A) h b len n s = Some r \<Longrightarrow> io_client A s (snd (snd r))"
| io_client_write: "io_used s h \<Longrightarrow> io_write (marvell_devices A) h b len n s = Some r \<Longrightarrow> io_client A s (snd (snd r))"
| io_client_close: "io_used s h \<Longrightarrow> io_close (marvell_devices A) h s = Some r \<Longrightarrow> io_client A s (snd r)"
| io_client_init: "io_dev_init (marvell_devices A) d prm s = Some r \<Longrightarrow> io_client A s (snd r)"
| io_client_dev_close: "io_dev_close (marvell_devices A) d s = Some r \<Longrightarrow> io_client A s (snd r)"

lemma keptD: "kept e s s' \<Longrightarrow> wf_io s \<Longrightarrow> wf_io s'"
  by (simp add: kept_def)

lemma source_keptD: "source_kept plat \<Longrightarrow> plat i d q s = Some (rc, d', q', s') \<Longrightarrow> kept MAX_IO_HANDLES s s'"
  unfolding source_kept_def by blast

lemma io_client_wf: "io_client A s s' \<Longrightarrow> wf_io s \<Longrightarrow> wf_io s'"
proof (induction rule: io_client.induct)
  case (io_client_source i d q s r)
  then show ?case
    by (cases r) (auto dest: source_keptD [OF plat_get_image_source_kept [OF devices_table]] keptD)
next
  case (io_client_open d spec h s r)
  then show ?case by (cases r) (auto dest!: md.opened split: if_splits)
next
  case (io_client_seek s h mode off r)
  then show ?case by (cases r) (auto dest: md.seek_keeps keptD)
next
  case (io_client_size s h n r)
  then show ?case by (cases r) (auto dest: md.size_keeps keptD)
next
  case (io_client_read s h b len n r)
  then show ?case by (cases r) (auto dest: md.read_keeps keptD)
next
  case (io_client_write s h b len n r)
  then show ?case by (cases r) (auto dest: md.write_keeps keptD)
next
  case (io_client_close s h r)
  then show ?case by (cases r) (auto dest: md.closed)
next
  case (io_client_init d prm s r)
  then show ?case by (cases r) (auto dest: md.dev_init_keeps keptD)
next
  case (io_client_dev_close d s r)
  then show ?case by (cases r) (auto dest: md.dev_close_keeps keptD)
qed

text \<open>The pool after \<open>.bss\<close> was cleared.\<close>

definition io_reset :: "'x io_state_scheme \<Rightarrow> bool" where
  "io_reset s \<longleftrightarrow>
     io_entity_pool s = replicate MAX_IO_HANDLES \<lparr>ie_dev_handle = 0, ie_info = Info_Null\<rparr> \<and>
     io_entity_map s = replicate MAX_IO_HANDLES None \<and> io_entity_count s = 0"

lemma io_reset_wf: "io_reset s \<Longrightarrow> wf_io s"
  by (simp add: io_reset_def wf_io_def used_count_def)

interpretation io_machine: state_machine io_reset "io_client A" wf_io for A
  by unfold_locales (auto intro: io_reset_wf io_client_wf)

section \<open>Packages in memory\<close>

text \<open>
  The bytes that the layer reads: the header and the table of contents of the package at \<open>B\<close>, and the
  specifications of the policies.
\<close>

definition pkg_bytes :: "marvell_addrs \<Rightarrow> u64 \<Rightarrow> nat \<Rightarrow> u64 \<Rightarrow> bool" where
  "pkg_bytes A B n a \<longleftrightarrow>
     in_range B (of_nat (16 + 40 * (n + 1))) a \<or> (\<exists>p \<in> set (policies A). in_range (pp_image_spec p) 16 a)"

text \<open>The addresses are in order: the two buffers of the package driver overlap nothing.\<close>

definition pkg_addrs :: "marvell_addrs \<Rightarrow> u64 \<Rightarrow> nat \<Rightarrow> bool" where
  "pkg_addrs A B n \<longleftrightarrow>
     ma_memmap_dev A \<noteq> 0 \<and> ma_fip_dev A \<noteq> 0 \<and> ma_memmap_dev A \<noteq> ma_fip_dev A \<and>
     (\<forall>p \<in> set (policies A). pp_image_spec p \<noteq> 0) \<and> 16 + 40 * (n + 1) < 2 ^ 64 \<and>
     (\<forall>a. pkg_bytes A B n a \<longrightarrow> \<not> in_range (fa_entry (ma_fip A)) 40 a \<and> \<not> in_range (fa_header (ma_fip A)) 16 a) \<and>
     (\<forall>a. in_range (fa_entry (ma_fip A)) 40 a \<longrightarrow> \<not> in_range (fa_header (ma_fip A)) 16 a)"

definition pkg_at :: "marvell_addrs \<Rightarrow> u64 \<Rightarrow> fip_entry list \<Rightarrow> mem \<Rightarrow> bool" where
  "pkg_at A B es m \<longleftrightarrow>
     block_spec_offset m (ma_fip_block_spec A) = B \<and> is_valid_header m B \<and> toc_at m (B + sizeof_header) es"

lemma range_nth: "i < N \<Longrightarrow> N < 2 ^ 64 \<Longrightarrow> in_range B (of_nat N) (B + of_nat i)"
  by (simp add: in_range_def word_less_nat_alt unat_of_nat)

lemma pkg_bytes_toc:
  "16 + 40 * (n + 1) < 2 ^ 64 \<Longrightarrow> i < 16 + 40 * (n + 1) \<Longrightarrow> pkg_bytes A B n (B + of_nat i)"
  unfolding pkg_bytes_def using range_nth by blast

lemma pkg_bytes_spec: "p \<in> set (policies A) \<Longrightarrow> i < 16 \<Longrightarrow> pkg_bytes A B n (pp_image_spec p + of_nat i)"
  unfolding pkg_bytes_def using range_nth [of i 16] by auto

lemma pkg_spec_disjoint:
  assumes "pkg_addrs A B n" "p \<in> set (policies A)"
  shows "disjoint_range (pp_image_spec p) 16 (fa_entry (ma_fip A)) sizeof_entry"
  using assms pkg_bytes_spec unfolding pkg_addrs_def disjoint_range_def sizeof_entry_def by blast

lemma pkg_toc_disjoint:
  assumes "pkg_addrs A B n"
  shows "disjoint_range (B + sizeof_header) (40 * (n + 1)) (fa_entry (ma_fip A)) sizeof_entry"
  unfolding disjoint_range_def
proof (intro allI impI)
  fix i assume "i < 40 * (n + 1)"
  then have "pkg_bytes A B n (B + of_nat (16 + i))"
    using assms by (intro pkg_bytes_toc) (auto simp: pkg_addrs_def)
  then have "\<not> in_range (fa_entry (ma_fip A)) 40 (B + of_nat (16 + i))"
    using assms unfolding pkg_addrs_def by blast
  then show "\<not> in_range (fa_entry (ma_fip A)) sizeof_entry (B + sizeof_header + of_nat i)"
    by (simp add: sizeof_entry_def sizeof_header_def algebra_simps)
qed

lemma mem_bytes_sub_eq:
  assumes "\<And>i. i < n \<Longrightarrow> m' (a + of_nat i) = m (a + of_nat i)" and "j + k \<le> n"
  shows "mem_bytes m' (a + of_nat j) k = mem_bytes m (a + of_nat j) k"
proof (rule mem_bytes_cong)
  fix i assume "i < k"
  then have "m' (a + of_nat (j + i)) = m (a + of_nat (j + i))"
    using assms(2) by (intro assms(1)) simp
  then show "m' (a + of_nat j + of_nat i) = m (a + of_nat j + of_nat i)"
    by (simp add: add.assoc)
qed

lemma fip_block_spec_policy: "ma_fip_block_spec A = pp_image_spec (policies A ! 0)" "policies A ! 0 \<in> set (policies A)"
  by (simp_all add: policies_def)

text \<open>The package depends on these bytes only.\<close>

lemma pkg_at_cong:
  assumes "pkg_at A B es m" and "pkg_addrs A B (length es)"
    and same: "\<And>a. pkg_bytes A B (length es) a \<Longrightarrow> m' a = m a"
  shows "pkg_at A B es m'"
proof -
  let ?n = "16 + 40 * (length es + 1)"
  have toc: "m' (B + of_nat i) = m (B + of_nat i)" if "i < ?n" for i
    using that assms(2) by (intro same pkg_bytes_toc) (auto simp: pkg_addrs_def)
  have hd: "mem_bytes m' B 4 = mem_bytes m B 4" "mem_bytes m' (B + 4) 4 = mem_bytes m (B + 4) 4"
    and tb: "mem_bytes m' (B + sizeof_header) (40 * (length es + 1)) = mem_bytes m (B + sizeof_header) (40 * (length es + 1))"
    using mem_bytes_sub_eq [of ?n m' B m 0 4] mem_bytes_sub_eq [of ?n m' B m 4 4]
      mem_bytes_sub_eq [of ?n m' B m 16 "40 * (length es + 1)"] toc by (simp_all add: sizeof_header_def)
  have "m' (ma_fip_block_spec A + of_nat i) = m (ma_fip_block_spec A + of_nat i)" if "i < 16" for i
    unfolding fip_block_spec_policy(1) using that fip_block_spec_policy(2) by (intro same pkg_bytes_spec)
  then have "mem_bytes m' (ma_fip_block_spec A) 8 = mem_bytes m (ma_fip_block_spec A) 8"
    by (intro mem_bytes_cong) simp
  with hd tb assms(1) show ?thesis
    by (auto simp: pkg_at_def block_spec_offset_def mem_u64_def is_valid_header_def header_name_def
        header_serial_number_def mem_u32_def intro: toc_at_cong)
qed

text \<open>The platform is set up and a package with the table of contents \<open>es\<close> is at \<open>B\<close>.\<close>

definition mv_ok :: "marvell_addrs \<Rightarrow> u64 \<Rightarrow> fip_entry list \<Rightarrow> 'x marvell_state_scheme \<Rightarrow> bool" where
  "mv_ok A B es s \<longleftrightarrow>
     wf_io s \<and> mm_idle s \<and> ms_fip_dev_handle s = ma_fip_dev A \<and> ms_memmap_dev_handle s = ma_memmap_dev A \<and>
     pkg_at A B es (io_mem s)"

definition mv_same :: "'x marvell_state_scheme \<Rightarrow> 'x marvell_state_scheme \<Rightarrow> bool" where
  "mv_same s s' \<longleftrightarrow>
     wf_io s' \<and> mm_idle s' \<and> io_entity_map s' = io_entity_map s \<and> fip_state.more s' = fip_state.more s"

lemma mv_same_trans: "mv_same s t \<Longrightarrow> mv_same t u \<Longrightarrow> mv_same s u"
  by (simp add: mv_same_def)

lemma fip_same_mv: "fip_same s s' \<Longrightarrow> mv_same s s'"
  by (simp add: fip_same_def mv_same_def)

lemma ms_more:
  assumes "fip_state.more s' = fip_state.more s"
  shows "ms_fip_dev_handle s' = ms_fip_dev_handle s" "ms_memmap_dev_handle s' = ms_memmap_dev_handle s"
  using assms by (cases s; cases s'; simp)+

lemma mv_ok_same:
  assumes "mv_ok A B es s" "mv_same s s'" "pkg_at A B es (io_mem s')"
  shows "mv_ok A B es s'"
  using assms ms_more [of s' s] by (auto simp: mv_ok_def mv_same_def)

lemma memmap_touch:
  assumes "wf_io s" "io_free s" "mm_idle s" "memmap_dev F d" "spec \<noteq> 0"
  obtains i s1 s2 where "io_open F d spec 0 s = Some (0, i, s1)" "io_close F i s1 = Some (0, s2)"
    "fip_same s s2" "io_mem s2 = io_mem s" "ff_file_pos s2 = ff_file_pos s"
proof -
  have "mm_in_use s = 0" using assms(3) by (simp add: mm_idle_def)
  from memmap_open [OF assms(1,2) this assms(4,5), where h = 0] obtain i where i: "i < MAX_IO_HANDLES" "io_entity_map s ! i = None"
    "io_open F d spec 0 s = Some (0, i, mm_opened d spec i s)" unfolding mm_opened_def by blast
  from session_close [OF session_start [OF assms(1) i(1,2) assms(4)]]
  obtain t where t: "io_close F i (mm_opened d spec i s) = Some (0, t)" "fip_same s t"
    "io_mem t = io_mem (mm_opened d spec i s)" "ff_file_pos t = ff_file_pos (mm_opened d spec i s)" by metis
  show thesis
    by (rule that [OF i(3) t(1,2)]) (simp_all add: t(3,4) mm_opened_def)
qed

lemma pkg_addrsD:
  assumes "pkg_addrs A B n"
  shows "memmap_dev (marvell_backends A) (ma_memmap_dev A)" "ma_fip_block_spec A \<noteq> 0"
    "is_valid_dev (marvell_devices A) (ma_fip_dev A)" "ma_fip_dev A \<noteq> 0"
    "marvell_devices A (ma_fip_dev A) =
       Some (fip_dev_funcs (ma_fip A) (plat_get_image_source A (marvell_backends A)) (marvell_backends A))"
proof -
  have nz: "ma_memmap_dev A \<noteq> 0" "ma_fip_dev A \<noteq> 0" "\<forall>p \<in> set (policies A). pp_image_spec p \<noteq> 0"
    using assms unfolding pkg_addrs_def by auto
  then show "memmap_dev (marvell_backends A) (ma_memmap_dev A)" "ma_fip_dev A \<noteq> 0"
    by (simp_all add: memmap_dev_def marvell_backends_def)
  show "ma_fip_block_spec A \<noteq> 0"
    unfolding fip_block_spec_policy(1) using nz(3) fip_block_spec_policy(2) by blast
  show dev: "marvell_devices A (ma_fip_dev A) =
      Some (fip_dev_funcs (ma_fip A) (plat_get_image_source A (marvell_backends A)) (marvell_backends A))"
    by (simp only: marvell_devices_def fun_upd_same)
  show "is_valid_dev (marvell_devices A) (ma_fip_dev A)"
    unfolding is_valid_dev_def dev using nz(2) by (simp add: fip_dev_funcs_def)
qed

lemma backends_init:
  "ma_memmap_dev A \<noteq> 0 \<Longrightarrow> io_dev_init (marvell_backends A) (ma_memmap_dev A) prm s = Some (0, s)"
  by (simp add: io_dev_init_def marvell_backends_def is_valid_dev_def memmap_dev_funcs_def)

text \<open>The policy of the package itself.\<close>

lemma package_source:
  assumes ok: "mv_ok A B es s" and ad: "pkg_addrs A B n" and free: "io_free s"
  obtains s' where "plat_get_image_source A (marvell_backends A) 0 d q s = Some (0, ma_memmap_dev A, ma_fip_block_spec A, s')"
    "fip_same s s'" "io_mem s' = io_mem s" "ff_file_pos s' = ff_file_pos s"
proof -
  have s: "wf_io s" "mm_idle s" "ms_memmap_dev_handle s = ma_memmap_dev A"
    using ok by (auto simp: mv_ok_def)
  note dev = pkg_addrsD [OF ad]
  from memmap_touch [OF s(1) free s(2) dev(1,2)] obtain i s1 s2
    where t: "io_open (marvell_backends A) (ma_memmap_dev A) (ma_fip_block_spec A) 0 s = Some (0, i, s1)"
      "io_close (marvell_backends A) i s1 = Some (0, s2)" "fip_same s s2" "io_mem s2 = io_mem s" "ff_file_pos s2 = ff_file_pos s"
    by metis
  have "io_dev_init (marvell_backends A) (ma_memmap_dev A) 0 s = Some (0, s)"
    using ad by (intro backends_init) (simp add: pkg_addrs_def)
  with t(1,2) have "open_memmap (marvell_backends A) (ma_fip_block_spec A) s = Some (0, s2)"
    by (simp add: open_memmap_def try_open_def s(3))
  moreover have "ms_memmap_dev_handle s2 = ma_memmap_dev A"
    using t(3) s(3) ms_more(2) [of s2 s] by (simp add: fip_same_def)
  ultimately show thesis
    using t(3-5) by (intro that [of s2]) (simp_all add: plat_get_image_source_def policies_def)
qed

lemma io_free_map: "io_entity_map s' = io_entity_map s \<Longrightarrow> io_free s' = io_free s"
  by (simp add: io_free_def)

lemma header_copied: "is_valid_header (memcpy m H B sizeof_header) H = is_valid_header m B"
  using mem_bytes_memcpy_inside [of 0 4 sizeof_header m H B] mem_bytes_memcpy_inside [of 4 4 sizeof_header m H B]
  by (simp add: is_valid_header_def header_name_def header_serial_number_def mem_u32_def sizeof_header_def)

text \<open>Writing one of the driver's two buffers leaves the package alone.\<close>

lemma pkg_at_buffers:
  assumes "pkg_at A B es m" "pkg_addrs A B (length es)"
    and "\<And>a. \<not> in_range (fa_entry (ma_fip A)) 40 a \<Longrightarrow> \<not> in_range (fa_header (ma_fip A)) 16 a \<Longrightarrow> m' a = m a"
  shows "pkg_at A B es m'"
  using assms(1,2)
  by (rule pkg_at_cong) (use assms(2,3) in \<open>auto simp: pkg_addrs_def\<close>)

lemma package_init:
  assumes ok: "mv_ok A B es s" and ad: "pkg_addrs A B (length es)" and free: "io_free s"
  obtains s' where "io_dev_init (marvell_devices A) (ma_fip_dev A) 0 s = Some (0, s')"
    "mv_same s s'" "mv_ok A B es s'" "io_mem s' = memcpy (io_mem s) (fa_header (ma_fip A)) B sizeof_header"
    "ff_backend_dev_handle s' = ma_memmap_dev A" "ff_backend_image_spec s' = ma_fip_block_spec A"
proof -
  let ?K = "ma_fip A" and ?F = "marvell_backends A"
  from package_source [OF ok ad free, of "ff_backend_dev_handle s" "ff_backend_image_spec s"] obtain s0 where
    src: "plat_get_image_source A ?F 0 (ff_backend_dev_handle s) (ff_backend_image_spec s) s =
      Some (0, ma_memmap_dev A, ma_fip_block_spec A, s0)"
    and s0: "fip_same s s0" "io_mem s0 = io_mem s" by metis
  define s1 where "s1 = s0\<lparr>ff_backend_dev_handle := ma_memmap_dev A, ff_backend_image_spec := ma_fip_block_spec A\<rparr>"
  have sm1: "mv_same s s1" and m1: "io_mem s1 = io_mem s"
    using s0 by (auto simp: s1_def fip_same_def mv_same_def wf_io_def mm_idle_def)
  have pkg: "pkg_at A B es (io_mem s)" using ok by (simp add: mv_ok_def)
  have bk: "fip_backend ?F B s1"
    using sm1 m1 pkg pkg_addrsD(1,2) [OF ad] by (simp add: fip_backend_def mv_same_def pkg_at_def s1_def)
  have free1: "io_free s1" using free sm1 io_free_map [of s1 s] by (simp add: mv_same_def)
  obtain i s2 s3 where op: "io_open ?F (ff_backend_dev_handle s1) (ff_backend_image_spec s1) 0 s1 = Some (0, i, s2)"
    and rd: "io_read ?F i (fa_header ?K) sizeof_header 0 s2 = Some (0, sizeof_header, s3)"
    and s3: "io_mem s3 = memcpy (io_mem s1) (fa_header ?K) B sizeof_header" "in_session ?F (ff_backend_dev_handle s1) s1 i s3"
    using backend_header_read [OF bk free1, of "fa_header ?K" sizeof_header] by metis
  obtain t where t: "io_close ?F i s3 = Some (0, t)" "fip_same s1 t" "io_mem t = io_mem s3"
    using session_close [OF s3(2)] by metis
  have hdr: "is_valid_header (io_mem s3) (fa_header ?K)"
    using pkg by (simp add: s3(1) m1 header_copied pkg_at_def)
  have s1h: "ff_backend_dev_handle s1 = ma_memmap_dev A" "ff_backend_image_spec s1 = ma_fip_block_spec A"
    by (simp_all add: s1_def)
  have "fip_dev_init ?K (plat_get_image_source A ?F) ?F (ma_fip_dev A) 0 s = Some (0, t)"
    using src op [unfolded s1h] rd t(1) hdr by (simp add: fip_dev_init_def s1_def [symmetric])
  then have init: "io_dev_init (marvell_devices A) (ma_fip_dev A) 0 s = Some (0, t)"
    using pkg_addrsD(3,4) [OF ad] unfolding io_dev_init_def pkg_addrsD(5) [OF ad] by (simp add: fip_dev_funcs_def)
  have sm: "mv_same s t" by (rule mv_same_trans [OF sm1 fip_same_mv [OF t(2)]])
  have mt: "io_mem t = memcpy (io_mem s) (fa_header ?K) B sizeof_header"
    using t(3) s3(1) m1 by simp
  have "pkg_at A B es (io_mem t)"
    by (rule pkg_at_buffers [OF pkg ad]) (simp add: mt memcpy_outside sizeof_header_def)
  with ok sm have "mv_ok A B es t" by (rule mv_ok_same)
  then show thesis
    using t(2) by (intro that [OF init sm _ mt]) (simp_all add: fip_same_def s1h)
qed

text \<open>Two free slots: one for the file of the package and one for the backend.\<close>

definition io_free2 :: "'x io_state_scheme \<Rightarrow> bool" where
  "io_free2 s \<longleftrightarrow>
     (\<exists>i j. i < MAX_IO_HANDLES \<and> j < MAX_IO_HANDLES \<and> i \<noteq> j \<and> io_entity_map s ! i = None \<and> io_entity_map s ! j = None)"

lemma io_free2_free: "io_free2 s \<Longrightarrow> io_free s"
  by (auto simp: io_free2_def io_free_def)

lemma io_free2_allocated:
  assumes "io_free2 s" "io_entity_map s' = (io_entity_map s)[e := Some e]"
  shows "io_free s'"
  using assms unfolding io_free2_def io_free_def by (metis nth_list_update_neq)

text \<open>The driver's backend is the package.\<close>

definition pkg_backend :: "marvell_addrs \<Rightarrow> 'x marvell_state_scheme \<Rightarrow> bool" where
  "pkg_backend A s \<longleftrightarrow> ff_backend_dev_handle s = ma_memmap_dev A \<and> ff_backend_image_spec s = ma_fip_block_spec A"

lemma mv_fip_backend:
  assumes "mv_ok A B es s" "pkg_addrs A B (length es)" "pkg_backend A s"
  shows "fip_backend (marvell_backends A) B s"
  using assms pkg_addrsD(1,2) [OF assms(2)] by (simp add: mv_ok_def fip_backend_def pkg_at_def pkg_backend_def)

lemma mv_fip_ready:
  assumes "mv_ok A B es s" "pkg_addrs A B (length es)" "pkg_backend A s"
  shows "fip_ready (ma_fip A) (marvell_backends A) B es s"
proof -
  have "disjoint_range (ma_fip_block_spec A) 16 (fa_entry (ma_fip A)) sizeof_entry"
    using pkg_spec_disjoint [OF assms(2) fip_block_spec_policy(2)] fip_block_spec_policy(1) by simp
  with assms mv_fip_backend [OF assms] pkg_toc_disjoint [OF assms(2)] show ?thesis
    by (simp add: fip_ready_def mv_ok_def pkg_at_def pkg_backend_def)
qed

text \<open>An open file of the package: what its entity and the driver's static entry hold.\<close>

definition pkg_file :: "marvell_addrs \<Rightarrow> fip_entry \<Rightarrow> nat \<Rightarrow> 'x marvell_state_scheme \<Rightarrow> bool" where
  "pkg_file A x e s \<longleftrightarrow>
     io_used s e \<and> get_info e s = FIP_FILE \<and> ie_dev_handle (io_entity_pool s ! e) = ma_fip_dev A \<and>
     entry_offset_address (io_mem s) (fa_entry (ma_fip A)) = fe_offset x \<and>
     entry_size (io_mem s) (fa_entry (ma_fip A)) = fe_size x"

lemma toc_at_nth:
  "toc_at m a es \<Longrightarrow> k < length es \<Longrightarrow>
   entry_offset_address m (a + of_nat (40 * k)) = fe_offset (es ! k) \<and> entry_size m (a + of_nat (40 * k)) = fe_size (es ! k)"
proof (induction es arbitrary: a k)
  case Nil
  then show ?case by simp
next
  case (Cons x es)
  show ?case
  proof (cases k)
    case 0
    with Cons.prems show ?thesis by simp
  next
    case (Suc j)
    with Cons.prems Cons.IH [of "a + sizeof_entry" j] show ?thesis
      by (simp add: sizeof_entry_def add.assoc)
  qed
qed

lemma package_open:
  assumes ok: "mv_ok A B es s" and ad: "pkg_addrs A B (length es)" and bk: "pkg_backend A s" and free: "io_free2 s"
    and z: "entry_offset_address (io_mem s) (fa_entry (ma_fip A)) = 0"
    and p: "p \<in> set (policies A)" and u: "mem_bytes (io_mem s) (pp_image_spec p) 16 = u" "u \<noteq> uuid_null"
    and k: "k = toc_index u es" "k < length es"
  obtains e s' where "io_open (marvell_devices A) (ma_fip_dev A) (pp_image_spec p) h s = Some (0, e, s')"
    "e < MAX_IO_HANDLES" "io_entity_map s ! e = None" "io_entity_map s' = (io_entity_map s)[e := Some e]"
    "mv_ok A B es s'" "pkg_backend A s'" "pkg_file A (es ! k) e s'" "ff_file_pos s' = 0"
    "io_mem s' = memcpy (io_mem s) (fa_entry (ma_fip A)) (B + sizeof_header + of_nat (40 * k)) sizeof_entry"
    "fip_state.more s' = fip_state.more s"
proof -
  let ?K = "ma_fip A" and ?F = "marvell_backends A" and ?spec = "pp_image_spec p"
  have wf: "wf_io s" and pkg: "pkg_at A B es (io_mem s)" using ok by (auto simp: mv_ok_def)
  have spec: "?spec \<noteq> 0" using p ad by (auto simp: pkg_addrs_def)
  from wf obtain e where e: "e < MAX_IO_HANDLES" "io_entity_map s ! e = None"
    "allocate_entity s = Some (0, e, s\<lparr>io_entity_map := (io_entity_map s)[e := Some e], io_entity_count := io_entity_count s + 1\<rparr>)"
    using free by (cases rule: allocate_entity_cases) (auto simp: io_free2_def io_used_def)
  define s1 where "s1 = s\<lparr>io_entity_map := (io_entity_map s)[e := Some e], io_entity_count := io_entity_count s + 1\<rparr>"
  have wf1: "wf_io s1" unfolding s1_def by (rule wf_io_allocated [OF wf e(1,2)])
  have s1: "io_mem s1 = io_mem s" "io_entity_map s1 = (io_entity_map s)[e := Some e]" "pkg_backend A s1"
    "fip_state.more s1 = fip_state.more s" "mv_ok A B es s1"
    using ok bk wf1 by (auto simp: s1_def mv_ok_def pkg_backend_def mm_idle_def)
  have used: "io_used s1 e" using e(1) wf by (simp add: io_used_def s1(2) wf_io_def)
  obtain t where t: "fip_same s1 t" "fip_file_open ?K ?F (ma_fip_dev A) ?spec e s1 = Some (0, t)"
    "io_mem t = memcpy (io_mem s1) (fa_entry ?K) (B + sizeof_header + of_nat (40 * k)) sizeof_entry"
    "get_info e t = FIP_FILE" "ff_file_pos t = 0"
    using fip_file_open_memmap [OF mv_fip_ready [OF s1(5) ad s1(3)] io_free2_allocated [OF free s1(2)] used _ spec
        pkg_spec_disjoint [OF ad p] _ u(2) k(1), of "ma_fip_dev A"] z u(1) k(2) s1(1) by auto
  define t1 where "t1 = t\<lparr>io_entity_pool := (io_entity_pool t)[e := (io_entity_pool t ! e)\<lparr>ie_dev_handle := ma_fip_dev A\<rparr>]\<rparr>"
  have op: "io_open (marvell_devices A) (ma_fip_dev A) ?spec h s = Some (0, e, t1)"
    using pkg_addrsD(3) [OF ad] spec e(3) t(2) unfolding io_open_def pkg_addrsD(5) [OF ad]
    by (simp add: fip_dev_funcs_def s1_def [symmetric] t1_def)
  have len: "e < length (io_entity_pool t)" using t(1) e(1) by (simp add: fip_same_def wf_io_def)
  have m1: "io_mem t1 = memcpy (io_mem s) (fa_entry ?K) (B + sizeof_header + of_nat (40 * k)) sizeof_entry"
    by (simp add: t1_def t(3) s1(1))
  have pkg1: "pkg_at A B es (io_mem t1)"
    by (rule pkg_at_buffers [OF pkg ad]) (simp add: m1 memcpy_outside sizeof_entry_def)
  have "mv_ok A B es t1"
    using mv_ok_same [OF s1(5) fip_same_mv [OF t(1)]] pkg1 by (auto simp: t1_def mv_ok_def wf_io_def mm_idle_def)
  moreover have "pkg_file A (es ! k) e t1"
    using toc_at_nth [of "io_mem s" "B + sizeof_header" es k] pkg k(2) used t(1,4) len
    unfolding pkg_file_def m1 entry_memcpy_inside
    by (simp add: pkg_at_def t1_def get_info_def io_used_def fip_same_def)
  moreover have "pkg_backend A t1" "fip_state.more t1 = fip_state.more s" "io_entity_map t1 = (io_entity_map s)[e := Some e]"
    "ff_file_pos t1 = 0"
    using t(1,5) s1(2-4) by (simp_all add: t1_def fip_same_def pkg_backend_def)
  ultimately show thesis
    by (intro that [OF op e(1,2)]) (simp_all add: m1)
qed

lemma fip_entity:
  assumes "wf_io s" "pkg_addrs A B n" "io_used s e" "ie_dev_handle (io_entity_pool s ! e) = ma_fip_dev A"
  shows "is_valid_entity (marvell_devices A) e s"
    "entity_funcs (marvell_devices A) e s =
       Some (fip_dev_funcs (ma_fip A) (plat_get_image_source A (marvell_backends A)) (marvell_backends A))"
  using assms pkg_addrsD(3) [OF assms(2)]
  by (simp_all add: is_valid_entity_def entity_funcs_def pkg_addrsD(5) [OF assms(2)] wf_io_def io_used_def)

lemma package_size:
  assumes "wf_io s" "pkg_addrs A B n" "pkg_file A x e s"
  shows "io_size (marvell_devices A) e len s = Some (0, fe_size x, s)"
proof -
  from assms(3) have "io_used s e" "ie_dev_handle (io_entity_pool s ! e) = ma_fip_dev A"
    "get_info e s = FIP_FILE" "entry_size (io_mem s) (fa_entry (ma_fip A)) = fe_size x"
    by (auto simp: pkg_file_def)
  with fip_entity [OF assms(1,2)] show ?thesis
    by (simp add: io_size_def fip_dev_funcs_def fip_file_len_def)
qed

lemma package_read:
  assumes ok: "mv_ok A B es s" and ad: "pkg_addrs A B (length es)" and bk: "pkg_backend A s" and free: "io_free s"
    and fl: "pkg_file A x e s"
  obtains s' where "io_read (marvell_devices A) e buf len n s = Some (0, len, s')"
    "io_mem s' = memcpy (io_mem s) buf (B + (fe_offset x + ucast (ff_file_pos s))) len"
    "mv_same s s'" "pkg_backend A s'" "ie_dev_handle (io_entity_pool s' ! e) = ma_fip_dev A"
proof -
  from fl have f: "io_used s e" "ie_dev_handle (io_entity_pool s ! e) = ma_fip_dev A" "get_info e s = FIP_FILE"
    "entry_offset_address (io_mem s) (fa_entry (ma_fip A)) = fe_offset x"
    by (auto simp: pkg_file_def)
  have wf: "wf_io s" using ok by (simp add: mv_ok_def)
  obtain t where t: "fip_file_read (ma_fip A) (marvell_backends A) e buf len n s = Some (0, len, t)" "fip_same s t"
    "io_mem t = memcpy (io_mem s) buf (B + (entry_offset_address (io_mem s) (fa_entry (ma_fip A)) + ucast (ff_file_pos s))) len"
    using fip_file_read_memmap [OF mv_fip_backend [OF ok ad bk] free f(1,3)] by metis
  have "io_read (marvell_devices A) e buf len n s = Some (0, len, t)"
    using fip_entity [OF wf ad f(1,2)] t(1) by (simp add: io_read_def fip_dev_funcs_def)
  then show thesis
    using t(2,3) f bk by (intro that [of t]) (auto simp: fip_same_mv fip_same_def pkg_backend_def)
qed

lemma entry_cleared: "entry_offset_address (memset m E 0 sizeof_entry) E = 0"
proof -
  have "mem_bytes (memset m E 0 sizeof_entry) (E + 16) 8 = replicate 8 0"
  proof (rule nth_equalityI)
    fix i assume "i < length (mem_bytes (memset m E 0 sizeof_entry) (E + 16) 8)"
    then have i: "i < 8" by simp
    then have "unat (of_nat (16 + i) :: u64) = 16 + i" by (simp add: unat_of_nat del: of_nat_add)
    then have "in_range E sizeof_entry (E + of_nat (16 + i))"
      using i by (simp add: in_range_def word_less_nat_alt del: of_nat_add)
    with i show "mem_bytes (memset m E 0 sizeof_entry) (E + 16) 8 ! i = replicate 8 0 ! i"
      by (simp add: nth_mem_bytes memset_def add.assoc)
  qed simp
  then show ?thesis
    unfolding entry_offset_address_def mem_u64_def by (simp add: numeral_eq_Suc)
qed

lemma package_close:
  assumes ok: "mv_ok A B es s" and ad: "pkg_addrs A B (length es)" and u: "io_used s e"
    and d: "ie_dev_handle (io_entity_pool s ! e) = ma_fip_dev A"
  obtains s' where "io_close (marvell_devices A) e s = Some (0, s')" "mv_ok A B es s'"
    "io_entity_map s' = (io_entity_map s)[e := None]" "fip_state.more s' = fip_state.more s"
    "pkg_backend A s' = pkg_backend A s" "entry_offset_address (io_mem s') (fa_entry (ma_fip A)) = 0"
    "\<And>a. \<not> in_range (fa_entry (ma_fip A)) 40 a \<Longrightarrow> io_mem s' a = io_mem s a"
proof -
  let ?E = "fa_entry (ma_fip A)"
  have wf: "wf_io s" and pkg: "pkg_at A B es (io_mem s)" using ok by (auto simp: mv_ok_def)
  define m where "m = (if entry_offset_address (io_mem s) ?E \<noteq> 0 then memset (io_mem s) ?E 0 sizeof_entry else io_mem s)"
  have m1: "entry_offset_address m ?E = 0"
    by (simp add: m_def entry_cleared)
  have m2: "m a = io_mem s a" if "\<not> in_range ?E 40 a" for a
    using that by (simp add: m_def memset_outside sizeof_entry_def)
  obtain t where cl: "fip_file_close (ma_fip A) e s = Some (0, t)"
    and t: "io_mem t = m" "io_entity_map t = io_entity_map s" "io_entity_count t = io_entity_count s"
      "length (io_entity_pool t) = length (io_entity_pool s)" "mm_idle t = mm_idle s"
      "fip_state.more t = fip_state.more s" "pkg_backend A t = pkg_backend A s"
    by (rule that [of "snd (the (fip_file_close (ma_fip A) e s))"])
      (simp_all add: fip_file_close_def m_def set_info_def mm_idle_def pkg_backend_def)
  have wft: "wf_io t" "io_used t e"
    using wf u t by (simp_all add: wf_io_def io_used_def)
  note fr = free_entity_used [OF wft] and wff = wf_io_freed [OF wft]
  let ?t = "t\<lparr>io_entity_map := (io_entity_map t)[e := None], io_entity_count := io_entity_count t - 1\<rparr>"
  have run: "io_close (marvell_devices A) e s = Some (0, ?t)"
    using fip_entity [OF wf ad u d] cl fr by (simp add: io_close_def fip_dev_funcs_def)
  have "pkg_at A B es m" by (rule pkg_at_buffers [OF pkg ad]) (simp add: m2)
  then have "mv_ok A B es ?t"
    using ok wff ms_more [OF t(6)] t by (simp add: mv_ok_def mm_idle_def)
  then show thesis
    using t by (intro that [OF run]) (simp_all add: m1 m2 pkg_backend_def)
qed

text \<open>The memory outside the two buffers of the package driver.\<close>

definition same_outside :: "marvell_addrs \<Rightarrow> mem \<Rightarrow> mem \<Rightarrow> bool" where
  "same_outside A m m' \<longleftrightarrow>
     (\<forall>a. \<not> in_range (fa_entry (ma_fip A)) 40 a \<and> \<not> in_range (fa_header (ma_fip A)) 16 a \<longrightarrow> m' a = m a)"

lemma same_outside_refl [simp]: "same_outside A m m"
  by (simp add: same_outside_def)

lemma same_outside_trans: "same_outside A m m1 \<Longrightarrow> same_outside A m1 m2 \<Longrightarrow> same_outside A m m2"
  by (simp add: same_outside_def)

lemma same_outside_spec:
  assumes "same_outside A m m'" "pkg_addrs A B n" "p \<in> set (policies A)"
  shows "mem_bytes m' (pp_image_spec p) 16 = mem_bytes m (pp_image_spec p) 16"
proof (rule mem_bytes_cong)
  fix i :: nat assume "i < 16"
  then have "pkg_bytes A B n (pp_image_spec p + of_nat i)" by (rule pkg_bytes_spec [OF assms(3)])
  with assms(1,2) show "m' (pp_image_spec p + of_nat i) = m (pp_image_spec p + of_nat i)"
    unfolding same_outside_def pkg_addrs_def by blast
qed

lemma entry_offset_after_header:
  assumes "pkg_addrs A B n"
  shows "entry_offset_address (memcpy m (fa_header (ma_fip A)) src sizeof_header) (fa_entry (ma_fip A)) =
    entry_offset_address m (fa_entry (ma_fip A))"
proof -
  have "disjoint_range (fa_entry (ma_fip A) + 16) 8 (fa_header (ma_fip A)) sizeof_header"
    unfolding disjoint_range_def
  proof (intro allI impI)
    fix i :: nat assume "i < 8"
    then have "in_range (fa_entry (ma_fip A)) (of_nat 40) (fa_entry (ma_fip A) + of_nat (16 + i))"
      by (intro range_nth) simp_all
    with assms show "\<not> in_range (fa_header (ma_fip A)) sizeof_header (fa_entry (ma_fip A) + 16 + of_nat i)"
      unfolding pkg_addrs_def sizeof_header_def by (simp add: add.assoc)
  qed
  then show ?thesis
    by (simp add: entry_offset_address_def mem_u64_def mem_bytes_memcpy_disjoint)
qed

lemma length_policies [simp]: "length (policies A) = 6"
  by (simp add: policies_def)

text \<open>The policy of an image of the package.\<close>

lemma image_source:
  assumes ok: "mv_ok A B es s" and ad: "pkg_addrs A B (length es)" and free: "io_free2 s"
    and z: "entry_offset_address (io_mem s) (fa_entry (ma_fip A)) = 0"
    and i: "0 < unat image_id" "unat image_id < 6" and p: "p = policies A ! unat image_id"
    and u: "mem_bytes (io_mem s) (pp_image_spec p) 16 = u" "u \<noteq> uuid_null"
    and k: "k = toc_index u es" "k < length es"
  obtains s' where "plat_get_image_source A (marvell_devices A) image_id d q s =
      Some (0, ma_fip_dev A, pp_image_spec p, s')"
    "mv_ok A B es s'" "pkg_backend A s'" "mv_same s s'" "same_outside A (io_mem s) (io_mem s')"
    "entry_offset_address (io_mem s') (fa_entry (ma_fip A)) = 0"
proof -
  have pin: "p \<in> set (policies A)" using i p by (simp add: nth_mem)
  have pf: "pp_check p = OPEN_FIP" "pp_dev_handle p = FIP_DEV_HANDLE"
  proof -
    have "unat image_id \<in> {1, 2, 3, 4, 5}" using i by auto
    then show "pp_check p = OPEN_FIP" "pp_dev_handle p = FIP_DEV_HANDLE"
      unfolding p policies_def fip_policy_def by auto
  qed
  obtain s1 where s1: "io_dev_init (marvell_devices A) (ma_fip_dev A) 0 s = Some (0, s1)"
    "mv_same s s1" "mv_ok A B es s1" "io_mem s1 = memcpy (io_mem s) (fa_header (ma_fip A)) B sizeof_header"
    "pkg_backend A s1"
    using package_init [OF ok ad io_free2_free [OF free]] unfolding pkg_backend_def by metis
  have so1: "same_outside A (io_mem s) (io_mem s1)"
    by (simp add: same_outside_def s1(4) memcpy_outside sizeof_header_def)
  have free1: "io_free2 s1" using free s1(2) by (simp add: io_free2_def mv_same_def)
  have z1: "entry_offset_address (io_mem s1) (fa_entry (ma_fip A)) = 0"
    using z by (simp add: s1(4) entry_offset_after_header [OF ad])
  have u1: "mem_bytes (io_mem s1) (pp_image_spec p) 16 = u"
    using same_outside_spec [OF so1 ad pin] u(1) by simp
  obtain e s2 where s2: "io_open (marvell_devices A) (ma_fip_dev A) (pp_image_spec p) 0 s1 = Some (0, e, s2)"
    "io_entity_map s1 ! e = None" "io_entity_map s2 = (io_entity_map s1)[e := Some e]"
    "mv_ok A B es s2" "pkg_backend A s2" "pkg_file A (es ! k) e s2"
    "io_mem s2 = memcpy (io_mem s1) (fa_entry (ma_fip A)) (B + sizeof_header + of_nat (40 * k)) sizeof_entry"
    "fip_state.more s2 = fip_state.more s1"
    using package_open [OF s1(3) ad s1(5) free1 z1 pin u1 u(2) k] by metis
  have f2: "io_used s2 e" "ie_dev_handle (io_entity_pool s2 ! e) = ma_fip_dev A"
    using s2(6) by (auto simp: pkg_file_def)
  obtain s3 where s3: "io_close (marvell_devices A) e s2 = Some (0, s3)" "mv_ok A B es s3"
    "io_entity_map s3 = (io_entity_map s2)[e := None]" "fip_state.more s3 = fip_state.more s2"
    "pkg_backend A s3 = pkg_backend A s2" "entry_offset_address (io_mem s3) (fa_entry (ma_fip A)) = 0"
    "\<And>a. \<not> in_range (fa_entry (ma_fip A)) 40 a \<Longrightarrow> io_mem s3 a = io_mem s2 a"
    using package_close [OF s2(4) ad f2] by metis
  have "same_outside A (io_mem s1) (io_mem s3)"
    by (simp add: same_outside_def s3(7) s2(7) memcpy_outside sizeof_entry_def)
  with so1 have so: "same_outside A (io_mem s) (io_mem s3)" by (rule same_outside_trans)
  have "io_entity_map s3 = io_entity_map s1"
    using s3(3) s2(2,3) by simp (metis list_update_id)
  with s1(2) s2(8) s3(2,4) have sm: "mv_same s s3" by (simp add: mv_same_def mv_ok_def)
  have "open_fip (marvell_devices A) (pp_image_spec p) s = Some (0, s3)"
    using ok s1(1) s2(1) s3(1) by (simp add: open_fip_def try_open_def mv_ok_def FIP_IMAGE_ID_def)
  moreover have "ms_fip_dev_handle s3 = ma_fip_dev A" using s3(2) by (simp add: mv_ok_def)
  ultimately have "plat_get_image_source A (marvell_devices A) image_id d q s = Some (0, ma_fip_dev A, pp_image_spec p, s3)"
    using i(2) pf unfolding plat_get_image_source_def p [symmetric] by simp
  then show thesis
    using s3(2,5,6) s2(5) sm so by (intro that [of s3]) simp_all
qed

section \<open>A concrete package\<close>

lemma mem_bytes_written:
  assumes "unat (a - d) + n \<le> length bs" and "length bs < 2 ^ 64"
  shows "mem_bytes (mem_write m d bs) a n = take n (drop (unat (a - d)) bs)"
proof (rule nth_equalityI)
  fix i assume "i < length (mem_bytes (mem_write m d bs) a n)"
  then have i: "i < n" by simp
  have "a + of_nat i - d = of_nat (unat (a - d) + i)" by simp
  then have "unat (a + of_nat i - d) = unat (of_nat (unat (a - d) + i) :: u64)" by (simp only:)
  also have "\<dots> = unat (a - d) + i"
    using assms i by (simp add: unat_of_nat del: of_nat_add)
  finally show "mem_bytes (mem_write m d bs) a n ! i = take n (drop (unat (a - d)) bs) ! i"
    using assms(1) i by (simp add: nth_mem_bytes mem_write_def)
qed (use assms in simp)

lemma mem_bytes_not_written:
  assumes "length bs \<le> unat (a - d)" and "unat (a - d) + n \<le> 2 ^ 64"
  shows "mem_bytes (mem_write m d bs) a n = mem_bytes m a n"
proof (rule mem_bytes_cong)
  fix i assume i: "i < n"
  have "a + of_nat i - d = of_nat (unat (a - d) + i)" by simp
  then have "unat (a + of_nat i - d) = unat (of_nat (unat (a - d) + i) :: u64)" by (simp only:)
  also have "\<dots> = unat (a - d) + i"
    using assms i by (simp add: unat_of_nat del: of_nat_add)
  finally show "mem_write m d bs (a + of_nat i) = m (a + of_nat i)"
    using assms(1) by (simp add: mem_write_def)
qed

text \<open>
  A package with two images at \<open>0x1000\<close>, the second one the BL31 image with four bytes of data at
  \<open>0x1200\<close>, in a platform whose storage layer has just been set up. Witnesses run the layer on it.
\<close>

definition demo_addrs :: marvell_addrs where
  "demo_addrs = \<lparr>ma_memmap_dev = 1, ma_fip_dev = 2, ma_fip_block_spec = 0x100, ma_bl2_uuid_spec = 0x110,
     ma_scp_bl2_uuid_spec = 0x120, ma_bl31_uuid_spec = 0x130, ma_bl32_uuid_spec = 0x140, ma_bl33_uuid_spec = 0x150,
     ma_fip = \<lparr>fa_entry = 0x200, fa_header = 0x240\<rparr>\<rparr>"

definition demo_toc :: "fip_entry list" where
  "demo_toc = [\<lparr>fe_uuid = replicate 16 0x11, fe_offset = 0x100, fe_size = 8\<rparr>,
               \<lparr>fe_uuid = replicate 16 0x22, fe_offset = 0x200, fe_size = 4\<rparr>]"

definition demo_package :: mem where
  "demo_package =
     mem_write (mem_write (mem_write (mem_write (\<lambda>_. 0)
       0x1000 [1, 0, 0x64, 0xaa, 1, 0, 0, 0, 0, 0, 0, 0, 0, 0, 0, 0,
         0x11, 0x11, 0x11, 0x11, 0x11, 0x11, 0x11, 0x11, 0x11, 0x11, 0x11, 0x11, 0x11, 0x11, 0x11, 0x11,
         0, 1, 0, 0, 0, 0, 0, 0, 8, 0, 0, 0, 0, 0, 0, 0,
         0, 0, 0, 0, 0, 0, 0, 0,
         0x22, 0x22, 0x22, 0x22, 0x22, 0x22, 0x22, 0x22, 0x22, 0x22, 0x22, 0x22, 0x22, 0x22, 0x22, 0x22,
         0, 2, 0, 0, 0, 0, 0, 0, 4, 0, 0, 0, 0, 0, 0, 0,
         0, 0, 0, 0, 0, 0, 0, 0])
       0x100 [0, 0x10, 0, 0, 0, 0, 0, 0, 0, 0x10, 0, 0, 0, 0, 0, 0])
       0x130 [0x22, 0x22, 0x22, 0x22, 0x22, 0x22, 0x22, 0x22, 0x22, 0x22, 0x22, 0x22, 0x22, 0x22, 0x22, 0x22])
       0x1200 [0x5a, 1, 2, 3]"

definition demo_io :: marvell_state where
  "demo_io = \<lparr>io_mem = demo_package,
     io_entity_pool = replicate MAX_IO_HANDLES \<lparr>ie_dev_handle = 0, ie_info = Info_Null\<rparr>,
     io_entity_map = replicate MAX_IO_HANDLES None, io_entity_count = 0, io_devices = [2, 1], io_dev_count = 2,
     mm_in_use = 0, mm_base = 0, mm_file_pos = 0, mm_size = 0,
     ff_file_pos = 0, ff_backend_dev_handle = 0, ff_backend_image_spec = 0,
     ms_fip_dev_handle = 2, ms_memmap_dev_handle = 1\<rparr>"

lemma in_range_numeral:
  assumes "unat (numeral b :: u64) + unat (numeral n :: u64) \<le> 2 ^ 64"
  shows "in_range (numeral b) (numeral n) a \<longleftrightarrow>
    unat (numeral b :: u64) \<le> unat a \<and> unat a < unat (numeral b :: u64) + unat (numeral n :: u64)"
  by (rule in_range_interval [OF assms])

lemma demo_pkg_addrs: "pkg_addrs demo_addrs 0x1000 (length demo_toc)"
  by (auto simp: pkg_addrs_def pkg_bytes_def demo_addrs_def demo_toc_def policies_def fip_policy_def in_range_numeral)

lemma mem_bytes_const: "mem_bytes (\<lambda>_. c) a n = replicate n c"
  by (induction n arbitrary: a) auto

lemma demo_package_bytes:
  "mem_bytes demo_package 0x1000 4 = [1, 0, 0x64, 0xaa]"
  "mem_bytes demo_package 0x1004 4 = [1, 0, 0, 0]"
  "mem_bytes demo_package 0x100 8 = [0, 0x10, 0, 0, 0, 0, 0, 0]"
  "mem_bytes demo_package 0x108 8 = [0, 16, 0, 0, 0, 0, 0, 0]"
  "mem_bytes demo_package 0x130 16 = [0x22, 0x22, 0x22, 0x22, 0x22, 0x22, 0x22, 0x22, 0x22, 0x22, 0x22, 0x22, 0x22, 0x22, 0x22, 0x22]"
  "mem_bytes demo_package 0x1010 16 = [0x11, 0x11, 0x11, 0x11, 0x11, 0x11, 0x11, 0x11, 0x11, 0x11, 0x11, 0x11, 0x11, 0x11, 0x11, 0x11]"
  "mem_bytes demo_package 0x1020 8 = [0, 1, 0, 0, 0, 0, 0, 0]"
  "mem_bytes demo_package 0x1028 8 = [8, 0, 0, 0, 0, 0, 0, 0]"
  "mem_bytes demo_package 0x1038 16 = [0x22, 0x22, 0x22, 0x22, 0x22, 0x22, 0x22, 0x22, 0x22, 0x22, 0x22, 0x22, 0x22, 0x22, 0x22, 0x22]"
  "mem_bytes demo_package 0x1048 8 = [0, 2, 0, 0, 0, 0, 0, 0]"
  "mem_bytes demo_package 0x1050 8 = [4, 0, 0, 0, 0, 0, 0, 0]"
  "mem_bytes demo_package 0x1060 16 = uuid_null"
  "mem_bytes demo_package 0x210 8 = replicate 8 0"
  unfolding demo_package_def uuid_null_def
  by (simp_all add: mem_bytes_written mem_bytes_not_written mem_bytes_const)

lemma demo_rep16: "replicate 16 (x :: u8) = [x, x, x, x, x, x, x, x, x, x, x, x, x, x, x, x]"
  by (simp add: numeral_eq_Suc)

lemma demo_mv_ok: "mv_ok demo_addrs 0x1000 demo_toc demo_io"
proof -
  have "pkg_at demo_addrs 0x1000 demo_toc demo_package"
    by (simp add: pkg_at_def demo_addrs_def demo_toc_def block_spec_offset_def is_valid_header_def header_name_def
        header_serial_number_def mem_u32_def mem_u64_def entry_uuid_def entry_offset_address_def entry_size_def
        sizeof_header_def sizeof_entry_def TOC_HEADER_NAME_def uuid_null_def demo_package_bytes demo_rep16)
  then show ?thesis
    by (simp add: mv_ok_def demo_io_def wf_io_def used_count_def mm_idle_def demo_addrs_def)
qed

lemma demo_io_free2: "io_free2 demo_io"
  unfolding io_free2_def by (rule exI [of _ 0], rule exI [of _ 1]) (simp add: demo_io_def MAX_IO_HANDLES_def)

lemma le_value_zeros: "le_value (replicate n 0) = 0"
  by (induction n) auto

lemma demo_offset_0: "entry_offset_address (io_mem demo_io) (fa_entry (ma_fip demo_addrs)) = 0"
  by (simp add: demo_io_def demo_addrs_def entry_offset_address_def mem_u64_def demo_package_bytes le_value_zeros)

lemma demo_bl31_uuid:
  "mem_bytes (io_mem demo_io) (pp_image_spec (policies demo_addrs ! unat BL31_IMAGE_ID)) 16 = replicate 16 0x22"
  "replicate 16 (0x22 :: u8) \<noteq> uuid_null" "toc_index (replicate 16 0x22) demo_toc = 1" "length demo_toc = 2"
  by (simp_all add: demo_io_def demo_addrs_def policies_def fip_policy_def BL31_IMAGE_ID_def demo_package_bytes
      demo_rep16 uuid_null_def toc_index_def demo_toc_def)

lemma demo_bl31_source: "ma_fip_dev demo_addrs = 2" "pp_image_spec (policies demo_addrs ! unat BL31_IMAGE_ID) = 0x130"
  by (simp_all add: demo_addrs_def policies_def fip_policy_def BL31_IMAGE_ID_def)

lemma demo_image_source:
  obtains t where "plat_get_image_source demo_addrs (marvell_devices demo_addrs) BL31_IMAGE_ID 0 0 demo_io
      = Some (0, 2, 0x130, t)"
proof -
  have i: "0 < unat BL31_IMAGE_ID" "unat BL31_IMAGE_ID < 6" by (simp_all add: BL31_IMAGE_ID_def)
  have k: "toc_index (replicate 16 0x22) demo_toc < length demo_toc" by (simp only: demo_bl31_uuid)
  show thesis
    by (rule image_source [OF demo_mv_ok demo_pkg_addrs demo_io_free2 demo_offset_0 i refl demo_bl31_uuid(1,2) refl k,
          where d = 0 and q = 0]) (rule that, simp only: demo_bl31_source)
qed

section \<open>Properties\<close>

text \<open>
  C34. However a client uses the storage layer of the Marvell platforms after start-up, the table of
  open entities stays consistent: a slot is empty or holds its own entity, and the count of open
  entities is the number of slots in use.
\<close>

theorem io_pool_consistent:
  assumes "io_reset s" and "(io_client A)\<^sup>*\<^sup>* s t"
  shows "wf_io t"
  using assms by (rule io_machine.reachable_inv)

theorem io_pool_consistent_witness:
  "\<exists>t :: marvell_state. plat_get_image_source demo_addrs (marvell_devices demo_addrs) BL31_IMAGE_ID 0 0 demo_io
      = Some (0, 2, 0x130, t) \<and> wf_io t"
proof -
  obtain t where t: "plat_get_image_source demo_addrs (marvell_devices demo_addrs) BL31_IMAGE_ID 0 0 demo_io
      = Some (0, 2, 0x130, t)"
    by (rule demo_image_source)
  have "io_reset demo_io" by (simp add: io_reset_def demo_io_def)
  moreover have "(io_client demo_addrs)\<^sup>*\<^sup>* demo_io t" using io_client_source [OF t] by simp
  ultimately have "wf_io t" by (rule io_pool_consistent)
  with t show ?thesis by blast
qed

text \<open>
  C35. Opening an image on a Marvell device takes a handle that no other open image has and touches no
  other entity; when it fails the table of entities is as before; and when all handles are taken
  it fails with \<open>-ENOMEM\<close>.
\<close>

theorem io_open_fresh_handle:
  assumes "wf_io s" and "io_open (marvell_devices A) d spec h s = Some (rc, h', s')"
  shows "(if rc = 0
      then h' < MAX_IO_HANDLES \<and> \<not> io_used s h' \<and> io_used s' h' \<and> ie_dev_handle (io_entity_pool s' ! h') = d
      else io_entity_map s' = io_entity_map s) \<and>
    (\<forall>i. io_used s i \<longrightarrow> io_used s' i \<and> io_entity_pool s' ! i = io_entity_pool s ! i) \<and>
    ((\<forall>i < MAX_IO_HANDLES. io_used s i) \<longrightarrow> rc = - ENOMEM) \<and> wf_io s'"
proof -
  note o = md.opened [OF assms]
  have "rc = - ENOMEM" if full: "\<forall>i < MAX_IO_HANDLES. io_used s i"
    using assms(1)
  proof (cases rule: allocate_entity_cases)
    case full
    with assms(2) show ?thesis by (auto simp: io_open_def errno_defs bind_eq_Some_conv)
  next
    case (allocated i)
    with full show ?thesis by (auto simp: io_used_def)
  qed
  moreover have "io_used s' i" if i: "io_used s i" for i
  proof (cases "rc = 0")
    case True
    with o i have "i \<noteq> h'" by (auto simp: io_used_def)
    with True o i show ?thesis by (simp add: io_used_def)
  next
    case False
    with o i show ?thesis by (simp add: io_used_def)
  qed
  moreover have "rc = 0 \<Longrightarrow> \<not> io_used s h'" using o by (simp add: io_used_def)
  ultimately show ?thesis
    using o by (cases "rc = 0") auto
qed

text \<open>The platform after \<open>plat_get_image_source\<close>, with the package's image BL31 about to be opened.\<close>

lemma demo_source_state:
  obtains t where "plat_get_image_source demo_addrs (marvell_devices demo_addrs) BL31_IMAGE_ID 0 0 demo_io
      = Some (0, 2, 0x130, t)" "mv_ok demo_addrs 0x1000 demo_toc t" "pkg_backend demo_addrs t" "io_free2 t"
    "entry_offset_address (io_mem t) (fa_entry (ma_fip demo_addrs)) = 0" "mem_bytes (io_mem t) 0x130 16 = replicate 16 0x22"
proof -
  have i: "0 < unat BL31_IMAGE_ID" "unat BL31_IMAGE_ID < 6" by (simp_all add: BL31_IMAGE_ID_def)
  have k: "toc_index (replicate 16 0x22) demo_toc < length demo_toc" by (simp only: demo_bl31_uuid)
  have p: "policies demo_addrs ! unat BL31_IMAGE_ID \<in> set (policies demo_addrs)" using i by (simp add: nth_mem)
  obtain t where t: "plat_get_image_source demo_addrs (marvell_devices demo_addrs) BL31_IMAGE_ID 0 0 demo_io =
      Some (0, ma_fip_dev demo_addrs, pp_image_spec (policies demo_addrs ! unat BL31_IMAGE_ID), t)"
    "mv_ok demo_addrs 0x1000 demo_toc t" "pkg_backend demo_addrs t" "mv_same demo_io t"
    "same_outside demo_addrs (io_mem demo_io) (io_mem t)"
    "entry_offset_address (io_mem t) (fa_entry (ma_fip demo_addrs)) = 0"
    by (rule image_source [OF demo_mv_ok demo_pkg_addrs demo_io_free2 demo_offset_0 i refl demo_bl31_uuid(1,2) refl k,
          where d = 0 and q = 0])
  have "io_free2 t" using t(4) demo_io_free2 by (simp add: mv_same_def io_free2_def)
  moreover have "mem_bytes (io_mem t) 0x130 16 = replicate 16 0x22"
    using same_outside_spec [OF t(5) demo_pkg_addrs p] demo_bl31_uuid(1) by (simp only: demo_bl31_source)
  ultimately show thesis
    using t(1) by (intro that [OF _ t(2,3) _ t(6)]) (simp_all only: demo_bl31_source)
qed

theorem io_open_fresh_handle_witness:
  "\<exists>(t :: marvell_state) e t'. io_open (marvell_devices demo_addrs) 2 0x130 0 t = Some (0, e, t') \<and>
     e < MAX_IO_HANDLES \<and> \<not> io_used t e \<and> io_used t' e \<and> wf_io t'"
proof -
  obtain t :: marvell_state where t: "mv_ok demo_addrs 0x1000 demo_toc t" "pkg_backend demo_addrs t" "io_free2 t"
    "entry_offset_address (io_mem t) (fa_entry (ma_fip demo_addrs)) = 0" "mem_bytes (io_mem t) 0x130 16 = replicate 16 0x22"
    by (rule demo_source_state)
  have p: "policies demo_addrs ! unat BL31_IMAGE_ID \<in> set (policies demo_addrs)"
    by (rule nth_mem) (simp add: BL31_IMAGE_ID_def)
  have k: "toc_index (replicate 16 0x22) demo_toc < length demo_toc" by (simp only: demo_bl31_uuid)
  obtain e t' where r: "io_open (marvell_devices demo_addrs) 2 0x130 0 t = Some (0, e, t')"
    by (rule package_open [OF t(1) demo_pkg_addrs t(2,3,4) p t(5) [folded demo_bl31_source(2)] demo_bl31_uuid(2) refl k,
          where h = 0]) (rule that, simp only: demo_bl31_source)
  have "wf_io t" using t(1) by (simp add: mv_ok_def)
  from io_open_fresh_handle [OF this r] have "e < MAX_IO_HANDLES \<and> \<not> io_used t e \<and> io_used t' e \<and> wf_io t'"
    by simp
  with r show ?thesis by blast
qed

text \<open>
  C28. Opening a file of a firmware package finds the first entry of its table of contents with the
  wanted UUID and takes over that entry's offset and size; if no entry has the UUID it returns
  \<open>-ENOENT\<close>. Either way the back end is closed again, and after \<open>-ENOENT\<close> the driver's single file is free.
\<close>

theorem fip_file_open_first_entry:
  assumes "fip_ready K F B es s" and "io_free s" and "io_used s e"
    and "entry_offset_address (io_mem s) (fa_entry K) = 0"
    and "spec \<noteq> 0" and "disjoint_range spec 16 (fa_entry K) sizeof_entry"
    and "mem_bytes (io_mem s) spec 16 = u" and "u \<noteq> uuid_null"
  shows "\<exists>s'. fip_file_open K F dev spec e s = Some (if toc_index u es < length es then 0 else - ENOENT, s') \<and>
    mm_idle s' \<and> io_entity_map s' = io_entity_map s \<and>
    (if toc_index u es < length es
     then get_info e s' = FIP_FILE \<and> ff_file_pos s' = 0 \<and>
       entry_offset_address (io_mem s') (fa_entry K) = fe_offset (es ! toc_index u es) \<and>
       entry_size (io_mem s') (fa_entry K) = fe_size (es ! toc_index u es)
     else entry_offset_address (io_mem s') (fa_entry K) = 0)"
proof -
  let ?m = "memcpy (io_mem s) (fa_entry K) (B + sizeof_header + of_nat (40 * toc_index u es)) sizeof_entry"
  obtain s' where s': "fip_same s s'"
    "fip_file_open K F dev spec e s = Some (if toc_index u es < length es then 0 else - ENOENT, s')"
    "io_mem s' = (if toc_index u es < length es then ?m else mem_write ?m (fa_entry K + 16) (replicate 8 0))"
    "toc_index u es < length es \<Longrightarrow> get_info e s' = FIP_FILE \<and> ff_file_pos s' = 0"
    by (rule fip_file_open_memmap [OF assms refl, of dev]) (rule that, simp_all)
  have "toc_at (io_mem s) (B + sizeof_header) es" using assms(1) by (simp add: fip_ready_def)
  note toc = toc_at_nth [OF this]
  show ?thesis
  proof (cases "toc_index u es < length es")
    case True
    with s' toc [OF True] show ?thesis
      by (auto simp: fip_same_def entry_memcpy_inside)
  next
    case False
    have "mem_bytes (io_mem s') (fa_entry K + 16) 8 = replicate 8 0"
      using False s'(3) by (simp add: mem_bytes_mem_write)
    with False s'(1,2) show ?thesis
      by (auto simp: fip_same_def entry_offset_address_def mem_u64_def le_value_zeros)
  qed
qed

definition demo_io_opening :: marvell_state where
  "demo_io_opening = demo_io\<lparr>io_entity_map := [Some 0, None, None, None], io_entity_count := 1,
     ff_backend_dev_handle := 1, ff_backend_image_spec := 0x100\<rparr>"

lemma all_less_4: "(\<forall>i < 4. P i) \<longleftrightarrow> P 0 \<and> P 1 \<and> P 2 \<and> P (3 :: nat)"
  by (simp add: numeral_eq_Suc All_less_Suc) blast

lemma demo_opening_ready:
  "fip_ready (ma_fip demo_addrs) (marvell_backends demo_addrs) 0x1000 demo_toc demo_io_opening"
proof (rule mv_fip_ready [OF _ demo_pkg_addrs])
  have "pkg_at demo_addrs 0x1000 demo_toc (io_mem demo_io)" using demo_mv_ok by (simp only: mv_ok_def)
  moreover have "wf_io demo_io_opening"
    by (simp add: wf_io_def demo_io_opening_def demo_io_def MAX_IO_HANDLES_def used_count_def all_less_4)
  ultimately show "mv_ok demo_addrs 0x1000 demo_toc demo_io_opening"
    by (simp add: mv_ok_def mm_idle_def demo_io_opening_def demo_io_def demo_addrs_def)
  show "pkg_backend demo_addrs demo_io_opening"
    by (simp add: pkg_backend_def demo_io_opening_def demo_addrs_def)
qed

theorem fip_file_open_first_entry_witness:
  "\<exists>t. fip_file_open (ma_fip demo_addrs) (marvell_backends demo_addrs) 2 0x130 0 demo_io_opening = Some (0, t) \<and>
     entry_offset_address (io_mem t) 0x200 = 0x200 \<and> entry_size (io_mem t) 0x200 = 4"
proof -
  have p: "policies demo_addrs ! unat BL31_IMAGE_ID \<in> set (policies demo_addrs)"
    by (rule nth_mem) (simp add: BL31_IMAGE_ID_def)
  have u: "io_used demo_io_opening 0" "io_free demo_io_opening"
    by (auto simp: io_used_def io_free_def demo_io_opening_def MAX_IO_HANDLES_def intro: exI [of _ 1])
  have m: "io_mem demo_io_opening = io_mem demo_io" by (simp add: demo_io_opening_def)
  have d: "disjoint_range 0x130 16 (fa_entry (ma_fip demo_addrs)) sizeof_entry"
    using pkg_spec_disjoint [OF demo_pkg_addrs p] by (simp only: demo_bl31_source)
  have E: "fa_entry (ma_fip demo_addrs) = 0x200" by (simp add: demo_addrs_def)
  have x: "fe_offset (demo_toc ! Suc 0) = 0x200" "fe_size (demo_toc ! Suc 0) = 4" by (simp_all add: demo_toc_def)
  have "\<exists>t. fip_file_open (ma_fip demo_addrs) (marvell_backends demo_addrs) 2 0x130 0 demo_io_opening = Some (0, t) \<and>
     entry_offset_address (io_mem t) (fa_entry (ma_fip demo_addrs)) = fe_offset (demo_toc ! 1) \<and>
     entry_size (io_mem t) (fa_entry (ma_fip demo_addrs)) = fe_size (demo_toc ! 1)"
    using fip_file_open_first_entry [OF demo_opening_ready u(2,1) demo_offset_0 [folded m] _ d
        demo_bl31_uuid(1) [folded m, unfolded demo_bl31_source] demo_bl31_uuid(2), of 2]
    unfolding demo_bl31_uuid(3,4) by auto
  then show ?thesis unfolding E by (simp add: x)
qed

text \<open>
  A memory-mapped back end that fails from the second entry of the table of contents on, and the
  states of a search for an image on it.
\<close>

definition demo_faulty :: "marvell_state dev_table" where
  "demo_faulty = (\<lambda>_. None)(1 := Some (memmap_dev_funcs\<lparr>df_read := Some (\<lambda>e b len n s.
     if 56 \<le> mm_file_pos s then Some (- EIO, n, s) else memmap_block_read e b len n s)\<rparr>))"

definition demo_searching :: "mem \<Rightarrow> u64 \<Rightarrow> marvell_state" where
  "demo_searching m pos = demo_io\<lparr>io_mem := m,
     io_entity_pool := \<lparr>ie_dev_handle = 1, ie_info = MEMMAP_FILE\<rparr> # replicate 3 \<lparr>ie_dev_handle = 0, ie_info = Info_Null\<rparr>,
     io_entity_map := [Some 0, None, None, None], io_entity_count := 1,
     mm_in_use := 1, mm_base := 0x1000, mm_file_pos := pos, mm_size := 0x1000,
     ff_backend_dev_handle := 1, ff_backend_image_spec := 0x100\<rparr>"

lemma demo_searching_mem [simp]: "io_mem (demo_searching m pos) = m"
  by (simp add: demo_searching_def)

lemma demo_io_lists: "replicate MAX_IO_HANDLES x = [x, x, x, x]" "replicate 3 x = [x, x, x]"
  by (simp_all add: MAX_IO_HANDLES_def numeral_eq_Suc)

lemma demo_block_spec: "block_spec_offset demo_package 0x100 = 0x1000" "block_spec_length demo_package 0x100 = 0x1000"
  by (simp_all add: block_spec_offset_def block_spec_length_def mem_u64_def demo_package_bytes)

lemma demo_faulty_open:
  "io_open demo_faulty 1 0x100 0 (demo_io\<lparr>ff_backend_dev_handle := 1, ff_backend_image_spec := 0x100\<rparr>) =
     Some (0, 0, demo_searching demo_package 0)"
  by (simp add: io_open_def demo_faulty_def is_valid_dev_def allocate_entity_def find_first_entity_def MAX_IO_HANDLES_def
      memmap_dev_funcs_def memmap_block_open_def set_info_def demo_searching_def demo_io_def demo_io_lists
      demo_io_lists(1) [unfolded MAX_IO_HANDLES_def] demo_block_spec)

lemma demo_faulty_entity:
  "is_valid_entity demo_faulty 0 (demo_searching m pos)"
  "entity_funcs demo_faulty 0 (demo_searching m pos) = Some (memmap_dev_funcs\<lparr>df_read := Some (\<lambda>e b len n s.
     if 56 \<le> mm_file_pos s then Some (- EIO, n, s) else memmap_block_read e b len n s)\<rparr>)"
  by (simp_all add: is_valid_entity_def entity_funcs_def demo_faulty_def demo_searching_def is_valid_dev_def memmap_dev_funcs_def)

lemma demo_faulty_seek:
  "io_seek demo_faulty 0 IO_SEEK_SET sizeof_header (demo_searching m pos) = Some (0, demo_searching m sizeof_header)"
  by (simp add: io_seek_def demo_faulty_entity is_valid_seek_mode_def memmap_dev_funcs_def memmap_block_seek_def)
    (simp add: get_info_def demo_searching_def)

lemma demo_faulty_read:
  "io_read demo_faulty 0 0x200 sizeof_entry 0 (demo_searching m pos) =
     (if 56 \<le> pos then Some (- EIO, 0, demo_searching m pos)
      else Some (0, sizeof_entry, demo_searching (memcpy m 0x200 (0x1000 + pos) sizeof_entry) (pos + sizeof_entry)))"
  by (simp add: io_read_def demo_faulty_entity memmap_dev_funcs_def memmap_block_read_def)
    (simp add: get_info_def demo_searching_def)

lemma demo_faulty_close:
  "\<exists>s. io_close demo_faulty 0 (demo_searching m pos) = Some (0, s) \<and> io_mem s = m \<and>
     io_entity_map s = io_entity_map demo_io"
  by (simp add: io_close_def demo_faulty_entity memmap_dev_funcs_def memmap_block_close_def set_info_def)
    (simp add: free_entity_def find_first_entity_def demo_searching_def demo_io_def demo_io_lists)

text \<open>
  A search of the table of contents in which the back end fails: some entries are read that are neither
  the one asked for nor the last, and then a read returns an error and no data.
\<close>

inductive toc_failure ::
  "fip_addrs \<Rightarrow> 'x fip_state_scheme dev_table \<Rightarrow> nat \<Rightarrow> u64 \<Rightarrow> 'x fip_state_scheme \<Rightarrow> int \<Rightarrow> 'x fip_state_scheme \<Rightarrow> bool"
  for K F h spec
where
  read_fails: "io_read F h (fa_entry K) sizeof_entry 0 s = Some (rc, n, s') \<Longrightarrow> rc \<noteq> 0 \<Longrightarrow> io_mem s' = io_mem s \<Longrightarrow>
     toc_failure K F h spec s rc s'"
| other_entry: "io_read F h (fa_entry K) sizeof_entry 0 s = Some (0, n, s1) \<Longrightarrow>
     entry_uuid (io_mem s1) (fa_entry K) \<noteq> mem_bytes (io_mem s1) spec 16 \<Longrightarrow>
     entry_uuid (io_mem s1) (fa_entry K) \<noteq> uuid_null \<Longrightarrow> toc_failure K F h spec s1 rc s' \<Longrightarrow>
     toc_failure K F h spec s rc s'"

lemma toc_failure_loop:
  "toc_failure K F h spec s rc s' \<Longrightarrow> rc \<noteq> 0 \<and> fip_toc_loop K F h spec s = Some (rc, False, s')"
proof (induction rule: toc_failure.induct)
  case (read_fails s rc n s')
  then show ?case by (subst fip_toc_loop.simps) simp
next
  case (other_entry s n s1 rc s')
  then show ?case by (subst fip_toc_loop.simps) simp
qed

text \<open>
  C30. When the back end fails while \<open>fip_file_open\<close> searches the table of contents, after an entry with
  a non-zero offset has been read, the open returns the back end's error, but the entry stays in the
  driver's single file: every open of any image from then on, on any back end, returns \<open>-ENOMEM\<close> and
  changes nothing. (The read that fails and the close of the back end leave memory as it is.)
\<close>

theorem fip_file_open_sticks:
  assumes "spec \<noteq> 0" and "entry_offset_address (io_mem s) (fa_entry K) = 0"
    and "io_open F (ff_backend_dev_handle s) (ff_backend_image_spec s) 0 s = Some (0, h, s1)"
    and "io_seek F h IO_SEEK_SET sizeof_header s1 = Some (0, s2)"
    and "toc_failure K F h spec s2 rc s3" and "entry_offset_address (io_mem s3) (fa_entry K) \<noteq> 0"
    and "io_close F h s3 = Some (rc', s4)" and "io_mem s4 = io_mem s3"
  shows "fip_file_open K F dev spec entity s = Some (rc, s4) \<and> rc \<noteq> 0 \<and>
    (\<forall>F' dev' spec' entity'. spec' \<noteq> 0 \<longrightarrow> fip_file_open K F' dev' spec' entity' s4 = Some (- ENOMEM, s4))"
  using assms toc_failure_loop [OF assms(5)] by (simp add: fip_file_open_def)

theorem fip_file_open_sticks_witness:
  "\<exists>s. fip_file_open (ma_fip demo_addrs) demo_faulty 2 0x130 3
       (demo_io\<lparr>ff_backend_dev_handle := 1, ff_backend_image_spec := 0x100\<rparr>) = Some (- EIO, s) \<and>
     io_entity_map s = io_entity_map demo_io \<and>
     fip_file_open (ma_fip demo_addrs) ((\<lambda>_. None)(1 := Some memmap_dev_funcs)) 2 0x120 3 s = Some (- ENOMEM, s)"
proof -
  let ?m = "memcpy demo_package 0x200 0x1010 sizeof_entry"
  have E: "fa_entry (ma_fip demo_addrs) = 0x200" by (simp add: demo_addrs_def)
  have p: "policies demo_addrs ! unat BL31_IMAGE_ID \<in> set (policies demo_addrs)"
    by (rule nth_mem) (simp add: BL31_IMAGE_ID_def)
  have "disjoint_range 0x130 16 0x200 sizeof_entry"
    using pkg_spec_disjoint [OF demo_pkg_addrs p] by (simp only: demo_bl31_source E)
  then have u: "mem_bytes ?m 0x130 16 = replicate 16 0x22"
    using mem_bytes_memcpy_disjoint [of "0x130" 16 "0x200" sizeof_entry demo_package "0x1010"] demo_package_bytes(5)
    by (simp add: demo_rep16)
  have e: "entry_uuid ?m 0x200 = replicate 16 0x11" "entry_offset_address ?m 0x200 = 0x100"
    unfolding entry_memcpy_inside
    by (simp_all add: entry_uuid_def entry_offset_address_def mem_u64_def demo_package_bytes demo_rep16)
  have two: "toc_failure (ma_fip demo_addrs) demo_faulty 0 0x130 (demo_searching ?m 56) (- EIO) (demo_searching ?m 56)"
    by (rule read_fails) (simp_all add: E demo_faulty_read errno_defs)
  have one: "toc_failure (ma_fip demo_addrs) demo_faulty 0 0x130 (demo_searching demo_package sizeof_header) (- EIO)
      (demo_searching ?m 56)"
    by (rule other_entry [OF _ _ _ two])
      (use u e(1) in \<open>simp_all add: E demo_faulty_read [unfolded sizeof_entry_def] sizeof_header_def sizeof_entry_def demo_rep16 uuid_null_def\<close>)
  obtain s where s: "io_close demo_faulty 0 (demo_searching ?m 56) = Some (0, s)" "io_mem s = ?m"
    "io_entity_map s = io_entity_map demo_io"
    using demo_faulty_close by blast
  have "fip_file_open (ma_fip demo_addrs) demo_faulty 2 0x130 3
       (demo_io\<lparr>ff_backend_dev_handle := 1, ff_backend_image_spec := 0x100\<rparr>) = Some (- EIO, s) \<and> - EIO \<noteq> 0 \<and>
    (\<forall>F dev spec i. spec \<noteq> 0 \<longrightarrow> fip_file_open (ma_fip demo_addrs) F dev spec i s = Some (- ENOMEM, s))"
    by (rule fip_file_open_sticks [OF _ _ _ demo_faulty_seek one _ s(1)])
      (use demo_faulty_open demo_offset_0 e(2) s(2) in \<open>simp_all add: E\<close>)
  with s(3) show ?thesis by (intro exI [of _ s]) simp
qed

end
