(* ===== verification/Bl_Common.thy ===== *)
theory Bl_Common
  imports Marvell_Io Auth_Mod Context_Mgmt
begin

text \<open>
  Loading images (\<open>common/bl_common.c\<close> with trusted board boot): bookkeeping of free memory, the
  loading of one image through the storage layer, and the loading and authentication of an image
  after its parents, in the first version of the interface and in the second (\<open>LOAD_IMAGE_V2\<close>).
  The devices and the platform's \<open>plat_get_image_source\<close> are parameters, as they are in the code,
  which links one platform's; the storage layer of the Marvell platforms is an instance.
\<close>

section \<open>Data\<close>

record meminfo =
  mi_total_base :: u64
  mi_total_size :: u64
  mi_free_base :: u64
  mi_free_size :: u64

text \<open>The maximal size is a field of the second version only.\<close>

record image_info =
  ii_version :: u8
  ii_image_base :: u64
  ii_image_size :: u32
  ii_image_max_size :: u32

definition VERSION_1 :: u8 where "VERSION_1 = 1"
definition VERSION_2 :: u8 where "VERSION_2 = 2"
definition PAGE_SIZE :: u64 where "PAGE_SIZE = 4096"

datatype align_dir = UP | DOWN
datatype mem_pos = TOP | BOTTOM

section \<open>Free memory\<close>

definition page_align :: "u64 \<Rightarrow> align_dir \<Rightarrow> u64" where
  "page_align value dir =
     (if value AND (PAGE_SIZE - 1) \<noteq> 0 then
        let value = value AND NOT (PAGE_SIZE - 1) in
        if dir = UP then value + PAGE_SIZE else value
      else value)"

definition check_uptr_overflow :: "u64 \<Rightarrow> u64 \<Rightarrow> bool" where
  "check_uptr_overflow ptr inc \<longleftrightarrow> ptr > (- 1) - inc"

definition is_mem_free :: "u64 \<Rightarrow> u64 \<Rightarrow> u64 \<Rightarrow> u64 \<Rightarrow> bool" where
  "is_mem_free free_base free_size addr n =
     (if n = 0 then True
      else if free_size = 0 then False
      else if check_uptr_overflow free_base (free_size - 1) then False
      else let free_end = free_base + (free_size - 1) in
      if check_uptr_overflow addr (n - 1) then False
      else let requested_end = addr + (n - 1) in
      addr \<ge> free_base \<and> requested_end \<le> free_end)"

definition choose_mem_pos :: "u64 \<Rightarrow> u64 \<Rightarrow> u64 \<Rightarrow> u64 \<Rightarrow> (mem_pos \<times> u64) option" where
  "choose_mem_pos mem_start mem_end submem_start submem_end =
     do { assert_c (mem_start \<le> submem_start);
          assert_c (submem_start \<le> submem_end);
          assert_c (submem_end \<le> mem_end);
          let top_chunk_size = mem_end - submem_end;
          let bottom_chunk_size = submem_start - mem_start;
          Some (if top_chunk_size < bottom_chunk_size then (TOP, top_chunk_size)
                else (BOTTOM, bottom_chunk_size)) }"

definition reserve_mem :: "u64 \<Rightarrow> u64 \<Rightarrow> u64 \<Rightarrow> u64 \<Rightarrow> (u64 \<times> u64) option" where
  "reserve_mem free_base free_size addr n =
     do { assert_c (is_mem_free free_base free_size addr n);
          if n = 0 then Some (free_base, free_size) else do {
          (pos, discard_size) \<leftarrow>
             choose_mem_pos free_base (free_base + (free_size - 1)) addr (addr + (n - 1));
          let reserved_size = n + discard_size;
          let free_size = free_size - reserved_size;
          Some (if pos = BOTTOM then addr + n else free_base, free_size) } }"

section \<open>Loading\<close>

definition image_size ::
  "'x io_state_scheme dev_table \<Rightarrow> 'x io_state_scheme image_source \<Rightarrow> u32 \<Rightarrow> 'x io_state_scheme \<Rightarrow>
   (u64 \<times> 'x io_state_scheme) option"
where
  "image_size F plat image_id s =
     do { (io_result, dev_handle, image_spec, s) \<leftarrow> plat image_id 0 0 s;
          if io_result \<noteq> 0 then Some (0, s) else do {
          (io_result, image_handle, s) \<leftarrow> io_open F dev_handle image_spec 0 s;
          if io_result \<noteq> 0 then Some (0, s) else do {
          (io_result, size, s) \<leftarrow> io_size F image_handle 0 s;
          (io_result, s) \<leftarrow> io_close F image_handle s;
          (io_result, s) \<leftarrow> io_dev_close F dev_handle s;
          Some (size, s) } } }"

text \<open>
  What the first version of \<open>load_image\<close> does between opening and closing the image; \<open>ep\<close> is
  \<^term>\<open>None\<close> for a null \<open>entry_point_info\<close>. The 64-bit size is stored in a 32-bit field.
\<close>

definition load_image_body ::
  "'x io_state_scheme dev_table \<Rightarrow> nat \<Rightarrow> u64 \<Rightarrow> meminfo \<Rightarrow> image_info \<Rightarrow> entry_point_info option \<Rightarrow>
   'x io_state_scheme \<Rightarrow> (int \<times> meminfo \<times> image_info \<times> entry_point_info option \<times> 'x io_state_scheme) option"
where
  "load_image_body F image_handle image_base mem_layout image_data ep s =
     do { (io_result, size, s) \<leftarrow> io_size F image_handle 0 s;
          if io_result \<noteq> 0 \<or> size = 0 then Some (io_result, mem_layout, image_data, ep, s)
          else if \<not> is_mem_free (mi_free_base mem_layout) (mi_free_size mem_layout) image_base size
          then Some (- ENOMEM, mem_layout, image_data, ep, s)
          else do {
          (io_result, bytes_read, s) \<leftarrow> io_read F image_handle image_base size 0 s;
          if io_result \<noteq> 0 \<or> bytes_read < size then Some (io_result, mem_layout, image_data, ep, s)
          else do {
          let image_data = image_data\<lparr>ii_image_base := image_base, ii_image_size := ucast size\<rparr>;
          (case ep of
             Some e \<Rightarrow>
               do { (fb, fs) \<leftarrow> reserve_mem (mi_free_base mem_layout) (mi_free_size mem_layout) image_base size;
                    Some (io_result, mem_layout\<lparr>mi_free_base := fb, mi_free_size := fs\<rparr>, image_data,
                      Some (e\<lparr>ep_pc := image_base\<rparr>), s) }
           | None \<Rightarrow> Some (io_result, mem_layout, image_data, None, s)) } } }"

definition load_image ::
  "'x io_state_scheme dev_table \<Rightarrow> 'x io_state_scheme image_source \<Rightarrow> meminfo \<Rightarrow> u32 \<Rightarrow> u64 \<Rightarrow> image_info \<Rightarrow>
   entry_point_info option \<Rightarrow> 'x io_state_scheme \<Rightarrow>
   (int \<times> meminfo \<times> image_info \<times> entry_point_info option \<times> 'x io_state_scheme) option"
where
  "load_image F plat mem_layout image_id image_base image_data ep s =
     do { assert_c (ii_version image_data = VERSION_1);
          (io_result, dev_handle, image_spec, s) \<leftarrow> plat image_id 0 0 s;
          if io_result \<noteq> 0 then Some (io_result, mem_layout, image_data, ep, s) else do {
          (io_result, image_handle, s) \<leftarrow> io_open F dev_handle image_spec 0 s;
          if io_result \<noteq> 0 then Some (io_result, mem_layout, image_data, ep, s) else do {
          (io_result, mem_layout, image_data, ep, s) \<leftarrow>
             load_image_body F image_handle image_base mem_layout image_data ep s;
          (close_result, s) \<leftarrow> io_close F image_handle s;
          (close_result, s) \<leftarrow> io_dev_close F dev_handle s;
          Some (io_result, mem_layout, image_data, ep, s) } } }"

text \<open>The second version: the image's base and maximal size come in the image's own description.\<close>

definition load_image_v2_body ::
  "'x io_state_scheme dev_table \<Rightarrow> nat \<Rightarrow> image_info \<Rightarrow> 'x io_state_scheme \<Rightarrow>
   (int \<times> image_info \<times> 'x io_state_scheme) option"
where
  "load_image_v2_body F image_handle image_data s =
     do { (io_result, size, s) \<leftarrow> io_size F image_handle 0 s;
          if io_result \<noteq> 0 \<or> size = 0 then Some (io_result, image_data, s)
          else if size > ucast (ii_image_max_size image_data) then Some (- EFBIG, image_data, s)
          else do {
          let image_data' = image_data\<lparr>ii_image_size := ucast size\<rparr>;
          (io_result, bytes_read, s) \<leftarrow> io_read F image_handle (ii_image_base image_data) size 0 s;
          if io_result \<noteq> 0 \<or> bytes_read < size then Some (io_result, image_data', s)
          else Some (io_result, image_data', s) } }"

definition load_image_v2 ::
  "'x io_state_scheme dev_table \<Rightarrow> 'x io_state_scheme image_source \<Rightarrow> u32 \<Rightarrow> image_info \<Rightarrow>
   'x io_state_scheme \<Rightarrow> (int \<times> image_info \<times> 'x io_state_scheme) option"
where
  "load_image_v2 F plat image_id image_data s =
     do { assert_c (ii_version image_data \<ge> VERSION_2);
          (io_result, dev_handle, image_spec, s) \<leftarrow> plat image_id 0 0 s;
          if io_result \<noteq> 0 then Some (io_result, image_data, s) else do {
          (io_result, image_handle, s) \<leftarrow> io_open F dev_handle image_spec 0 s;
          if io_result \<noteq> 0 then Some (io_result, image_data, s) else do {
          (io_result, image_data, s) \<leftarrow> load_image_v2_body F image_handle image_data s;
          (close_result, s) \<leftarrow> io_close F image_handle s;
          (close_result, s) \<leftarrow> io_dev_close F dev_handle s;
          Some (io_result, image_data, s) } } }"

section \<open>Loading with authentication\<close>

text \<open>
  The authentication module's data beside memory: the flags of the images and the platform's
  state. Its functions run on the storage layer's memory.
\<close>

record 'p auth_data =
  ad_flags :: "u32 list"
  ad_plat :: 'p

definition auth_view :: "'x io_state_scheme \<Rightarrow> 'p auth_data \<Rightarrow> 'p auth_world" where
  "auth_view s g = \<lparr>w_mem = io_mem s, w_flags = ad_flags g, w_plat = ad_plat g\<rparr>"

definition verify_img ::
  "'p auth_env \<Rightarrow> nat \<Rightarrow> image_info \<Rightarrow> 'x io_state_scheme \<Rightarrow> 'p auth_data \<Rightarrow>
   (int \<times> 'x io_state_scheme \<times> 'p auth_data) option"
where
  "verify_img e image_id image_data s g =
     do { (rc, w) \<leftarrow> auth_mod_verify_img e image_id (ii_image_base image_data) (ii_image_size image_data)
            (auth_view s g);
          let s = s\<lparr>io_mem := w_mem w\<rparr>;
          let g = g\<lparr>ad_flags := w_flags w, ad_plat := w_plat w\<rparr>;
          if rc \<noteq> 0 then
            Some (- EAUTH,
              s\<lparr>io_mem := memset (io_mem s) (ii_image_base image_data) 0 (ucast (ii_image_size image_data))\<rparr>, g)
          else Some (0, s, g) }"

text \<open>What \<open>load_auth_image\<close> does after its recursion: load the image, then authenticate it.\<close>

definition load_auth_one ::
  "'p auth_env \<Rightarrow> 'x io_state_scheme dev_table \<Rightarrow> 'x io_state_scheme image_source \<Rightarrow> meminfo \<Rightarrow> nat \<Rightarrow> u64 \<Rightarrow>
   image_info \<Rightarrow> entry_point_info option \<Rightarrow> 'x io_state_scheme \<Rightarrow> 'p auth_data \<Rightarrow>
   (int \<times> meminfo \<times> image_info \<times> entry_point_info option \<times> 'x io_state_scheme \<times> 'p auth_data) option"
where
  "load_auth_one e F plat mem_layout image_id image_base image_data ep s g =
     do { (rc, mem_layout, image_data, ep, s) \<leftarrow>
             load_image F plat mem_layout (of_nat image_id) image_base image_data ep s;
          if rc \<noteq> 0 then Some (rc, mem_layout, image_data, ep, s, g) else do {
          (rc, s, g) \<leftarrow> verify_img e image_id image_data s g;
          Some (rc, mem_layout, image_data, ep, s, g) } }"

text \<open>
  The recursion goes up the chain of trust; a chain with a cycle would never end, which is the value
  \<^term>\<open>None\<close>. The parents are loaded with a null entry point.
\<close>

partial_function (option) load_auth_image ::
  "'p auth_env \<Rightarrow> 'x io_state_scheme dev_table \<Rightarrow> 'x io_state_scheme image_source \<Rightarrow> meminfo \<Rightarrow> nat \<Rightarrow> u64 \<Rightarrow>
   image_info \<Rightarrow> entry_point_info option \<Rightarrow> 'x io_state_scheme \<Rightarrow> 'p auth_data \<Rightarrow>
   (int \<times> meminfo \<times> image_info \<times> entry_point_info option \<times> 'x io_state_scheme \<times> 'p auth_data) option"
where
  "load_auth_image e F plat mem_layout image_id image_base image_data ep s g =
     Option.bind (auth_mod_get_parent_id e image_id (auth_view s g)) (\<lambda>(rc, parent_id).
     Option.bind (if rc = 0 then load_auth_image e F plat mem_layout parent_id image_base image_data None s g
                  else Some (0, mem_layout, image_data, None, s, g))
       (\<lambda>(rc, mem_layout, image_data, _, s, g).
     if rc \<noteq> 0 then Some (rc, mem_layout, image_data, ep, s, g)
     else load_auth_one e F plat mem_layout image_id image_base image_data ep s g))"

definition load_auth_one_v2 ::
  "'p auth_env \<Rightarrow> 'x io_state_scheme dev_table \<Rightarrow> 'x io_state_scheme image_source \<Rightarrow> nat \<Rightarrow>
   image_info \<Rightarrow> 'x io_state_scheme \<Rightarrow> 'p auth_data \<Rightarrow> (int \<times> image_info \<times> 'x io_state_scheme \<times> 'p auth_data) option"
where
  "load_auth_one_v2 e F plat image_id image_data s g =
     do { (rc, image_data, s) \<leftarrow> load_image_v2 F plat (of_nat image_id) image_data s;
          if rc \<noteq> 0 then Some (rc, image_data, s, g) else do {
          (rc, s, g) \<leftarrow> verify_img e image_id image_data s g;
          Some (rc, image_data, s, g) } }"

partial_function (option) load_auth_image_v2 ::
  "'p auth_env \<Rightarrow> 'x io_state_scheme dev_table \<Rightarrow> 'x io_state_scheme image_source \<Rightarrow> nat \<Rightarrow>
   image_info \<Rightarrow> 'x io_state_scheme \<Rightarrow> 'p auth_data \<Rightarrow> (int \<times> image_info \<times> 'x io_state_scheme \<times> 'p auth_data) option"
where
  "load_auth_image_v2 e F plat image_id image_data s g =
     Option.bind (auth_mod_get_parent_id e image_id (auth_view s g)) (\<lambda>(rc, parent_id).
     Option.bind (if rc = 0 then load_auth_image_v2 e F plat parent_id image_data s g
                  else Some (0, image_data, s, g))
       (\<lambda>(rc, image_data, s, g).
     if rc \<noteq> 0 then Some (rc, image_data, s, g)
     else load_auth_one_v2 e F plat image_id image_data s g))"

section \<open>Free memory\<close>

lemma uptr_overflow_iff: "check_uptr_overflow a b \<longleftrightarrow> unat a + unat b \<ge> 2 ^ 64"
proof -
  have "unat (- 1 :: u64) = 2 ^ 64 - 1"
    by (simp add: unsigned_minus_1_eq_mask mask_eq_exp_minus_1)
  then have "unat ((- 1 :: u64) - b) = 2 ^ 64 - 1 - unat b"
    by (metis unat_sub word_n1_ge)
  then show ?thesis
    using unsigned_less [of b, where ?'a = nat]
    by (auto simp: check_uptr_overflow_def word_less_nat_alt)
qed

lemma unat_minus_1: "(n :: u64) \<noteq> 0 \<Longrightarrow> unat (n - 1) = unat n - 1"
  by (simp add: unat_minus_one)

text \<open>A region is free exactly when, as a set of addresses, it lies in the free region.\<close>

lemma is_mem_free_iff:
  assumes "n \<noteq> 0"
  shows "is_mem_free fb fs a n \<longleftrightarrow>
    unat fb + unat fs \<le> 2 ^ 64 \<and> unat fb \<le> unat a \<and> unat a + unat n \<le> unat fb + unat fs"
proof (cases "fs = 0")
  case True
  then show ?thesis
    using assms unat_gt_0 [of n] by (auto simp: is_mem_free_def)
next
  case False
  note u = unat_minus_1 [OF assms] unat_minus_1 [OF False]
  have pos: "unat n > 0" "unat fs > 0" using assms False by (simp_all add: unat_gt_0)
  show ?thesis
  proof (cases "check_uptr_overflow fb (fs - 1) \<or> check_uptr_overflow a (n - 1)")
    case True
    then show ?thesis
      using assms False pos unfolding is_mem_free_def Let_def by (auto simp: uptr_overflow_iff u)
  next
    case ok: False
    then have e: "unat (fb + (fs - 1)) = unat fb + (unat fs - 1)" "unat (a + (n - 1)) = unat a + (unat n - 1)"
      by (simp_all add: uptr_overflow_iff u unat_add_lem [THEN iffD1])
    from ok show ?thesis
      using assms False pos unfolding is_mem_free_def Let_def
      by (auto simp: word_le_nat_alt e uptr_overflow_iff u)
  qed
qed

text \<open>
  Reserving a free region never stops; what stays free lies in the old free region, is disjoint from
  the reserved one, and is the larger of the two parts around it.
\<close>

lemma reserve_mem_spec:
  assumes "is_mem_free fb fs a n" and "n \<noteq> 0"
  obtains fb' fs' where "reserve_mem fb fs a n = Some (fb', fs')"
    "fs' = 0 \<or> unat fb \<le> unat fb' \<and> unat fb' + unat fs' \<le> unat fb + unat fs \<and>
       (unat a + unat n \<le> unat fb' \<or> unat fb' + unat fs' \<le> unat a)"
    "unat fs' = max (unat a - unat fb) (unat fb + unat fs - (unat a + unat n))"
proof -
  note f = assms(1) [unfolded is_mem_free_iff [OF assms(2)]]
  have pos: "unat n > 0" using assms(2) by (simp add: unat_gt_0)
  with f have "fs \<noteq> 0" by auto
  note pos = pos this
  have fsn: "unat fs > 0" using pos(2) by (simp add: unat_gt_0)
  have "unat fb + unat fs - 1 < 2 ^ 64" "unat a + unat n - 1 < 2 ^ 64" using f pos fsn by auto
  then have e: "unat (fb + (fs - 1)) = unat fb + unat fs - 1" "unat (a + (n - 1)) = unat a + unat n - 1"
    using pos fsn unat_minus_1 [OF assms(2)] unat_minus_1 [OF pos(2)] by (simp_all add: unat_word_ariths)
  have g: "fb \<le> a" "a \<le> a + (n - 1)" "a + (n - 1) \<le> fb + (fs - 1)"
    using f pos fsn by (simp_all only: word_le_nat_alt e) auto
  have c: "unat (fb + (fs - 1) - (a + (n - 1))) = unat fb + unat fs - (unat a + unat n)"
    "unat (a - fb) = unat a - unat fb"
    using f pos fsn by (simp_all only: unat_sub [OF g(3)] unat_sub [OF g(1)] e)
  show ?thesis
  proof (cases "fb + (fs - 1) - (a + (n - 1)) < a - fb")
    case True
    let ?fs = "fs - (n + (fb + (fs - 1) - (a + (n - 1))))"
    have "?fs = a - fb" by simp
    then have "unat ?fs = unat a - unat fb" using c(2) by (simp only:)
    with True show ?thesis
      using f assms g c by (intro that [of fb ?fs])
        (auto simp: reserve_mem_def choose_mem_pos_def word_less_nat_alt)
  next
    case False
    let ?fs = "fs - (n + (a - fb))"
    have s: "?fs = fb + (fs - 1) - (a + (n - 1))" by simp
    then have fs: "unat ?fs = unat fb + unat fs - (unat a + unat n)" using c(1) by (simp only:)
    have "?fs = 0 \<or> unat (a + n) = unat a + unat n"
    proof (cases "unat a + unat n < 2 ^ 64")
      case True
      then show ?thesis by (simp add: unat_add_lem [THEN iffD1])
    next
      case False
      with f fs have "unat ?fs = 0" by simp
      then show ?thesis by (simp add: unat_eq_zero)
    qed
    with False show ?thesis
      using f assms g c fs by (intro that [of "a + n" ?fs])
        (auto simp: reserve_mem_def choose_mem_pos_def word_less_nat_alt)
  qed
qed

section \<open>Loading keeps the handles\<close>

text \<open>
  On every path, errors included, the functions that load images release the handle they take, for
  all devices that keep the contract of the storage layer.
\<close>

lemma load_image_body_kept:
  assumes "io_table F" and "load_image_body F h b lay img ep s = Some (rc, lay', img', ep', s')" and "io_used s h"
    and "wf_io s"
  shows "kept h s s'"
proof -
  from assms(2) obtain r n s1 where 1: "io_size F h 0 s = Some (r, n, s1)"
    and 2: "s' = s1 \<or> (\<exists>r2 n2. io_read F h b n 0 s1 = Some (r2, n2, s'))"
    by (auto simp: load_image_body_def bind_eq_Some_conv Let_def split: if_splits option.splits)
  have k1: "kept h s s1" by (rule io_table.size_keeps [OF assms(1) 1 assms(3)])
  then have "io_used s1 h" using assms(3,4) by (simp add: kept_def io_used_def)
  with 2 k1 show ?thesis
    using io_table.read_keeps [OF assms(1)] kept_trans by metis
qed

lemma load_image_v2_body_kept:
  assumes "io_table F" and "load_image_v2_body F h img s = Some (rc, img', s')" and "io_used s h"
    and "wf_io s"
  shows "kept h s s'"
proof -
  from assms(2) obtain r n s1 where 1: "io_size F h 0 s = Some (r, n, s1)"
    and 2: "s' = s1 \<or> (\<exists>r2 n2. io_read F h (ii_image_base img) n 0 s1 = Some (r2, n2, s'))"
    by (auto simp: load_image_v2_body_def bind_eq_Some_conv Let_def split: if_splits)
  have k1: "kept h s s1" by (rule io_table.size_keeps [OF assms(1) 1 assms(3)])
  then have "io_used s1 h" using assms(3,4) by (simp add: kept_def io_used_def)
  with 2 k1 show ?thesis
    using io_table.read_keeps [OF assms(1)] kept_trans by metis
qed

text \<open>An open, a use that keeps the contract, a close and a device close.\<close>

lemma device_session_kept:
  assumes "io_table F" and "io_open F d q h s = Some (0, h', s1)"
    and use: "io_used s1 h' \<Longrightarrow> wf_io s1 \<Longrightarrow> kept h' s1 s2"
    and "io_close F h' s2 = Some (rc, s3)" and "io_dev_close F d s3 = Some (rc', s4)"
  shows "kept MAX_IO_HANDLES s s4"
proof -
  have "kept MAX_IO_HANDLES s s3"
    by (rule io_table.session_kept [OF assms(1,2) kept2_left [OF use] assms(4)])
  moreover have "kept MAX_IO_HANDLES s3 s4" by (rule io_table.dev_close_keeps [OF assms(1,5)])
  ultimately show ?thesis by (rule kept_trans)
qed

lemma load_image_kept:
  assumes T: "io_table F" and P: "source_kept plat"
    and run: "load_image F plat lay i b img ep s = Some (rc, lay', img', ep', s')"
  shows "kept MAX_IO_HANDLES s s'"
proof -
  from run obtain r d q s1 where 1: "plat i 0 0 s = Some (r, d, q, s1)"
    and 2: "s' = s1 \<or> (\<exists>r2 h s2. io_open F d q 0 s1 = Some (r2, h, s2) \<and>
      (r2 \<noteq> 0 \<and> s' = s2 \<or>
       r2 = 0 \<and> (\<exists>c c' s3 s4. load_image_body F h b lay img ep s2 = Some (rc, lay', img', ep', s3) \<and>
         io_close F h s3 = Some (c, s4) \<and> io_dev_close F d s4 = Some (c', s'))))"
    by (fastforce simp: load_image_def bind_eq_Some_conv split: if_splits)
  have "kept MAX_IO_HANDLES s s1" by (rule source_keptD [OF P 1])
  moreover from 2 have "kept MAX_IO_HANDLES s1 s'"
    using io_table.open_failed_kept [OF T] device_session_kept [OF T] load_image_body_kept [OF T] kept_refl by metis
  ultimately show ?thesis by (rule kept_trans)
qed

lemma load_image_v2_kept:
  assumes T: "io_table F" and P: "source_kept plat"
    and run: "load_image_v2 F plat i img s = Some (rc, img', s')"
  shows "kept MAX_IO_HANDLES s s'"
proof -
  from run obtain r d q s1 where 1: "plat i 0 0 s = Some (r, d, q, s1)"
    and 2: "s' = s1 \<or> (\<exists>r2 h s2. io_open F d q 0 s1 = Some (r2, h, s2) \<and>
      (r2 \<noteq> 0 \<and> s' = s2 \<or>
       r2 = 0 \<and> (\<exists>c c' s3 s4. load_image_v2_body F h img s2 = Some (rc, img', s3) \<and>
         io_close F h s3 = Some (c, s4) \<and> io_dev_close F d s4 = Some (c', s'))))"
    by (fastforce simp: load_image_v2_def bind_eq_Some_conv split: if_splits)
  have "kept MAX_IO_HANDLES s s1" by (rule source_keptD [OF P 1])
  moreover from 2 have "kept MAX_IO_HANDLES s1 s'"
    using io_table.open_failed_kept [OF T] device_session_kept [OF T] load_image_v2_body_kept [OF T] kept_refl by metis
  ultimately show ?thesis by (rule kept_trans)
qed

lemma image_size_kept:
  assumes T: "io_table F" and P: "source_kept plat"
    and run: "image_size F plat i s = Some (n, s')"
  shows "kept MAX_IO_HANDLES s s'"
proof -
  from run obtain r d q s1 where 1: "plat i 0 0 s = Some (r, d, q, s1)"
    and 2: "s' = s1 \<or> (\<exists>r2 h s2. io_open F d q 0 s1 = Some (r2, h, s2) \<and>
      (r2 \<noteq> 0 \<and> s' = s2 \<or>
       r2 = 0 \<and> (\<exists>c c' c2 s3 s4. io_size F h 0 s2 = Some (c2, n, s3) \<and>
         io_close F h s3 = Some (c, s4) \<and> io_dev_close F d s4 = Some (c', s'))))"
    by (fastforce simp: image_size_def bind_eq_Some_conv split: if_splits)
  have "kept MAX_IO_HANDLES s s1" by (rule source_keptD [OF P 1])
  moreover from 2 have "kept MAX_IO_HANDLES s1 s'"
    using io_table.open_failed_kept [OF T] device_session_kept [OF T] io_table.size_keeps [OF T] kept_refl by metis
  ultimately show ?thesis by (rule kept_trans)
qed

section \<open>Loading from a package on the Marvell platforms\<close>

text \<open>The storage layer between two loads: set up, two handles free, the driver's file closed.\<close>

definition mv_ready :: "marvell_addrs \<Rightarrow> u64 \<Rightarrow> fip_entry list \<Rightarrow> 'x marvell_state_scheme \<Rightarrow> bool" where
  "mv_ready A B es s \<longleftrightarrow>
     mv_ok A B es s \<and> io_free2 s \<and> entry_offset_address (io_mem s) (fa_entry (ma_fip A)) = 0"

text \<open>
  The bytes that loading an image of \<open>n\<close> bytes must not overwrite, and the destination and the
  image's bytes in the package (at \<open>src\<close>) that satisfy this.
\<close>

definition load_ok :: "marvell_addrs \<Rightarrow> u64 \<Rightarrow> nat \<Rightarrow> u64 \<Rightarrow> u64 \<Rightarrow> u64 \<Rightarrow> bool" where
  "load_ok A B k dst src n \<longleftrightarrow>
     (\<forall>a. in_range dst n a \<longrightarrow>
        \<not> pkg_bytes A B k a \<and> \<not> in_range (fa_entry (ma_fip A)) 40 a \<and> \<not> in_range src n a) \<and>
     (\<forall>a. in_range src n a \<longrightarrow>
        \<not> in_range (fa_entry (ma_fip A)) 40 a \<and> \<not> in_range (fa_header (ma_fip A)) 16 a)"

lemma in_range_nth: "i < unat n \<Longrightarrow> in_range b n (b + of_nat i)" for n :: u64
  using unsigned_less [of n, where ?'a = nat]
  by (simp add: in_range_def word_less_nat_alt unat_of_nat)

lemma in_range_shift: "in_range dst n a \<Longrightarrow> in_range src n (src + (a - dst))"
  by (simp add: in_range_def)

lemma package_dev_close:
  assumes "pkg_addrs A B n"
  shows "io_dev_close (marvell_devices A) (ma_fip_dev A) s =
    Some (0, s\<lparr>ff_backend_dev_handle := 0, ff_backend_image_spec := 0\<rparr>)"
  using pkg_addrsD(4) [OF assms]
  by (simp add: io_dev_close_def fip_dev_funcs_def fip_dev_close_def pkg_addrsD(3,5) [OF assms])

lemma mv_ok_map_mem:
  assumes "mv_ok A B es s" "mv_same s s'" "pkg_addrs A B (length es)"
    and "\<And>a. pkg_bytes A B (length es) a \<Longrightarrow> io_mem s' a = io_mem s a"
  shows "mv_ok A B es s'"
  using assms(1,2) pkg_at_cong [OF _ assms(3,4)] ms_more [of s' s]
  by (simp add: mv_ok_def mv_same_def)

text \<open>The part of \<open>load_image\<close> between the open and the close.\<close>

lemma load_body_package:
  assumes ok: "mv_ok A B es s" and ad: "pkg_addrs A B (length es)" and bk: "pkg_backend A s" and free: "io_free s"
    and fl: "pkg_file A x e s" "ff_file_pos s = 0"
    and n: "fe_size x \<noteq> 0" and fr: "is_mem_free (mi_free_base lay) (mi_free_size lay) b (fe_size x)"
    and ld: "load_ok A B (length es) b (B + fe_offset x) (fe_size x)"
  obtains lay' ep' s' where
    "load_image_body (marvell_devices A) e b lay img ep s =
      Some (0, lay', img\<lparr>ii_image_base := b, ii_image_size := ucast (fe_size x)\<rparr>, ep', s')"
    "ep' = map_option (ep_pc_update (\<lambda>_. b)) ep"
    "if ep = None then lay' = lay else
       reserve_mem (mi_free_base lay) (mi_free_size lay) b (fe_size x) = Some (mi_free_base lay', mi_free_size lay') \<and>
       mi_total_base lay' = mi_total_base lay \<and> mi_total_size lay' = mi_total_size lay"
    "mv_ok A B es s'" "io_mem s' = memcpy (io_mem s) b (B + fe_offset x) (fe_size x)"
    "io_entity_map s' = io_entity_map s" "ie_dev_handle (io_entity_pool s' ! e) = ma_fip_dev A"
proof -
  have wf: "wf_io s" using ok by (simp add: mv_ok_def)
  obtain s' where s': "io_read (marvell_devices A) e b (fe_size x) 0 s = Some (0, fe_size x, s')"
    "io_mem s' = memcpy (io_mem s) b (B + fe_offset x) (fe_size x)"
    "mv_same s s'" "ie_dev_handle (io_entity_pool s' ! e) = ma_fip_dev A"
    using package_read [OF ok ad bk free fl(1), of b "fe_size x" 0] fl(2) by (metis add.right_neutral unsigned_0)
  have "mv_ok A B es s'"
    using ld by (intro mv_ok_map_mem [OF ok s'(3) ad]) (auto simp: s'(2) load_ok_def intro!: memcpy_outside)
  moreover have "io_entity_map s' = io_entity_map s" using s'(3) by (simp add: mv_same_def)
  moreover obtain fb fs where "reserve_mem (mi_free_base lay) (mi_free_size lay) b (fe_size x) = Some (fb, fs)"
    by (rule reserve_mem_spec [OF fr n])
  moreover note size = package_size [OF wf ad fl(1), of 0]
  ultimately show thesis
  proof (cases ep)
    case None
    then show ?thesis
      using s' n fr size \<open>mv_ok A B es s'\<close> \<open>io_entity_map s' = io_entity_map s\<close>
      by (intro that [of lay None s']) (simp_all add: load_image_body_def)
  next
    case (Some ei)
    then show ?thesis
      using s' n fr size \<open>mv_ok A B es s'\<close> \<open>io_entity_map s' = io_entity_map s\<close>
        \<open>reserve_mem (mi_free_base lay) (mi_free_size lay) b (fe_size x) = Some (fb, fs)\<close>
      by (intro that [of "lay\<lparr>mi_free_base := fb, mi_free_size := fs\<rparr>" "Some (ei\<lparr>ep_pc := b\<rparr>)" s'])
        (simp_all add: load_image_body_def)
  qed
qed

lemma io_free2_map: "io_entity_map s' = io_entity_map s \<Longrightarrow> io_free2 s' = io_free2 s"
  by (simp add: io_free2_def)

lemma io_free2_one:
  assumes "io_free2 s" and "io_entity_map s' = (io_entity_map s)[e := Some e]"
  shows "io_free s'"
  using assms unfolding io_free2_def io_free_def by (metis nth_list_update_neq)

lemma package_load_image:
  assumes rd: "mv_ready A B es s" and ad: "pkg_addrs A B (length es)"
    and i: "0 < unat i" "unat i < 6"
    and u: "mem_bytes (io_mem s) (pp_image_spec (policies A ! unat i)) 16 = u" "u \<noteq> uuid_null"
    and k: "toc_index u es < length es" and x: "x = es ! toc_index u es"
    and n: "fe_size x \<noteq> 0" and fr: "is_mem_free (mi_free_base lay) (mi_free_size lay) b (fe_size x)"
    and ld: "load_ok A B (length es) b (B + fe_offset x) (fe_size x)" and v: "ii_version img = VERSION_1"
  obtains lay' s' where
    "load_image (marvell_devices A) (plat_get_image_source A (marvell_devices A)) lay i b img ep s =
       Some (0, lay', img\<lparr>ii_image_base := b, ii_image_size := ucast (fe_size x)\<rparr>,
         map_option (ep_pc_update (\<lambda>_. b)) ep, s')"
    "if ep = None then lay' = lay else
       reserve_mem (mi_free_base lay) (mi_free_size lay) b (fe_size x) = Some (mi_free_base lay', mi_free_size lay') \<and>
       mi_total_base lay' = mi_total_base lay \<and> mi_total_size lay' = mi_total_size lay"
    "mv_ready A B es s'" "io_entity_map s' = io_entity_map s"
    "\<And>j. j < unat (fe_size x) \<Longrightarrow> io_mem s' (b + of_nat j) = io_mem s (B + fe_offset x + of_nat j)"
    "\<And>a. \<not> in_range b (fe_size x) a \<Longrightarrow> \<not> in_range (fa_entry (ma_fip A)) 40 a \<Longrightarrow>
       \<not> in_range (fa_header (ma_fip A)) 16 a \<Longrightarrow> io_mem s' a = io_mem s a"
proof -
  let ?p = "policies A ! unat i" and ?E = "fa_entry (ma_fip A)"
  have pin: "?p \<in> set (policies A)" using i by (simp add: nth_mem)
  have ok: "mv_ok A B es s" and free: "io_free2 s" and z: "entry_offset_address (io_mem s) ?E = 0"
    using rd by (auto simp: mv_ready_def)
  obtain s1 where s1: "plat_get_image_source A (marvell_devices A) i 0 0 s =
      Some (0, ma_fip_dev A, pp_image_spec ?p, s1)"
    "mv_ok A B es s1" "pkg_backend A s1" "mv_same s s1" "same_outside A (io_mem s) (io_mem s1)"
    "entry_offset_address (io_mem s1) ?E = 0"
    by (rule image_source [OF ok ad free z i refl u refl k])
  have m1: "io_entity_map s1 = io_entity_map s" using s1(4) by (simp add: mv_same_def)
  have u1: "mem_bytes (io_mem s1) (pp_image_spec ?p) 16 = u"
    using same_outside_spec [OF s1(5) ad pin] u(1) by simp
  obtain e s2 where s2: "io_open (marvell_devices A) (ma_fip_dev A) (pp_image_spec ?p) 0 s1 = Some (0, e, s2)"
    "e < MAX_IO_HANDLES" "io_entity_map s1 ! e = None" "io_entity_map s2 = (io_entity_map s1)[e := Some e]"
    "mv_ok A B es s2" "pkg_backend A s2" "pkg_file A x e s2" "ff_file_pos s2 = 0"
    "io_mem s2 = memcpy (io_mem s1) ?E (B + sizeof_header + of_nat (40 * toc_index u es)) sizeof_entry"
    using package_open [OF s1(2) ad s1(3) io_free2_map [THEN iffD2, OF m1 free] s1(6) pin u1 u(2) refl k] x by metis
  have f2: "io_free s2" by (rule io_free2_one [OF free]) (simp add: s2(4) m1)
  obtain lay' s3 where s3: "load_image_body (marvell_devices A) e b lay img ep s2 =
      Some (0, lay', img\<lparr>ii_image_base := b, ii_image_size := ucast (fe_size x)\<rparr>,
        map_option (ep_pc_update (\<lambda>_. b)) ep, s3)"
    "if ep = None then lay' = lay else
       reserve_mem (mi_free_base lay) (mi_free_size lay) b (fe_size x) = Some (mi_free_base lay', mi_free_size lay') \<and>
       mi_total_base lay' = mi_total_base lay \<and> mi_total_size lay' = mi_total_size lay"
    "mv_ok A B es s3" "io_mem s3 = memcpy (io_mem s2) b (B + fe_offset x) (fe_size x)"
    "io_entity_map s3 = io_entity_map s2" "ie_dev_handle (io_entity_pool s3 ! e) = ma_fip_dev A"
    using load_body_package [OF s2(5) ad s2(6) f2 s2(7,8) n fr ld, of img ep] by metis
  have "io_used s3 e" using s2(7) s3(5) by (simp add: pkg_file_def io_used_def)
  then obtain s4 where s4: "io_close (marvell_devices A) e s3 = Some (0, s4)" "mv_ok A B es s4"
    "io_entity_map s4 = (io_entity_map s3)[e := None]"
    "entry_offset_address (io_mem s4) ?E = 0" "\<And>a. \<not> in_range ?E 40 a \<Longrightarrow> io_mem s4 a = io_mem s3 a"
    using package_close [OF s3(3) ad _ s3(6)] by metis
  let ?s = "s4\<lparr>ff_backend_dev_handle := 0, ff_backend_image_spec := 0\<rparr>"
  have map: "io_entity_map s4 = io_entity_map s"
    using s2(3) by (simp add: s4(3) s3(5) s2(4) m1) (metis list_update_id)
  have "mv_ready A B es ?s"
    using s4(2,4) free map by (simp add: mv_ready_def mv_ok_def mm_idle_def wf_io_def io_free2_def)
  moreover have out: "io_mem s2 a = io_mem s a" if "\<not> in_range ?E 40 a" "\<not> in_range (fa_header (ma_fip A)) 16 a" for a
    using that s1(5) by (simp add: s2(9) sizeof_entry_def memcpy_outside same_outside_def)
  moreover have "io_mem s4 (b + of_nat j) = io_mem s (B + fe_offset x + of_nat j)" if "j < unat (fe_size x)" for j
    using in_range_nth [OF that] ld
    by (simp add: s4(5) s3(4) memcpy_inside load_ok_def out)
  moreover have "io_mem s4 a = io_mem s a"
    if "\<not> in_range b (fe_size x) a" "\<not> in_range ?E 40 a" "\<not> in_range (fa_header (ma_fip A)) 16 a" for a
    using that by (simp add: s4(5) s3(4) memcpy_outside out)
  ultimately show thesis
    using s1(1) s2(1) s3(1,2) s4(1) v map package_dev_close [OF ad, of s4]
    by (intro that [of lay' ?s]) (simp_all add: load_image_def)
qed

section \<open>The chain of trust\<close>

definition mark :: "'p auth_data \<Rightarrow> nat \<Rightarrow> bool" where
  "mark g i \<longleftrightarrow> i < length (ad_flags g) \<and> ad_flags g ! i AND IMG_FLAG_AUTHENTICATED \<noteq> 0"

definition parent_of :: "'p auth_env \<Rightarrow> nat \<Rightarrow> nat \<Rightarrow> bool" where
  "parent_of e i p \<longleftrightarrow> i < length (ae_cot e) \<and> ai_parent (ae_cot e ! i) = Some p"

text \<open>The image and all its ancestors carry their own ids.\<close>

definition own_chain :: "'p auth_env \<Rightarrow> nat \<Rightarrow> bool" where
  "own_chain e i \<longleftrightarrow> (\<forall>j. (parent_of e)\<^sup>*\<^sup>* i j \<longrightarrow> own_id e j)"

lemma own_chain_id: "own_chain e i \<Longrightarrow> own_id e i"
  by (simp add: own_chain_def)

lemma own_chain_parent: "own_chain e i \<Longrightarrow> parent_of e i p \<Longrightarrow> own_chain e p"
  unfolding own_chain_def by (blast intro: converse_rtranclp_into_rtranclp)

text \<open>Only images whose parents have been authenticated have been authenticated.\<close>

definition chain_ok :: "'p auth_env \<Rightarrow> 'p auth_data \<Rightarrow> bool" where
  "chain_ok e g \<longleftrightarrow> (\<forall>i p. parent_of e i p \<and> mark g i \<longrightarrow> mark g p)"

lemma mark_view [simp]: "marked (auth_view s g) i = mark g i"
  by (simp add: marked_def mark_def auth_view_def)

lemma chain_ok_ancestors: "(parent_of e)\<^sup>*\<^sup>* i j \<Longrightarrow> chain_ok e g \<Longrightarrow> mark g i \<Longrightarrow> mark g j"
  by (induction rule: rtranclp_induct) (auto simp: chain_ok_def)

lemma auth_mod_get_parent_id_cases:
  assumes "auth_mod_get_parent_id e i (auth_view s g) = Some (rc, p)" and "own_chain e i"
  shows "i < length (ae_cot e) \<and> (if rc = 0 then parent_of e i p \<and> \<not> mark g p
    else (\<forall>p. parent_of e i p \<longrightarrow> mark g p))"
proof -
  have "own_id e q" if "parent_of e i q" for q
    using own_chain_id [OF own_chain_parent [OF assms(2) that]] .
  then show ?thesis
    using assms(1)
    by (auto simp: auth_mod_get_parent_id_def bind_eq_Some_conv nth_opt_eq_Some parent_of_def mark_def auth_view_def
        own_id_def split: option.splits if_splits)
qed

text \<open>The mark that one verification may set.\<close>

lemma verify_img_marks:
  assumes "verify_img e i img s g = Some (rc, s', g')" and "own_id e i"
  shows "mark g' j \<longleftrightarrow> mark g j \<or> (j = i \<and> rc = 0)"
proof -
  from assms(1) obtain r w where w: "auth_mod_verify_img e i (ii_image_base img) (ii_image_size img) (auth_view s g) = Some (r, w)"
    and g': "ad_flags g' = w_flags w" and rc: "rc = (if r = 0 then 0 else - EAUTH)"
    by (auto simp: verify_img_def bind_eq_Some_conv Let_def split: if_splits)
  from w obtain d where d: "nth_opt (ae_cot e) i = Some d" "r \<noteq> 0 \<Longrightarrow> w_flags w = ad_flags g"
    "r = 0 \<Longrightarrow> ai_img_id d < length (ad_flags g) \<and>
       w_flags w = (ad_flags g)[ai_img_id d := ad_flags g ! ai_img_id d OR IMG_FLAG_AUTHENTICATED]"
    by (rule auth_mod_verify_img_cases) (simp add: auth_view_def)
  have "ai_img_id d = i" using d(1) assms(2) by (simp add: own_id_def)
  then show ?thesis
    using d(2,3) g' rc by (auto simp: mark_def nth_list_update errno_defs IMG_FLAG_AUTHENTICATED_def)
qed

lemma load_auth_one_chain:
  assumes run: "load_auth_one e F plat lay i b img ep s g = Some (rc, lay', img', ep', s', g')"
    and wf: "own_id e i" and ok: "chain_ok e g" and par: "\<And>p. parent_of e i p \<Longrightarrow> mark g p"
  shows "chain_ok e g'" "mark g j \<Longrightarrow> mark g' j" "rc = 0 \<Longrightarrow> mark g' i"
    "rc = 0 \<Longrightarrow> \<exists>s1. verify_img e i img' s1 g = Some (0, s', g')"
proof -
  from run have 1: "g' = g \<and> rc \<noteq> 0 \<or> (\<exists>s1. verify_img e i img' s1 g = Some (rc, s', g'))"
    by (auto simp: load_auth_one_def bind_eq_Some_conv split: if_splits)
  then show "mark g j \<Longrightarrow> mark g' j" "rc = 0 \<Longrightarrow> mark g' i"
    "rc = 0 \<Longrightarrow> \<exists>s1. verify_img e i img' s1 g = Some (0, s', g')"
    using verify_img_marks [OF _ wf] by blast+
  show "chain_ok e g'"
    using 1 verify_img_marks [OF _ wf] ok par unfolding chain_ok_def by blast
qed

definition chain_step :: "'p auth_env \<Rightarrow> nat \<Rightarrow> 'p auth_data \<Rightarrow> int \<Rightarrow> image_info \<Rightarrow> 'x io_state_scheme \<Rightarrow> 'p auth_data \<Rightarrow> bool"
where
  "chain_step e i g rc img' s' g' \<longleftrightarrow>
     chain_ok e g' \<and> (\<forall>j. mark g j \<longrightarrow> mark g' j) \<and>
     (rc = 0 \<longrightarrow> mark g' i \<and> (\<exists>s1 g1. verify_img e i img' s1 g1 = Some (0, s', g') \<and> chain_ok e g1 \<and>
        (\<forall>p. parent_of e i p \<longrightarrow> mark g1 p)))"

lemma load_auth_one_step:
  assumes "load_auth_one e F plat lay i b img ep s g = Some (rc, lay', img', ep', s', g')"
    and "own_id e i" and "chain_ok e g" and "\<And>p. parent_of e i p \<Longrightarrow> mark g p"
    and "\<And>j. mark g0 j \<Longrightarrow> mark g j"
  shows "chain_step e i g0 rc img' s' g'"
  using load_auth_one_chain [OF assms(1,2,3,4)] assms(3,4,5) unfolding chain_step_def by blast

lemma load_auth_image_chain:
  assumes run: "load_auth_image e F plat lay i b img ep s g = Some (rc, lay', img', ep', s', g')"
    and wf: "own_chain e i" and ok: "chain_ok e g"
  shows "chain_step e i g rc img' s' g'"
proof -
  have "(\<lambda>e F plat lay i b img ep s g (rc, lay', img', ep', s', g').
      own_chain e i \<longrightarrow> chain_ok e g \<longrightarrow> chain_step e i g rc img' s' g')
     e F plat lay i b img ep s g (rc, lay', img', ep', s', g')"
  proof (rule load_auth_image.raw_induct [OF _ run], goal_cases)
    case (1 L e F plat lay i b img ep s g y)
    obtain rc lay' img' ep' s' g' where y: "y = (rc, lay', img', ep', s', g')" by (cases y)
    have "chain_step e i g rc img' s' g'" if wf: "own_chain e i" and ok: "chain_ok e g"
    proof -
      from 1(2) y obtain r p where p: "auth_mod_get_parent_id e i (auth_view s g) = Some (r, p)"
        and body: "Option.bind (if r = 0 then L e F plat lay p b img None s g else Some (0, lay, img, None, s, g))
          (\<lambda>(rc, lay, img, _, s, g). if rc \<noteq> 0 then Some (rc, lay, img, ep, s, g)
             else load_auth_one e F plat lay i b img ep s g) = Some (rc, lay', img', ep', s', g')"
        by (auto simp: bind_eq_Some_conv)
      note pc = auth_mod_get_parent_id_cases [OF p wf]
      show ?thesis
      proof (cases "r = 0")
        case True
        with body obtain r1 lay1 img1 ep1 s1 g1 where L: "L e F plat lay p b img None s g = Some (r1, lay1, img1, ep1, s1, g1)"
          and rest: "r1 \<noteq> 0 \<and> rc = r1 \<and> g' = g1 \<or> r1 = 0 \<and> load_auth_one e F plat lay1 i b img1 ep s1 g1 = Some (rc, lay', img', ep', s', g')"
          by (auto simp: bind_eq_Some_conv split: if_splits)
        have "own_chain e p" using own_chain_parent [OF wf] pc True by simp
        with 1(1) [OF L] ok have st: "chain_step e p g r1 img1 s1 g1" by simp
        have pp: "q = p" if "parent_of e i q" for q
          using that pc True by (simp add: parent_of_def)
        from rest show ?thesis
        proof
          assume "r1 \<noteq> 0 \<and> rc = r1 \<and> g' = g1"
          with st show ?thesis by (auto simp: chain_step_def)
        next
          assume r: "r1 = 0 \<and> load_auth_one e F plat lay1 i b img1 ep s1 g1 = Some (rc, lay', img', ep', s', g')"
          show ?thesis
            by (rule load_auth_one_step [OF r [THEN conjunct2] own_chain_id [OF wf]])
              (use st pp r in \<open>auto simp: chain_step_def\<close>)
        qed
      next
        case False
        with body pc ok show ?thesis by (intro load_auth_one_step [OF _ own_chain_id [OF wf]]) auto
      qed
    qed
    with y show ?case by simp
  qed
  with wf ok show ?thesis by simp
qed

section \<open>The recursion as a loop from the root\<close>

text \<open>
  The images that \<open>load_auth_image\<close> loads for \<open>i\<close>, from the highest ancestor that has not been
  authenticated down to \<open>i\<close>, found in at most \<open>n\<close> steps up the chain.
\<close>

fun auth_path :: "'p auth_env \<Rightarrow> 'p auth_world \<Rightarrow> nat \<Rightarrow> nat \<Rightarrow> nat list option" where
  "auth_path e w 0 i = None"
| "auth_path e w (Suc n) i =
     do { (rc, p) \<leftarrow> auth_mod_get_parent_id e i w;
          if rc = 0 then do { ps \<leftarrow> auth_path e w n p; Some (ps @ [i]) }
          else Some [i] }"

text \<open>Loading the images of a path one after the other; only the last one is given the entry point.\<close>

fun load_path ::
  "'p auth_env \<Rightarrow> 'x io_state_scheme dev_table \<Rightarrow> 'x io_state_scheme image_source \<Rightarrow> u64 \<Rightarrow> entry_point_info option \<Rightarrow>
   nat list \<Rightarrow> meminfo \<Rightarrow> image_info \<Rightarrow> 'x io_state_scheme \<Rightarrow> 'p auth_data \<Rightarrow>
   (int \<times> meminfo \<times> image_info \<times> entry_point_info option \<times> 'x io_state_scheme \<times> 'p auth_data) option"
where
  "load_path e F plat b ep [] lay img s g = Some (0, lay, img, ep, s, g)"
| "load_path e F plat b ep (i # is) lay img s g =
     do { (rc, lay, img, ep', s, g) \<leftarrow> load_auth_one e F plat lay i b img (if is = [] then ep else None) s g;
          if is = [] then Some (rc, lay, img, ep', s, g)
          else if rc \<noteq> 0 then Some (rc, lay, img, ep, s, g)
          else load_path e F plat b ep is lay img s g }"

lemma load_path_snoc:
  "ps \<noteq> [] \<Longrightarrow> load_path e F plat b ep (ps @ [i]) lay img s g =
     Option.bind (load_path e F plat b None ps lay img s g) (\<lambda>(rc, lay, img, _, s, g).
       if rc \<noteq> 0 then Some (rc, lay, img, ep, s, g) else load_auth_one e F plat lay i b img ep s g)"
proof (induction ps arbitrary: lay img s g)
  case Nil
  then show ?case by simp
next
  case (Cons p ps)
  show ?case
  proof (cases "ps = []")
    case True
    then show ?thesis
      by (auto simp: split_def intro!: Option.bind_cong)
  next
    case False
    with Cons.IH show ?thesis
      by (auto simp: split_def intro!: Option.bind_cong)
  qed
qed

lemma auth_path_nonempty: "auth_path e w n i = Some ps \<Longrightarrow> ps \<noteq> []"
  by (cases n) (auto simp: bind_eq_Some_conv split: if_splits)

lemma auth_path_length: "auth_path e w n i = Some ps \<Longrightarrow> length ps \<le> n"
  by (induction n arbitrary: i ps) (auto simp: bind_eq_Some_conv split: if_splits)

lemma load_auth_image_path:
  "auth_path e (auth_view s g) n i = Some ps \<Longrightarrow>
   load_auth_image e F plat lay i b img ep s g = load_path e F plat b ep ps lay img s g"
proof (induction n arbitrary: i ps ep)
  case 0
  then show ?case by simp
next
  case (Suc n)
  then obtain rc p where p: "auth_mod_get_parent_id e i (auth_view s g) = Some (rc, p)"
    by (auto simp: bind_eq_Some_conv)
  show ?case
  proof (cases "rc = 0")
    case True
    with Suc.prems p obtain qs where qs: "auth_path e (auth_view s g) n p = Some qs" "ps = qs @ [i]"
      by (auto simp: bind_eq_Some_conv)
    show ?thesis
      unfolding load_auth_image.simps [of e F plat lay i] qs(2) load_path_snoc [OF auth_path_nonempty [OF qs(1)]]
      using True by (simp add: p Suc.IH [OF qs(1)])
  next
    case False
    with Suc.prems p have "ps = [i]" by simp
    with False p show ?thesis
      by (subst load_auth_image.simps) (simp add: split_def)
  qed
qed

text \<open>A chain of trust without cycles: every image has a rank above its parent's.\<close>

definition cot_ranked :: "'p auth_env \<Rightarrow> (nat \<Rightarrow> nat) \<Rightarrow> bool" where
  "cot_ranked e r \<longleftrightarrow>
     (\<forall>i < length (ae_cot e). case ai_parent (ae_cot e ! i) of None \<Rightarrow> True
       | Some p \<Rightarrow> p < length (ae_cot e) \<and> ai_img_id (ae_cot e ! p) = p \<and> r p < r i)"

lemma cot_rankedD:
  assumes "cot_ranked e r" and "i < length (ae_cot e)" and "ai_parent (ae_cot e ! i) = Some p"
  shows "p < length (ae_cot e)" "ai_img_id (ae_cot e ! p) = p" "r p < r i"
proof -
  from assms(1,2) have "case ai_parent (ae_cot e ! i) of None \<Rightarrow> True
      | Some p \<Rightarrow> p < length (ae_cot e) \<and> ai_img_id (ae_cot e ! p) = p \<and> r p < r i"
    unfolding cot_ranked_def by blast
  then show "p < length (ae_cot e)" "ai_img_id (ae_cot e ! p) = p" "r p < r i" by (simp_all add: assms(3))
qed

lemma auth_path_exists:
  assumes "cot_ranked e r" and "length (w_flags w) = length (ae_cot e)"
  shows "i < length (ae_cot e) \<Longrightarrow> \<exists>ps. auth_path e w (Suc (r i)) i = Some ps"
proof -
  have "\<exists>ps. auth_path e w (Suc n) i = Some ps" if "r i \<le> n" "i < length (ae_cot e)" for n
    using that
  proof (induction n arbitrary: i)
    case 0
    then have "ai_parent (ae_cot e ! i) = None"
      using cot_rankedD(3) [OF assms(1), of i] by (cases "ai_parent (ae_cot e ! i)") fastforce+
    with 0 show ?case by (simp add: auth_mod_get_parent_id_def nth_opt_def)
  next
    case (Suc n)
    show ?case
    proof (cases "ai_parent (ae_cot e ! i)")
      case None
      with Suc.prems show ?thesis by (simp add: auth_mod_get_parent_id_def nth_opt_def)
    next
      case (Some p)
      note p = cot_rankedD [OF assms(1) Suc.prems(2) Some]
      with Suc.IH [of p] Suc.prems obtain qs where qs: "auth_path e w (Suc n) p = Some qs" by auto
      have "auth_mod_get_parent_id e i w = Some (1, 0) \<or> auth_mod_get_parent_id e i w = Some (0, p)"
        using Some p assms(2) Suc.prems by (simp add: auth_mod_get_parent_id_def nth_opt_def)
      with qs show ?thesis
        by (auto simp: auth_path.simps(2) [of e w "Suc n"] simp del: auth_path.simps)
    qed
  qed
  then show "i < length (ae_cot e) \<Longrightarrow> \<exists>ps. auth_path e w (Suc (r i)) i = Some ps" by blast
qed

section \<open>Loading from a memory-mapped device\<close>

definition mm_ready :: "'x memmap_state_scheme \<Rightarrow> bool" where
  "mm_ready s \<longleftrightarrow> wf_io s \<and> mm_idle s \<and> io_free s"

lemma memmap_size:
  assumes "mm_file F d i s"
  shows "io_size F i n s = Some (0, mm_size s, s)"
  using assms
  by (simp add: mm_file_def memmap_dev_def io_size_def is_valid_entity_def is_valid_dev_def entity_funcs_def
      memmap_dev_funcs_def memmap_block_len_def get_info_def)

lemma memmap_dev_closed: "memmap_dev F d \<Longrightarrow> io_dev_close F d s = Some (0, s)"
  by (simp add: io_dev_close_def memmap_dev_def is_valid_dev_def memmap_dev_funcs_def memmap_dev_close_def)

lemma memmap_load_image:
  assumes rd: "mm_ready s" and dev: "memmap_dev F d" and src: "plat i 0 0 s = Some (0, d, q, s)" "q \<noteq> 0"
    and q: "block_spec_offset (io_mem s) q = B" "block_spec_length (io_mem s) q = n" "n \<noteq> 0"
    and fr: "is_mem_free (mi_free_base lay) (mi_free_size lay) b n" and v: "ii_version img = VERSION_1"
  obtains s' where
    "load_image F plat lay i b img None s =
       Some (0, lay, img\<lparr>ii_image_base := b, ii_image_size := ucast n\<rparr>, None, s')"
    "mm_ready s'" "io_mem s' = memcpy (io_mem s) b B n" "io_entity_map s' = io_entity_map s"
proof -
  have wf: "wf_io s" "mm_idle s" "io_free s" using rd by (auto simp: mm_ready_def)
  obtain h where h: "h < MAX_IO_HANDLES" "io_entity_map s ! h = None" "io_open F d q 0 s = Some (0, h, mm_opened d q h s)"
    using memmap_open [OF wf(1,3) _ dev src(2), where h = 0] wf(2) unfolding mm_opened_def mm_idle_def by blast
  note o = mm_opened_facts [OF wf(1) h(1,2) dev, of q]
  have f: "mm_size (mm_opened d q h s) = n" "mm_base (mm_opened d q h s) = B" "mm_file_pos (mm_opened d q h s) = 0"
    "io_mem (mm_opened d q h s) = io_mem s"
    using q by (simp_all add: mm_opened_def)
  let ?t = "(mm_opened d q h s)\<lparr>io_mem := memcpy (io_mem s) b B n, mm_file_pos := n\<rparr>"
  have body: "load_image_body F h b lay img None (mm_opened d q h s) =
      Some (0, lay, img\<lparr>ii_image_base := b, ii_image_size := ucast n\<rparr>, None, ?t)"
    using q(3) fr by (simp add: load_image_body_def memmap_size [OF o(1)] memmap_read [OF o(1)] f)
  have t: "mm_file F d h ?t" "wf_io ?t" "io_used ?t h" using o by (auto simp: mm_file_def wf_io_def io_used_def)
  obtain s' where s': "io_close F h ?t = Some (0, s')" "mm_idle s'" "wf_io s'" "io_entity_map s' = (io_entity_map s)[h := None]"
    "io_mem s' = memcpy (io_mem s) b B n"
    using memmap_close [OF t] wf_io_freed [OF t(2,3)]
    by (intro that [of "snd (the (io_close F h ?t))"]) (auto simp: mm_idle_def wf_io_def mm_opened_def)
  have map: "io_entity_map s' = io_entity_map s" using s'(4) h(2) by (metis list_update_id)
  then have "io_free s'" using wf(3) by (simp add: io_free_def)
  then show thesis
    using src h(3) body s' map v memmap_dev_closed [OF dev, of s']
    by (intro that [of s']) (simp_all add: load_image_def mm_ready_def)
qed

section \<open>A concrete boot\<close>

text \<open>
  A store with the certificate and the image of the chain of trust \<^term>\<open>demo_cot\<close> on a memory-mapped
  device, described by the block specifications at \<open>0x300\<close> and \<open>0x310\<close>.
\<close>

definition demo_store :: mem where
  "demo_store = demo_mem(0x301 := 0x10, 0x308 := 6, 0x311 := 0x20, 0x318 := 4)"

definition demo_disk :: "memmap_state dev_table" where
  "demo_disk = (\<lambda>_. None)(1 := Some memmap_dev_funcs)"

definition demo_images :: "memmap_state image_source" where
  "demo_images i d q s = Some (0, 1, 0x300 + 16 * ucast i, s)"

definition demo_boot :: "mem \<Rightarrow> memmap_state" where
  "demo_boot m = \<lparr>io_mem = m,
     io_entity_pool = replicate MAX_IO_HANDLES \<lparr>ie_dev_handle = 0, ie_info = Info_Null\<rparr>,
     io_entity_map = replicate MAX_IO_HANDLES None, io_entity_count = 0, io_devices = [1], io_dev_count = 1,
     mm_in_use = 0, mm_base = 0, mm_file_pos = 0, mm_size = 0\<rparr>"

definition demo_layout :: meminfo where
  "demo_layout = \<lparr>mi_total_base = 0x4000, mi_total_size = 0x1000, mi_free_base = 0x4000, mi_free_size = 0x1000\<rparr>"

definition demo_image :: image_info where
  "demo_image = \<lparr>ii_version = 1, ii_image_base = 0, ii_image_size = 0, ii_image_max_size = 0\<rparr>"

definition demo_auth_data :: "u32 auth_data" where
  "demo_auth_data = \<lparr>ad_flags = [0, 0], ad_plat = 5\<rparr>"

lemma demo_boot_ready: "mm_ready (demo_boot m)"
  by (auto simp: mm_ready_def demo_boot_def wf_io_def used_count_def mm_idle_def io_free_def MAX_IO_HANDLES_def intro!: exI [of _ 0])

lemma demo_disk_dev: "memmap_dev demo_disk 1"
  by (simp add: memmap_dev_def demo_disk_def)

lemma mem_bytes_8: "mem_bytes m a 8 = [m a, m (a + 1), m (a + 2), m (a + 3), m (a + 4), m (a + 5), m (a + 6), m (a + 7)]"
  by (simp add: numeral_eq_Suc add.assoc)

lemma demo_load:
  assumes "mm_ready s" and "q = 0x300 + 16 * ucast i" "q \<noteq> 0"
    and "block_spec_offset (io_mem s) q = B" "block_spec_length (io_mem s) q = n" "n \<noteq> 0" "n \<le> 0x1000"
    and "ii_version img = VERSION_1"
  obtains s' where "load_image demo_disk demo_images demo_layout i 0x4000 img None s =
      Some (0, demo_layout, img\<lparr>ii_image_base := 0x4000, ii_image_size := ucast n\<rparr>, None, s')"
    "mm_ready s'" "io_mem s' = memcpy (io_mem s) 0x4000 B n"
proof -
  have src: "demo_images i 0 0 s = Some (0, 1, q, s)" by (simp add: demo_images_def assms(2))
  have fr: "is_mem_free (mi_free_base demo_layout) (mi_free_size demo_layout) 0x4000 n"
    using assms(6,7) by (simp add: is_mem_free_iff demo_layout_def word_le_nat_alt)
  show thesis
    by (rule memmap_load_image [where plat = demo_images and i = i, OF assms(1) demo_disk_dev src assms(3-6) fr assms(8)])
      (rule that)
qed

lemma demo_boot_mem [simp]: "io_mem (demo_boot m) = m"
  by (simp add: demo_boot_def)

text \<open>Memory after the certificate was loaded, after it was verified, and after the image was loaded.\<close>

definition demo_store1 :: mem where "demo_store1 = memcpy demo_store 0x4000 0x1000 6"
definition demo_store2 :: mem where "demo_store2 = memcpy demo_store1 0x100 0x4005 1"
definition demo_store3 :: mem where "demo_store3 = memcpy demo_store2 0x4000 0x2000 4"

lemmas demo_store_defs = demo_store_def demo_store1_def demo_store2_def demo_store3_def demo_mem_def

lemma demo_specs:
  "block_spec_offset demo_store 0x300 = 0x1000" "block_spec_length demo_store 0x300 = 6"
  "block_spec_offset demo_store2 0x310 = 0x2000" "block_spec_length demo_store2 0x310 = 4"
  by (simp_all add: block_spec_offset_def block_spec_length_def mem_u64_def mem_bytes_8 demo_store_defs memcpy_def in_range_def)

lemma demo_store_bytes:
  "demo_store1 0x200 = 0xaa" "demo_store1 0x4000 = 0x30" "demo_store1 0x4001 = 0xaa" "demo_store1 0x4002 = 2"
  "demo_store1 0x4003 = 1" "demo_store1 0x4004 = 7" "demo_store3 0x100 = 0x55" "demo_store3 0x4000 = 0x55"
  by (simp_all add: demo_store_defs memcpy_def in_range_def)

lemma demo_verify_loaded_cert:
  "auth_mod_verify_img demo_env 0 0x4000 6 \<lparr>w_mem = demo_store1, w_flags = [0, 0], w_plat = 5\<rparr> =
     Some (0, \<lparr>w_mem = demo_store2, w_flags = [1, 0], w_plat = 7\<rparr>)"
  by (simp add: demo_parser_def demo_cot_def demo_env_def auth_eval demo_store2_def demo_store_bytes)

lemma demo_verify_loaded_raw:
  "auth_mod_verify_img demo_env 1 0x4000 4 \<lparr>w_mem = demo_store3, w_flags = [1, 0], w_plat = 7\<rparr> =
     Some (0, \<lparr>w_mem = demo_store3, w_flags = [1, 1], w_plat = 7\<rparr>)"
  by (simp add: demo_parser_def demo_cot_def demo_env_def auth_eval demo_store_bytes)

lemma demo_load_auth:
  obtains s where "load_auth_image demo_env demo_disk demo_images demo_layout 1 0x4000 demo_image None (demo_boot demo_store) demo_auth_data =
      Some (0, demo_layout, demo_image\<lparr>ii_image_base := 0x4000, ii_image_size := 4\<rparr>, None, s, \<lparr>ad_flags = [1, 1], ad_plat = 7\<rparr>)"
    "io_mem s = demo_store3"
proof -
  obtain s1 where s1: "load_image demo_disk demo_images demo_layout 0 0x4000 demo_image None (demo_boot demo_store) =
      Some (0, demo_layout, demo_image\<lparr>ii_image_base := 0x4000, ii_image_size := 6\<rparr>, None, s1)"
    "mm_ready s1" "io_mem s1 = demo_store1"
    by (rule demo_load [OF demo_boot_ready, of "0x300" 0 demo_store "0x1000" 6 demo_image])
      (simp_all add: demo_specs VERSION_1_def demo_image_def demo_store1_def)
  let ?s2 = "s1\<lparr>io_mem := demo_store2\<rparr>"
  have r2: "mm_ready ?s2" using s1(2) by (simp add: mm_ready_def wf_io_def mm_idle_def io_free_def)
  obtain s3 where s3: "load_image demo_disk demo_images demo_layout 1 0x4000
        (demo_image\<lparr>ii_image_base := 0x4000, ii_image_size := 6\<rparr>) None ?s2 =
      Some (0, demo_layout, demo_image\<lparr>ii_image_base := 0x4000, ii_image_size := 4\<rparr>, None, s3)"
    "mm_ready s3" "io_mem s3 = demo_store3"
    by (rule demo_load [OF r2, of "0x310" 1 "0x2000" 4 "demo_image\<lparr>ii_image_base := 0x4000, ii_image_size := 6\<rparr>"])
      (simp_all add: demo_specs VERSION_1_def demo_image_def demo_store3_def)
  have p1: "auth_mod_get_parent_id demo_env 1 (auth_view (demo_boot demo_store) demo_auth_data) = Some (0, 0)"
    "auth_mod_get_parent_id demo_env 0 (auth_view (demo_boot demo_store) demo_auth_data) = Some (1, 0)"
    by (simp_all add: auth_mod_get_parent_id_def demo_env_def demo_cot_def nth_opt_def auth_view_def demo_auth_data_def)
  have v1: "verify_img demo_env 0 (demo_image\<lparr>ii_image_base := 0x4000, ii_image_size := 6\<rparr>) s1 demo_auth_data =
      Some (0, ?s2, \<lparr>ad_flags = [1, 0], ad_plat = 7\<rparr>)"
    by (simp add: verify_img_def auth_view_def s1(3) demo_auth_data_def demo_verify_loaded_cert)
  have v2: "verify_img demo_env 1 (demo_image\<lparr>ii_image_base := 0x4000, ii_image_size := 4\<rparr>) s3 \<lparr>ad_flags = [1, 0], ad_plat = 7\<rparr> =
      Some (0, s3, \<lparr>ad_flags = [1, 1], ad_plat = 7\<rparr>)"
    using demo_verify_loaded_raw by (simp add: verify_img_def auth_view_def s3(3))
  have "load_auth_image demo_env demo_disk demo_images demo_layout 1 0x4000 demo_image None (demo_boot demo_store) demo_auth_data =
      Some (0, demo_layout, demo_image\<lparr>ii_image_base := 0x4000, ii_image_size := 4\<rparr>, None, s3, \<lparr>ad_flags = [1, 1], ad_plat = 7\<rparr>)"
    using p1 s1(1) s3(1) v1 v2
    by (subst load_auth_image.simps, subst load_auth_image.simps) (simp add: load_auth_one_def)
  then show thesis using s3(3) that by blast
qed

section \<open>Properties\<close>

text \<open>
  C12. When an image is loaded with authentication and the load succeeds, the image and every
  certificate above it in the chain of trust carry the authenticated mark; and the verification that
  marked the image ran on the memory that is handed over, after all its ancestors had been marked. The
  descriptors along the chain carry their own identifiers (\<open>own_chain\<close>), and a marked image has marked
  parents at the start (\<open>chain_ok\<close>).
\<close>

theorem load_auth_image_chain_of_trust:
  assumes "own_chain e i" and "chain_ok e g"
    and "load_auth_image e F plat lay i b img ep s g = Some (0, lay', img', ep', s', g')"
  shows "(\<forall>j. (parent_of e)\<^sup>*\<^sup>* i j \<longrightarrow> mark g' j) \<and>
    (\<exists>s1 g1. verify_img e i img' s1 g1 = Some (0, s', g') \<and> (\<forall>j. (parent_of e)\<^sup>+\<^sup>+ i j \<longrightarrow> mark g1 j))"
proof -
  from load_auth_image_chain [OF assms(3,1,2)]
  obtain s1 g1 where c: "chain_ok e g'" "mark g' i" "verify_img e i img' s1 g1 = Some (0, s', g')" "chain_ok e g1"
    "\<And>p. parent_of e i p \<Longrightarrow> mark g1 p"
    by (auto simp: chain_step_def)
  have "mark g1 j" if "(parent_of e)\<^sup>+\<^sup>+ i j" for j
    using that c(4,5) by (meson chain_ok_ancestors tranclpD)
  with c show ?thesis using chain_ok_ancestors by metis
qed

theorem load_auth_image_chain_of_trust_witness:
  "\<exists>(s :: memmap_state) g. load_auth_image demo_env demo_disk demo_images demo_layout 1 0x4000 demo_image None
       (demo_boot demo_store) demo_auth_data =
       Some (0, demo_layout, demo_image\<lparr>ii_image_base := 0x4000, ii_image_size := 4\<rparr>, None, s, g) \<and> mark g 0 \<and> mark g 1"
proof -
  obtain s where s: "load_auth_image demo_env demo_disk demo_images demo_layout 1 0x4000 demo_image None (demo_boot demo_store)
      demo_auth_data = Some (0, demo_layout, demo_image\<lparr>ii_image_base := 0x4000, ii_image_size := 4\<rparr>, None, s,
        \<lparr>ad_flags = [1, 1], ad_plat = 7\<rparr>)"
    by (rule demo_load_auth)
  have g: "chain_ok demo_env demo_auth_data"
    by (auto simp: chain_ok_def mark_def demo_auth_data_def less_Suc_eq numeral_2_eq_2)
  have c: "own_chain demo_env 1" using own_id_demo by (simp add: own_chain_def)
  note m = load_auth_image_chain_of_trust [OF c g s, THEN conjunct1, rule_format]
  have "parent_of demo_env 1 0" by (simp add: parent_of_def demo_env_def demo_cot_def)
  then have "mark \<lparr>ad_flags = [1, 1], ad_plat = 7 :: u32\<rparr> 0" "mark \<lparr>ad_flags = [1, 1], ad_plat = 7 :: u32\<rparr> 1"
    by (auto intro: m)
  with s show ?thesis by blast
qed

text \<open>
  C17. The recursion of \<open>load_auth_image\<close> ends for every chain of trust without cycles: it does
  exactly what a loop does that loads and verifies the images that have not been authenticated one
  by one, from the highest down to the image asked for, and stops at the first error.
\<close>

theorem load_auth_image_is_loop:
  assumes "cot_ranked e r" and "length (ad_flags g) = length (ae_cot e)" and "i < length (ae_cot e)"
  shows "\<exists>ps. auth_path e (auth_view s g) (Suc (r i)) i = Some ps \<and> length ps \<le> Suc (r i) \<and>
    load_auth_image e F plat lay i b img ep s g = load_path e F plat b ep ps lay img s g"
proof -
  obtain ps where "auth_path e (auth_view s g) (Suc (r i)) i = Some ps"
    using auth_path_exists [OF assms(1) _ assms(3), of "auth_view s g"] assms(2) by (auto simp: auth_view_def)
  with load_auth_image_path [OF this] auth_path_length [OF this] show ?thesis by blast
qed

theorem load_auth_image_is_loop_witness:
  "load_auth_image demo_env demo_disk demo_images demo_layout 1 0x4000 demo_image None (demo_boot demo_store) demo_auth_data =
   load_path demo_env demo_disk demo_images 0x4000 None [0, 1] demo_layout demo_image (demo_boot demo_store) demo_auth_data"
proof -
  have "cot_ranked demo_env (\<lambda>i. i)"
    by (auto simp: cot_ranked_def demo_env_def demo_cot_def less_Suc_eq numeral_2_eq_2)
  moreover have "auth_path demo_env (auth_view (demo_boot demo_store) demo_auth_data) (Suc 1) 1 = Some [0, 1]"
    by (simp add: auth_mod_get_parent_id_def demo_env_def demo_cot_def nth_opt_def auth_view_def demo_auth_data_def
        IMG_FLAG_AUTHENTICATED_def)
  ultimately show ?thesis
    using load_auth_image_is_loop [of demo_env "\<lambda>i. i" demo_auth_data 1 "demo_boot demo_store" demo_disk demo_images
        demo_layout "0x4000" demo_image None]
    by (simp add: demo_auth_data_def demo_env_def demo_cot_def)
qed

text \<open>
  C36. When the parents that were not yet authenticated have been loaded and the image itself fails
  authentication, \<open>load_auth_image\<close> returns \<open>-EAUTH\<close>, every byte of the loaded image has been overwritten
  with zero, and the authenticated marks are those that the parents left: unchanged when no parent had
  to be loaded.
\<close>

theorem load_auth_image_failure_erases:
  assumes "auth_mod_get_parent_id e i (auth_view s g) = Some (r, p)"
    and "(if r = 0 then load_auth_image e F plat lay p b img None s g else Some (0, lay, img, None, s, g)) =
      Some (0, lay0, img0, ep0, s0, g0)"
    and "load_image F plat lay0 (of_nat i) b img0 ep s0 = Some (0, lay1, img1, ep1, s1)"
    and "auth_mod_verify_img e i (ii_image_base img1) (ii_image_size img1) (auth_view s1 g0) = Some (rc, w)" and "rc \<noteq> 0"
  shows "\<exists>s' g'. load_auth_image e F plat lay i b img ep s g = Some (- EAUTH, lay1, img1, ep1, s', g') \<and>
    (\<forall>a. in_range (ii_image_base img1) (ucast (ii_image_size img1)) a \<longrightarrow> io_mem s' a = 0) \<and>
    ad_flags g' = ad_flags g0 \<and> (r \<noteq> 0 \<longrightarrow> ad_flags g' = ad_flags g)"
proof -
  have g: "r \<noteq> 0 \<Longrightarrow> g0 = g" using assms(2) by simp
  have "load_auth_image e F plat lay i b img ep s g = load_auth_one e F plat lay0 i b img0 ep s0 g0"
    using assms(2) by (subst load_auth_image.simps) (simp only: assms(1) Option.bind.bind_lunit prod.case, simp)
  then show ?thesis
    using assms(3-) g auth_mod_verify_img_failure [OF assms(4,5)]
    by (simp add: load_auth_one_def verify_img_def errno_defs memset_inside auth_view_def)
qed

theorem load_auth_image_failure_erases_witness:
  "\<exists>(s :: memmap_state) g. load_auth_image demo_env demo_disk demo_images demo_layout 0 0x4000 demo_image None
       (demo_boot (demo_store(0x1001 := 0))) demo_auth_data =
       Some (- EAUTH, demo_layout, demo_image\<lparr>ii_image_base := 0x4000, ii_image_size := 6\<rparr>, None, s, g) \<and>
     io_mem s 0x4000 = 0 \<and> ad_flags g = [0, 0]"
proof -
  let ?m = "demo_store(0x1001 := 0)" and ?img = "demo_image\<lparr>ii_image_base := 0x4000, ii_image_size := 6\<rparr>"
  have spec: "block_spec_offset ?m 0x300 = 0x1000" "block_spec_length ?m 0x300 = 6"
    by (simp_all add: block_spec_offset_def block_spec_length_def mem_u64_def mem_bytes_8 demo_store_defs)
  obtain s1 where s1: "load_image demo_disk demo_images demo_layout 0 0x4000 demo_image None (demo_boot ?m) =
      Some (0, demo_layout, ?img, None, s1)" "io_mem s1 = memcpy ?m 0x4000 0x1000 6"
    by (rule demo_load [OF demo_boot_ready, of "0x300" 0 ?m "0x1000" 6 demo_image])
      (simp_all add: spec VERSION_1_def demo_image_def)
  have b: "io_mem s1 0x200 = 0xaa" "io_mem s1 0x4000 = 0x30" "io_mem s1 0x4001 = 0"
    by (simp_all add: s1(2) demo_store_defs memcpy_def in_range_def)
  have v: "auth_mod_verify_img demo_env 0 (ii_image_base ?img) (ii_image_size ?img) (auth_view s1 demo_auth_data) =
      Some (1, auth_view s1 demo_auth_data)"
    by (simp add: auth_view_def demo_auth_data_def demo_parser_def demo_cot_def demo_env_def auth_eval b)
  have p: "auth_mod_get_parent_id demo_env 0 (auth_view (demo_boot ?m) demo_auth_data) = Some (1, 0)"
    by (simp add: auth_mod_get_parent_id_def demo_env_def demo_cot_def nth_opt_def)
  have "in_range 0x4000 6 (0x4000 :: u64)" by (simp add: in_range_def)
  then show ?thesis
    using load_auth_image_failure_erases [OF p _ _ v, of demo_disk demo_images demo_layout "0x4000" demo_image demo_layout
        demo_image None "demo_boot ?m" None demo_layout None] s1(1)
    by (auto simp: demo_auth_data_def)
qed

text \<open>
  C15. Loading an image on a Marvell platform whose boot device holds a valid firmware package: the
  bytes of the first entry with the image's UUID arrive at the load address, the image's
  description and entry point are filled in, the memory is reserved, the storage layer is ready
  for the next load, and memory outside the image and the driver's two buffers is unchanged.
\<close>

theorem load_image_from_package:
  assumes "mv_ready A B es s" and "pkg_addrs A B (length es)" and "0 < unat i" and "unat i < 6"
    and "mem_bytes (io_mem s) (pp_image_spec (policies A ! unat i)) 16 = u" and "u \<noteq> uuid_null"
    and "toc_index u es < length es" and "x = es ! toc_index u es" and "fe_size x \<noteq> 0"
    and "is_mem_free (mi_free_base lay) (mi_free_size lay) b (fe_size x)"
    and "load_ok A B (length es) b (B + fe_offset x) (fe_size x)" and "ii_version img = VERSION_1"
  shows "\<exists>lay' s'. load_image (marvell_devices A) (plat_get_image_source A (marvell_devices A)) lay i b img ep s =
      Some (0, lay', img\<lparr>ii_image_base := b, ii_image_size := ucast (fe_size x)\<rparr>,
        map_option (ep_pc_update (\<lambda>_. b)) ep, s') \<and>
    (ep \<noteq> None \<longrightarrow> reserve_mem (mi_free_base lay) (mi_free_size lay) b (fe_size x) =
       Some (mi_free_base lay', mi_free_size lay')) \<and>
    mv_ready A B es s' \<and> io_entity_map s' = io_entity_map s \<and>
    mem_bytes (io_mem s') b (unat (fe_size x)) = mem_bytes (io_mem s) (B + fe_offset x) (unat (fe_size x)) \<and>
    (\<forall>a. \<not> in_range b (fe_size x) a \<and> \<not> in_range (fa_entry (ma_fip A)) 40 a \<and>
       \<not> in_range (fa_header (ma_fip A)) 16 a \<longrightarrow> io_mem s' a = io_mem s a)"
proof (rule package_load_image [OF assms, where ep = ep], goal_cases)
  case (1 lay' s')
  have "mem_bytes (io_mem s') b (unat (fe_size x)) = mem_bytes (io_mem s) (B + fe_offset x) (unat (fe_size x))"
    by (rule nth_equalityI) (simp_all add: nth_mem_bytes 1(5))
  with 1 show ?case by (intro exI [of _ lay'] exI [of _ s']) simp
qed

lemma demo_load_ok: "load_ok demo_addrs 0x1000 2 0x8000 0x1200 4"
  by (auto simp: load_ok_def pkg_bytes_def demo_addrs_def policies_def fip_policy_def in_range_numeral)

definition demo_layout8 :: meminfo where
  "demo_layout8 = \<lparr>mi_total_base = 0x8000, mi_total_size = 0x1000, mi_free_base = 0x8000, mi_free_size = 0x1000\<rparr>"

lemma demo_entry:
  "fe_size (demo_toc ! toc_index (replicate 16 0x22) demo_toc) = 4"
  "fe_offset (demo_toc ! toc_index (replicate 16 0x22) demo_toc) = 0x200"
  unfolding demo_bl31_uuid by (simp_all add: demo_toc_def)

lemma demo_load_facts:
  "mv_ready demo_addrs 0x1000 demo_toc demo_io"
  "0 < unat BL31_IMAGE_ID" "unat BL31_IMAGE_ID < 6"
  "toc_index (replicate 16 0x22) demo_toc < length demo_toc"
  "fe_size (demo_toc ! toc_index (replicate 16 0x22) demo_toc) \<noteq> 0"
  "is_mem_free (mi_free_base demo_layout8) (mi_free_size demo_layout8) 0x8000
     (fe_size (demo_toc ! toc_index (replicate 16 0x22) demo_toc))"
  "load_ok demo_addrs 0x1000 (length demo_toc) 0x8000
     (0x1000 + fe_offset (demo_toc ! toc_index (replicate 16 0x22) demo_toc))
     (fe_size (demo_toc ! toc_index (replicate 16 0x22) demo_toc))"
  "ii_version demo_image = VERSION_1"
proof -
  show "mv_ready demo_addrs 0x1000 demo_toc demo_io"
    using demo_mv_ok demo_io_free2 demo_offset_0 by (simp only: mv_ready_def)
  show "toc_index (replicate 16 0x22) demo_toc < length demo_toc" by (simp only: demo_bl31_uuid)
qed (use demo_load_ok in \<open>simp_all add: demo_entry demo_bl31_uuid(4) BL31_IMAGE_ID_def is_mem_free_iff demo_layout8_def
  demo_image_def VERSION_1_def\<close>)

lemma demo_package_load:
  obtains lay s where "load_image (marvell_devices demo_addrs) (plat_get_image_source demo_addrs (marvell_devices demo_addrs))
       demo_layout8 BL31_IMAGE_ID 0x8000 demo_image None demo_io =
       Some (0, lay, demo_image\<lparr>ii_image_base := 0x8000, ii_image_size := 4\<rparr>, None, s)"
  by (rule package_load_image [OF demo_load_facts(1) demo_pkg_addrs demo_load_facts(2,3) demo_bl31_uuid(1,2)
        demo_load_facts(4) refl demo_load_facts(5-8), where ep = None, unfolded demo_entry])
    (rule that, simp)

theorem load_image_from_package_witness:
  "\<exists>lay s. load_image (marvell_devices demo_addrs) (plat_get_image_source demo_addrs (marvell_devices demo_addrs))
       demo_layout8 BL31_IMAGE_ID 0x8000 demo_image None demo_io =
       Some (0, lay, demo_image\<lparr>ii_image_base := 0x8000, ii_image_size := 4\<rparr>, None, s) \<and>
     mem_bytes (io_mem s) 0x8000 4 = [0x5a, 1, 2, 3]"
proof -
  have m: "mem_bytes (io_mem demo_io) (0x1000 + 0x200) (unat (4 :: u64)) = [0x5a, 1, 2, 3]"
    by (simp add: demo_io_def demo_package_def mem_bytes_written)
  from load_image_from_package [OF demo_load_facts(1) demo_pkg_addrs demo_load_facts(2,3) demo_bl31_uuid(1,2)
      demo_load_facts(4) refl demo_load_facts(5-8), of None, unfolded demo_entry m]
  show ?thesis by (auto simp: exI)
qed

text \<open>
  C37. Loading an image on a Marvell platform never leaks a storage handle: on success and on every
  error the table of open entities is what it was, and the entities that were open are untouched.
\<close>

theorem load_image_releases_handles:
  assumes "wf_io s"
    and "load_image (marvell_devices A) (plat_get_image_source A (marvell_devices A)) lay i b img ep s =
      Some (rc, lay', img', ep', s')"
  shows "wf_io s' \<and> io_entity_map s' = io_entity_map s \<and>
    (\<forall>h < MAX_IO_HANDLES. io_entity_map s ! h = Some h \<longrightarrow> io_entity_pool s' ! h = io_entity_pool s ! h)"
  using load_image_kept [OF devices_table plat_get_image_source_kept [OF devices_table] assms(2)] assms(1)
  by (auto simp: kept_def io_used_def)

theorem load_image_releases_handles_witness:
  "\<exists>lay s. load_image (marvell_devices demo_addrs) (plat_get_image_source demo_addrs (marvell_devices demo_addrs))
       demo_layout8 BL31_IMAGE_ID 0x8000 demo_image None demo_io =
       Some (0, lay, demo_image\<lparr>ii_image_base := 0x8000, ii_image_size := 4\<rparr>, None, s) \<and>
     wf_io s \<and> io_entity_map s = io_entity_map demo_io"
proof -
  obtain lay s where l: "load_image (marvell_devices demo_addrs) (plat_get_image_source demo_addrs (marvell_devices demo_addrs))
       demo_layout8 BL31_IMAGE_ID 0x8000 demo_image None demo_io =
       Some (0, lay, demo_image\<lparr>ii_image_base := 0x8000, ii_image_size := 4\<rparr>, None, s)"
    by (rule demo_package_load)
  have "wf_io demo_io" using demo_mv_ok by (simp only: mv_ok_def)
  from load_image_releases_handles [OF this l] l show ?thesis by blast
qed

text \<open>
  C26. Reserving a non-empty region that \<open>is_mem_free\<close> accepts never fails an assertion, and what it
  leaves free is the larger of the two gaps around the region: inside the old free memory and
  disjoint from the region, with no wrap-around.
\<close>

theorem reserve_mem_keeps_larger_gap:
  assumes "is_mem_free fb fs a n" and "n \<noteq> 0"
  shows "\<exists>fb' fs'. reserve_mem fb fs a n = Some (fb', fs') \<and>
    unat fs' = max (unat a - unat fb) (unat fb + unat fs - (unat a + unat n)) \<and>
    (\<forall>c. unat fb' \<le> unat c \<and> unat c < unat fb' + unat fs' \<longrightarrow>
       unat fb \<le> unat c \<and> unat c < unat fb + unat fs \<and> \<not> (unat a \<le> unat c \<and> unat c < unat a + unat n))"
proof -
  obtain fb' fs' where "reserve_mem fb fs a n = Some (fb', fs')"
    "fs' = 0 \<or> unat fb \<le> unat fb' \<and> unat fb' + unat fs' \<le> unat fb + unat fs \<and>
       (unat a + unat n \<le> unat fb' \<or> unat fb' + unat fs' \<le> unat a)"
    "unat fs' = max (unat a - unat fb) (unat fb + unat fs - (unat a + unat n))"
    by (rule reserve_mem_spec [OF assms])
  then show ?thesis by (intro exI [of _ fb'] exI [of _ fs']) auto
qed

theorem reserve_mem_keeps_larger_gap_witness:
  "reserve_mem 0x1000 0x1000 0x1800 0x100 = Some (0x1000, 0x800)"
proof -
  have "is_mem_free 0x1000 0x1000 0x1800 0x100" by (simp add: is_mem_free_iff)
  from reserve_mem_keeps_larger_gap [OF this]
  obtain fb fs where "reserve_mem 0x1000 0x1000 0x1800 0x100 = Some (fb, fs)" "unat fs = 0x800" by auto
  moreover have "reserve_mem 0x1000 0x1000 0x1800 0x100 = Some (0x1000, 0x800)"
    by (simp add: reserve_mem_def choose_mem_pos_def is_mem_free_iff)
  ultimately show ?thesis by simp
qed

text \<open>
  An image of size zero is reported as loaded: \<open>load_image\<close> returns 0 although it has copied
  nothing and has not filled in the image's description, so that the caller goes on with the
  address and size that the description had before.
\<close>

theorem load_image_empty_succeeds:
  assumes "mm_ready s" and "memmap_dev F d" and "plat i 0 0 s = Some (0, d, q, s)" and "q \<noteq> 0"
    and "block_spec_length (io_mem s) q = 0" and "ii_version img = VERSION_1"
  shows "\<exists>s'. load_image F plat lay i b img ep s = Some (0, lay, img, ep, s') \<and> io_mem s' = io_mem s"
proof -
  have wf: "wf_io s" "mm_idle s" "io_free s" using assms(1) by (auto simp: mm_ready_def)
  obtain h where h: "h < MAX_IO_HANDLES" "io_entity_map s ! h = None" "io_open F d q 0 s = Some (0, h, mm_opened d q h s)"
    using memmap_open [OF wf(1,3) _ assms(2,4), where h = 0] wf(2) unfolding mm_opened_def mm_idle_def by blast
  note o = mm_opened_facts [OF wf(1) h(1,2) assms(2), of q]
  have "mm_size (mm_opened d q h s) = 0" "io_mem (mm_opened d q h s) = io_mem s"
    using assms(5) by (simp_all add: mm_opened_def)
  with assms(3,6) h(3) memmap_dev_closed [OF assms(2)] show ?thesis
    by (simp add: load_image_def load_image_body_def memmap_size [OF o(1)] memmap_close [OF o])
qed

theorem load_image_empty_succeeds_witness:
  "\<exists>s. load_image demo_disk demo_images demo_layout 2 0x4000 demo_image None (demo_boot demo_store) =
     Some (0, demo_layout, demo_image, None, s) \<and> io_mem s = demo_store"
proof -
  have "block_spec_length (io_mem (demo_boot demo_store)) 0x320 = 0"
    by (simp add: block_spec_length_def mem_u64_def mem_bytes_8 demo_store_defs)
  moreover have "demo_images 2 0 0 (demo_boot demo_store) = Some (0, 1, 0x320, demo_boot demo_store)"
    by (simp add: demo_images_def)
  moreover have "ii_version demo_image = VERSION_1" by (simp add: demo_image_def VERSION_1_def)
  ultimately show ?thesis
    using load_image_empty_succeeds [OF demo_boot_ready demo_disk_dev, of demo_images 2 demo_store "0x320" demo_image demo_layout "0x4000" None]
    by simp
qed

end
