(* ===== verification/Tbbr_Cot.thy ===== *)
theory Tbbr_Cot
  imports Bl_Common
begin

text \<open>
  The chain of trust of trusted board boot (\<open>drivers/auth/tbbr/tbbr_cot.c\<close>): the types of the
  parameters, the buffers for the parameters that certificates carry, and the array of image
  descriptors, with the properties of this array that the authentication module relies on.
\<close>

section \<open>Image ids and sizes\<close>

definition TRUSTED_BOOT_FW_CERT_ID :: u32 where "TRUSTED_BOOT_FW_CERT_ID = 6"
definition TRUSTED_KEY_CERT_ID :: u32 where "TRUSTED_KEY_CERT_ID = 7"
definition SCP_FW_KEY_CERT_ID :: u32 where "SCP_FW_KEY_CERT_ID = 8"
definition SOC_FW_KEY_CERT_ID :: u32 where "SOC_FW_KEY_CERT_ID = 9"
definition TRUSTED_OS_FW_KEY_CERT_ID :: u32 where "TRUSTED_OS_FW_KEY_CERT_ID = 10"
definition NON_TRUSTED_FW_KEY_CERT_ID :: u32 where "NON_TRUSTED_FW_KEY_CERT_ID = 11"
definition SCP_FW_CONTENT_CERT_ID :: u32 where "SCP_FW_CONTENT_CERT_ID = 12"
definition SOC_FW_CONTENT_CERT_ID :: u32 where "SOC_FW_CONTENT_CERT_ID = 13"
definition TRUSTED_OS_FW_CONTENT_CERT_ID :: u32 where "TRUSTED_OS_FW_CONTENT_CERT_ID = 14"
definition NON_TRUSTED_FW_CONTENT_CERT_ID :: u32 where "NON_TRUSTED_FW_CONTENT_CERT_ID = 15"
definition NS_BL1U_IMAGE_ID :: u32 where "NS_BL1U_IMAGE_ID = 16"
definition FWU_CERT_ID :: u32 where "FWU_CERT_ID = 17"
definition SCP_BL2U_IMAGE_ID :: u32 where "SCP_BL2U_IMAGE_ID = 18"
definition BL2U_IMAGE_ID :: u32 where "BL2U_IMAGE_ID = 19"
definition NS_BL2U_IMAGE_ID :: u32 where "NS_BL2U_IMAGE_ID = 20"

definition PK_DER_LEN :: u32 where "PK_DER_LEN = 294"
definition HASH_DER_LEN :: u32 where "HASH_DER_LEN = 51"
definition COT_MAX_VERIFIED_PARAMS :: nat where "COT_MAX_VERIFIED_PARAMS = 4"
definition AUTH_METHOD_NUM :: nat where "AUTH_METHOD_NUM = 4"

text \<open>The addresses of the static buffers.\<close>

record tbbr_bufs =
  tb_fw_hash_buf :: u64
  scp_fw_hash_buf :: u64
  soc_fw_hash_buf :: u64
  tos_fw_hash_buf :: u64
  nt_world_bl_hash_buf :: u64
  trusted_world_pk_buf :: u64
  non_trusted_world_pk_buf :: u64
  content_pk_buf :: u64

section \<open>Parameter types\<close>

definition trusted_nv_ctr :: auth_param_type_desc where "trusted_nv_ctr = \<lparr>apt_type = AUTH_PARAM_NV_CTR, apt_cookie = ''TRUSTED_FW_NVCOUNTER_OID''\<rparr>"
definition non_trusted_nv_ctr :: auth_param_type_desc where "non_trusted_nv_ctr = \<lparr>apt_type = AUTH_PARAM_NV_CTR, apt_cookie = ''NON_TRUSTED_FW_NVCOUNTER_OID''\<rparr>"
definition subject_pk :: auth_param_type_desc where "subject_pk = \<lparr>apt_type = AUTH_PARAM_PUB_KEY, apt_cookie = ''''\<rparr>"
definition sig :: auth_param_type_desc where "sig = \<lparr>apt_type = AUTH_PARAM_SIG, apt_cookie = ''''\<rparr>"
definition sig_alg :: auth_param_type_desc where "sig_alg = \<lparr>apt_type = AUTH_PARAM_SIG_ALG, apt_cookie = ''''\<rparr>"
definition raw_data :: auth_param_type_desc where "raw_data = \<lparr>apt_type = AUTH_PARAM_RAW_DATA, apt_cookie = ''''\<rparr>"
definition trusted_world_pk :: auth_param_type_desc where "trusted_world_pk = \<lparr>apt_type = AUTH_PARAM_PUB_KEY, apt_cookie = ''TRUSTED_WORLD_PK_OID''\<rparr>"
definition non_trusted_world_pk :: auth_param_type_desc where "non_trusted_world_pk = \<lparr>apt_type = AUTH_PARAM_PUB_KEY, apt_cookie = ''NON_TRUSTED_WORLD_PK_OID''\<rparr>"
definition scp_fw_content_pk :: auth_param_type_desc where "scp_fw_content_pk = \<lparr>apt_type = AUTH_PARAM_PUB_KEY, apt_cookie = ''SCP_FW_CONTENT_CERT_PK_OID''\<rparr>"
definition soc_fw_content_pk :: auth_param_type_desc where "soc_fw_content_pk = \<lparr>apt_type = AUTH_PARAM_PUB_KEY, apt_cookie = ''SOC_FW_CONTENT_CERT_PK_OID''\<rparr>"
definition tos_fw_content_pk :: auth_param_type_desc where "tos_fw_content_pk = \<lparr>apt_type = AUTH_PARAM_PUB_KEY, apt_cookie = ''TRUSTED_OS_FW_CONTENT_CERT_PK_OID''\<rparr>"
definition nt_fw_content_pk :: auth_param_type_desc where "nt_fw_content_pk = \<lparr>apt_type = AUTH_PARAM_PUB_KEY, apt_cookie = ''NON_TRUSTED_FW_CONTENT_CERT_PK_OID''\<rparr>"
definition tb_fw_hash :: auth_param_type_desc where "tb_fw_hash = \<lparr>apt_type = AUTH_PARAM_HASH, apt_cookie = ''TRUSTED_BOOT_FW_HASH_OID''\<rparr>"
definition scp_fw_hash :: auth_param_type_desc where "scp_fw_hash = \<lparr>apt_type = AUTH_PARAM_HASH, apt_cookie = ''SCP_FW_HASH_OID''\<rparr>"
definition soc_fw_hash :: auth_param_type_desc where "soc_fw_hash = \<lparr>apt_type = AUTH_PARAM_HASH, apt_cookie = ''SOC_AP_FW_HASH_OID''\<rparr>"
definition tos_fw_hash :: auth_param_type_desc where "tos_fw_hash = \<lparr>apt_type = AUTH_PARAM_HASH, apt_cookie = ''TRUSTED_OS_FW_HASH_OID''\<rparr>"
definition nt_world_bl_hash :: auth_param_type_desc where "nt_world_bl_hash = \<lparr>apt_type = AUTH_PARAM_HASH, apt_cookie = ''NON_TRUSTED_WORLD_BOOTLOADER_HASH_OID''\<rparr>"
definition scp_bl2u_hash :: auth_param_type_desc where "scp_bl2u_hash = \<lparr>apt_type = AUTH_PARAM_HASH, apt_cookie = ''SCP_FWU_CFG_HASH_OID''\<rparr>"
definition bl2u_hash :: auth_param_type_desc where "bl2u_hash = \<lparr>apt_type = AUTH_PARAM_HASH, apt_cookie = ''AP_FWU_CFG_HASH_OID''\<rparr>"
definition ns_bl2u_hash :: auth_param_type_desc where "ns_bl2u_hash = \<lparr>apt_type = AUTH_PARAM_HASH, apt_cookie = ''FWU_HASH_OID''\<rparr>"

lemmas param_type_defs = trusted_nv_ctr_def non_trusted_nv_ctr_def subject_pk_def sig_def sig_alg_def
  raw_data_def trusted_world_pk_def non_trusted_world_pk_def scp_fw_content_pk_def soc_fw_content_pk_def
  tos_fw_content_pk_def nt_fw_content_pk_def tb_fw_hash_def scp_fw_hash_def soc_fw_hash_def
  tos_fw_hash_def nt_world_bl_hash_def scp_bl2u_hash_def bl2u_hash_def ns_bl2u_hash_def

section \<open>Descriptors\<close>

text \<open>
  The initialisers of the methods and parameters; the entries of the two arrays that an initialiser
  does not name are zero: no method, and a null type.
\<close>

definition sig_method :: "auth_param_type_desc \<Rightarrow> auth_method_desc" where
  "sig_method pk = AUTH_METHOD_SIG \<lparr>ms_pk = pk, ms_sig = sig, ms_alg = sig_alg, ms_data = raw_data\<rparr>"

definition nv_ctr_method :: "auth_param_type_desc \<Rightarrow> auth_method_desc" where
  "nv_ctr_method ctr = AUTH_METHOD_NV_CTR \<lparr>mn_cert_nv_ctr = ctr, mn_plat_nv_ctr = ctr\<rparr>"

definition hash_method :: "auth_param_type_desc \<Rightarrow> auth_method_desc" where
  "hash_method h = AUTH_METHOD_HASH \<lparr>mh_data = raw_data, mh_hash = h\<rparr>"

definition param_in :: "auth_param_type_desc \<Rightarrow> u64 \<Rightarrow> u32 \<Rightarrow> auth_param_desc" where
  "param_in t buf len = \<lparr>ap_type_desc = Some t, ap_data = \<lparr>apd_ptr = buf, apd_len = len\<rparr>\<rparr>"

definition no_param :: auth_param_desc where
  "no_param = \<lparr>ap_type_desc = None, ap_data = \<lparr>apd_ptr = 0, apd_len = 0\<rparr>\<rparr>"

definition image_desc_of ::
  "u32 \<Rightarrow> img_type \<Rightarrow> u32 option \<Rightarrow> auth_method_desc list \<Rightarrow> auth_param_desc list \<Rightarrow> auth_img_desc"
where
  "image_desc_of i ty parent methods params =
     \<lparr>ai_img_id = unat i, ai_img_type = ty, ai_parent = map_option unat parent,
      ai_methods = methods @ replicate (AUTH_METHOD_NUM - length methods) AUTH_METHOD_NONE,
      ai_data = params @ replicate (COT_MAX_VERIFIED_PARAMS - length params) no_param\<rparr>"

text \<open>The descriptor of an image that the initialiser of the array does not name.\<close>

definition zero_desc :: auth_img_desc where
  "zero_desc = image_desc_of 0 IMG_RAW None [] []"

definition trusted_boot_fw_cert :: "tbbr_bufs \<Rightarrow> auth_img_desc" where
  "trusted_boot_fw_cert B = image_desc_of TRUSTED_BOOT_FW_CERT_ID IMG_CERT None
     [sig_method subject_pk, nv_ctr_method trusted_nv_ctr]
     [param_in tb_fw_hash (tb_fw_hash_buf B) HASH_DER_LEN]"

definition bl2_image :: "auth_img_desc" where
  "bl2_image = image_desc_of BL2_IMAGE_ID IMG_RAW (Some TRUSTED_BOOT_FW_CERT_ID)
     [hash_method tb_fw_hash]
     []"

definition trusted_key_cert :: "tbbr_bufs \<Rightarrow> auth_img_desc" where
  "trusted_key_cert B = image_desc_of TRUSTED_KEY_CERT_ID IMG_CERT None
     [sig_method subject_pk, nv_ctr_method trusted_nv_ctr]
     [param_in trusted_world_pk (trusted_world_pk_buf B) PK_DER_LEN,
      param_in non_trusted_world_pk (non_trusted_world_pk_buf B) PK_DER_LEN]"

definition scp_fw_key_cert :: "tbbr_bufs \<Rightarrow> auth_img_desc" where
  "scp_fw_key_cert B = image_desc_of SCP_FW_KEY_CERT_ID IMG_CERT (Some TRUSTED_KEY_CERT_ID)
     [sig_method trusted_world_pk, nv_ctr_method trusted_nv_ctr]
     [param_in scp_fw_content_pk (content_pk_buf B) PK_DER_LEN]"

definition scp_fw_content_cert :: "tbbr_bufs \<Rightarrow> auth_img_desc" where
  "scp_fw_content_cert B = image_desc_of SCP_FW_CONTENT_CERT_ID IMG_CERT (Some SCP_FW_KEY_CERT_ID)
     [sig_method scp_fw_content_pk, nv_ctr_method trusted_nv_ctr]
     [param_in scp_fw_hash (scp_fw_hash_buf B) HASH_DER_LEN]"

definition scp_bl2_image :: "auth_img_desc" where
  "scp_bl2_image = image_desc_of SCP_BL2_IMAGE_ID IMG_RAW (Some SCP_FW_CONTENT_CERT_ID)
     [hash_method scp_fw_hash]
     []"

definition soc_fw_key_cert :: "tbbr_bufs \<Rightarrow> auth_img_desc" where
  "soc_fw_key_cert B = image_desc_of SOC_FW_KEY_CERT_ID IMG_CERT (Some TRUSTED_KEY_CERT_ID)
     [sig_method trusted_world_pk, nv_ctr_method trusted_nv_ctr]
     [param_in soc_fw_content_pk (content_pk_buf B) PK_DER_LEN]"

definition soc_fw_content_cert :: "tbbr_bufs \<Rightarrow> auth_img_desc" where
  "soc_fw_content_cert B = image_desc_of SOC_FW_CONTENT_CERT_ID IMG_CERT (Some SOC_FW_KEY_CERT_ID)
     [sig_method soc_fw_content_pk, nv_ctr_method trusted_nv_ctr]
     [param_in soc_fw_hash (soc_fw_hash_buf B) HASH_DER_LEN]"

definition bl31_image :: "auth_img_desc" where
  "bl31_image = image_desc_of BL31_IMAGE_ID IMG_RAW (Some SOC_FW_CONTENT_CERT_ID)
     [hash_method soc_fw_hash]
     []"

definition trusted_os_fw_key_cert :: "tbbr_bufs \<Rightarrow> auth_img_desc" where
  "trusted_os_fw_key_cert B = image_desc_of TRUSTED_OS_FW_KEY_CERT_ID IMG_CERT (Some TRUSTED_KEY_CERT_ID)
     [sig_method trusted_world_pk, nv_ctr_method trusted_nv_ctr]
     [param_in tos_fw_content_pk (content_pk_buf B) PK_DER_LEN]"

definition trusted_os_fw_content_cert :: "tbbr_bufs \<Rightarrow> auth_img_desc" where
  "trusted_os_fw_content_cert B = image_desc_of TRUSTED_OS_FW_CONTENT_CERT_ID IMG_CERT (Some TRUSTED_OS_FW_KEY_CERT_ID)
     [sig_method tos_fw_content_pk, nv_ctr_method trusted_nv_ctr]
     [param_in tos_fw_hash (tos_fw_hash_buf B) HASH_DER_LEN]"

definition bl32_image :: "auth_img_desc" where
  "bl32_image = image_desc_of BL32_IMAGE_ID IMG_RAW (Some TRUSTED_OS_FW_CONTENT_CERT_ID)
     [hash_method tos_fw_hash]
     []"

definition non_trusted_fw_key_cert :: "tbbr_bufs \<Rightarrow> auth_img_desc" where
  "non_trusted_fw_key_cert B = image_desc_of NON_TRUSTED_FW_KEY_CERT_ID IMG_CERT (Some TRUSTED_KEY_CERT_ID)
     [sig_method non_trusted_world_pk, nv_ctr_method non_trusted_nv_ctr]
     [param_in nt_fw_content_pk (content_pk_buf B) PK_DER_LEN]"

definition non_trusted_fw_content_cert :: "tbbr_bufs \<Rightarrow> auth_img_desc" where
  "non_trusted_fw_content_cert B = image_desc_of NON_TRUSTED_FW_CONTENT_CERT_ID IMG_CERT (Some NON_TRUSTED_FW_KEY_CERT_ID)
     [sig_method nt_fw_content_pk, nv_ctr_method non_trusted_nv_ctr]
     [param_in nt_world_bl_hash (nt_world_bl_hash_buf B) HASH_DER_LEN]"

definition bl33_image :: "auth_img_desc" where
  "bl33_image = image_desc_of BL33_IMAGE_ID IMG_RAW (Some NON_TRUSTED_FW_CONTENT_CERT_ID)
     [hash_method nt_world_bl_hash]
     []"

definition fwu_cert :: "tbbr_bufs \<Rightarrow> auth_img_desc" where
  "fwu_cert B = image_desc_of FWU_CERT_ID IMG_CERT None
     [sig_method subject_pk]
     [param_in scp_bl2u_hash (scp_fw_hash_buf B) HASH_DER_LEN,
      param_in bl2u_hash (tb_fw_hash_buf B) HASH_DER_LEN,
      param_in ns_bl2u_hash (nt_world_bl_hash_buf B) HASH_DER_LEN]"

definition scp_bl2u_image :: "auth_img_desc" where
  "scp_bl2u_image = image_desc_of SCP_BL2U_IMAGE_ID IMG_RAW (Some FWU_CERT_ID)
     [hash_method scp_bl2u_hash]
     []"

definition bl2u_image :: "auth_img_desc" where
  "bl2u_image = image_desc_of BL2U_IMAGE_ID IMG_RAW (Some FWU_CERT_ID)
     [hash_method bl2u_hash]
     []"

definition ns_bl2u_image :: "auth_img_desc" where
  "ns_bl2u_image = image_desc_of NS_BL2U_IMAGE_ID IMG_RAW (Some FWU_CERT_ID)
     [hash_method ns_bl2u_hash]
     []"

text \<open>The array: the initialiser names neither the package nor the image NS_BL1U.\<close>

definition cot_desc :: "tbbr_bufs \<Rightarrow> auth_img_desc list" where
  "cot_desc B =
     [zero_desc,
      bl2_image,
      scp_bl2_image,
      bl31_image,
      bl32_image,
      bl33_image,
      trusted_boot_fw_cert B,
      trusted_key_cert B,
      scp_fw_key_cert B,
      soc_fw_key_cert B,
      trusted_os_fw_key_cert B,
      non_trusted_fw_key_cert B,
      scp_fw_content_cert B,
      soc_fw_content_cert B,
      trusted_os_fw_content_cert B,
      non_trusted_fw_content_cert B,
      zero_desc,
      fwu_cert B,
      scp_bl2u_image,
      bl2u_image,
      ns_bl2u_image]"

lemmas tbbr_id_defs = TRUSTED_BOOT_FW_CERT_ID_def TRUSTED_KEY_CERT_ID_def SCP_FW_KEY_CERT_ID_def SOC_FW_KEY_CERT_ID_def TRUSTED_OS_FW_KEY_CERT_ID_def NON_TRUSTED_FW_KEY_CERT_ID_def SCP_FW_CONTENT_CERT_ID_def
  SOC_FW_CONTENT_CERT_ID_def TRUSTED_OS_FW_CONTENT_CERT_ID_def NON_TRUSTED_FW_CONTENT_CERT_ID_def NS_BL1U_IMAGE_ID_def FWU_CERT_ID_def SCP_BL2U_IMAGE_ID_def BL2U_IMAGE_ID_def NS_BL2U_IMAGE_ID_def
  FIP_IMAGE_ID_def BL2_IMAGE_ID_def SCP_BL2_IMAGE_ID_def BL31_IMAGE_ID_def BL32_IMAGE_ID_def BL33_IMAGE_ID_def

lemmas tbbr_desc_defs = image_desc_of_def zero_desc_def sig_method_def nv_ctr_method_def hash_method_def param_in_def no_param_def
  trusted_boot_fw_cert_def bl2_image_def trusted_key_cert_def scp_fw_key_cert_def scp_fw_content_cert_def
  scp_bl2_image_def soc_fw_key_cert_def soc_fw_content_cert_def bl31_image_def trusted_os_fw_key_cert_def
  trusted_os_fw_content_cert_def bl32_image_def non_trusted_fw_key_cert_def non_trusted_fw_content_cert_def bl33_image_def
  fwu_cert_def scp_bl2u_image_def bl2u_image_def ns_bl2u_image_def

section \<open>Where verification can stop\<close>

text \<open>
  The data that the certificate parser hands to the crypto library is there: the signed part, the
  signature, its algorithm and the subject's key are not empty, and a counter extension has an address.
  (\<open>cert_parse\<close> of the X.509 parser takes the first four with their headers; an extension may be empty.)
\<close>

definition cert_params_present :: "img_parser_lib_desc \<Rightarrow> mem \<Rightarrow> u64 \<Rightarrow> u32 \<Rightarrow> bool" where
  "cert_params_present lib m p n \<longleftrightarrow>
     (\<forall>t ptr len. pl_get_auth_param lib m t p n = (0, ptr, len) \<longrightarrow>
        (apt_type t \<in> {AUTH_PARAM_RAW_DATA, AUTH_PARAM_SIG, AUTH_PARAM_SIG_ALG} \<or> t = subject_pk \<longrightarrow> nonempty (ptr, len)) \<and>
        (apt_type t = AUTH_PARAM_NV_CTR \<longrightarrow> ptr \<noteq> 0))"

text \<open>A root key that the platform reports as deployed is there.\<close>

definition root_key_present :: "'p auth_env \<Rightarrow> bool" where
  "root_key_present e \<longleftrightarrow>
     (\<forall>plat c ptr len fl. ae_plat_get_rotpk_info e plat c = (0, ptr, len, fl) \<longrightarrow>
        fl AND ROTPK_NOT_DEPLOYED = 0 \<longrightarrow> nonempty (ptr, len))"

text \<open>A method finds the key or the hash it needs among the parameters of the parent.\<close>

definition parent_has :: "auth_img_desc list \<Rightarrow> auth_img_desc \<Rightarrow> auth_param_type_desc \<Rightarrow> bool" where
  "parent_has cot d t \<longleftrightarrow>
     (case ai_parent d of None \<Rightarrow> False
      | Some p \<Rightarrow> (case nth_opt cot p of None \<Rightarrow> False
         | Some parent \<Rightarrow> (case auth_get_param t parent of None \<Rightarrow> False
              | Some (rc, ptr, len) \<Rightarrow> rc = 0 \<and> ptr \<noteq> 0 \<and> len \<noteq> 0)))"

definition method_safe :: "auth_img_desc list \<Rightarrow> auth_img_desc \<Rightarrow> auth_method_desc \<Rightarrow> bool" where
  "method_safe cot d a \<longleftrightarrow>
     (case a of
        AUTH_METHOD_NONE \<Rightarrow> True
      | AUTH_METHOD_HASH h \<Rightarrow> parent_has cot d (mh_hash h) \<and> apt_type (mh_data h) = AUTH_PARAM_RAW_DATA
      | AUTH_METHOD_SIG s \<Rightarrow> ai_img_type d = IMG_CERT \<and>
          apt_type (ms_data s) = AUTH_PARAM_RAW_DATA \<and> apt_type (ms_sig s) = AUTH_PARAM_SIG \<and>
          apt_type (ms_alg s) = AUTH_PARAM_SIG_ALG \<and>
          (if ai_parent d = None then ms_pk s = subject_pk else parent_has cot d (ms_pk s))
      | AUTH_METHOD_NV_CTR c \<Rightarrow> ai_img_type d = IMG_CERT \<and> apt_type (mn_cert_nv_ctr c) = AUTH_PARAM_NV_CTR
      | AUTH_METHOD_OTHER \<Rightarrow> False)"

definition desc_safe :: "auth_img_desc list \<Rightarrow> auth_img_desc \<Rightarrow> bool" where
  "desc_safe cot d \<longleftrightarrow>
     ai_img_type d \<noteq> IMG_PLAT \<and> ai_img_id d < length cot \<and> list_all (method_safe cot d) (ai_methods d) \<and>
     (ai_img_type d = IMG_RAW \<longrightarrow> list_all (\<lambda>x. ap_type_desc x = None) (ai_data d))"

text \<open>A parser for certificates is registered.\<close>

definition cert_parser :: "'p auth_env \<Rightarrow> img_parser_lib_desc \<Rightarrow> bool" where
  "cert_parser e lib \<longleftrightarrow> (\<exists>k. ae_parser_lib_indices e IMG_CERT = Some k \<and> nth_opt (ae_parser_lib_descs e) k = Some lib)"

lemma cert_get_param:
  assumes "cert_parser e lib" "p \<noteq> 0" "n \<noteq> 0"
  shows "img_parser_get_auth_param e m IMG_CERT t p n = Some (pl_get_auth_param lib m t p n)"
  using assms by (auto simp: cert_parser_def img_parser_get_auth_param_def)

lemma raw_get_param:
  assumes "p \<noteq> 0" "n \<noteq> 0" "apt_type t = AUTH_PARAM_RAW_DATA"
  shows "img_parser_get_auth_param e m IMG_RAW t p n = Some (0, p, n)"
  using assms by (simp add: img_parser_get_auth_param_def)

lemma parent_has_lookup:
  assumes "parent_has (ae_cot e) d t"
  obtains p parent ptr len where "ai_parent d = Some p" "nth_opt (ae_cot e) p = Some parent"
    "auth_get_param t parent = Some (0, ptr, len)" "ptr \<noteq> 0" "len \<noteq> 0"
  using assms by (auto simp: parent_has_def split: option.splits)

lemma signature_total:
  assumes lib: "cert_parser e lib" and cert: "ai_img_type d = IMG_CERT" and p: "p \<noteq> 0" "n \<noteq> 0"
    and a: "method_safe (ae_cot e) d (AUTH_METHOD_SIG s)"
    and data: "cert_params_present lib m p n" and key: "ai_parent d = None \<Longrightarrow> root_key_present e"
  shows "auth_signature e s d m plat p n \<noteq> None"
proof -
  from a have s: "apt_type (ms_data s) = AUTH_PARAM_RAW_DATA" "apt_type (ms_sig s) = AUTH_PARAM_SIG"
      "apt_type (ms_alg s) = AUTH_PARAM_SIG_ALG"
    by (simp_all add: method_safe_def)
  have get: "\<exists>rc ptr len. img_parser_get_auth_param e m IMG_CERT t p n = Some (rc, ptr, len) \<and> (rc = 0 \<longrightarrow> nonempty (ptr, len))"
    if "apt_type t \<in> {AUTH_PARAM_RAW_DATA, AUTH_PARAM_SIG, AUTH_PARAM_SIG_ALG} \<or> t = subject_pk" for t
    using data that by (cases "pl_get_auth_param lib m t p n") (auto simp: cert_get_param [OF lib p] cert_params_present_def)
  have g: "\<exists>rc ptr len. img_parser_get_auth_param e m IMG_CERT (ms_data s) p n = Some (rc, ptr, len) \<and> (rc = 0 \<longrightarrow> nonempty (ptr, len))"
    "\<exists>rc ptr len. img_parser_get_auth_param e m IMG_CERT (ms_sig s) p n = Some (rc, ptr, len) \<and> (rc = 0 \<longrightarrow> nonempty (ptr, len))"
    "\<exists>rc ptr len. img_parser_get_auth_param e m IMG_CERT (ms_alg s) p n = Some (rc, ptr, len) \<and> (rc = 0 \<longrightarrow> nonempty (ptr, len))"
    by (rule get; simp add: s)+
  show ?thesis
  proof (cases "ai_parent d")
    case None
    with a have pk: "ms_pk s = subject_pk" by (simp add: method_safe_def)
    obtain rc ptr len fl where r: "ae_plat_get_rotpk_info e plat (apt_cookie (ms_pk s)) = (rc, ptr, len, fl)"
      by (cases "ae_plat_get_rotpk_info e plat (apt_cookie (ms_pk s))")
    have k: "rc = 0 \<Longrightarrow> fl AND ROTPK_NOT_DEPLOYED = 0 \<Longrightarrow> nonempty (ptr, len)"
      using key [OF None] r by (simp add: root_key_present_def)
    have "fl AND ROTPK_NOT_DEPLOYED = 0" if "fl AND (ROTPK_IS_HASH OR ROTPK_NOT_DEPLOYED) = 0"
      using that by (simp add: bit.conj_disj_distrib or_eq_0_iff)
    with None g get [of subject_pk] r k pk cert show ?thesis
      by (auto simp: auth_signature_def auth_signature_pk_def crypto_mod_verify_signature_def crypto_mod_verify_hash_def)
  next
    case (Some q)
    with a have "parent_has (ae_cot e) d (ms_pk s)" by (simp add: method_safe_def)
    then have "\<exists>rc ptr len. auth_signature_pk e s d plat = Some (rc, ptr, len, 0) \<and> (rc = 0 \<longrightarrow> nonempty (ptr, len))"
      by (rule parent_has_lookup) (auto simp: auth_signature_pk_def nonempty_def)
    with g cert show ?thesis by (auto simp: auth_signature_def crypto_mod_verify_signature_def)
  qed
qed

lemma method_total:
  assumes lib: "cert_parser e lib" and ty: "ai_img_type d \<noteq> IMG_PLAT" and p: "p \<noteq> 0" "n \<noteq> 0" and a: "method_safe (ae_cot e) d a"
    and data: "ai_img_type d = IMG_CERT \<Longrightarrow> cert_params_present lib (w_mem w) p n"
    and key: "ai_img_type d = IMG_CERT \<Longrightarrow> ai_parent d = None \<Longrightarrow> root_key_present e"
  shows "auth_method_run e d p n a w \<noteq> None"
proof (cases a)
  case (AUTH_METHOD_HASH h)
  with a have h: "parent_has (ae_cot e) d (mh_hash h)" "apt_type (mh_data h) = AUTH_PARAM_RAW_DATA"
    by (simp_all add: method_safe_def)
  obtain rc ptr len where "img_parser_get_auth_param e (w_mem w) (ai_img_type d) (mh_data h) p n = Some (rc, ptr, len)"
    "rc = 0 \<Longrightarrow> nonempty (ptr, len)"
  proof (cases "ai_img_type d")
    case IMG_CERT
    then show ?thesis
      using that data h(2) cert_get_param [OF lib p]
      by (cases "pl_get_auth_param lib (w_mem w) (mh_data h) p n") (auto simp: cert_params_present_def)
  qed (use that ty p h(2) in \<open>auto simp: raw_get_param nonempty_def\<close>)
  with AUTH_METHOD_HASH show ?thesis
    by (rule_tac parent_has_lookup [OF h(1)])
      (auto simp: auth_method_run_def auth_hash_def crypto_mod_verify_hash_def nonempty_def)
next
  case (AUTH_METHOD_SIG s)
  with a have cert: "ai_img_type d = IMG_CERT" by (simp add: method_safe_def)
  have "auth_signature e s d (w_mem w) (w_plat w) p n \<noteq> None"
    by (rule signature_total [OF lib cert p a [unfolded AUTH_METHOD_SIG] data [OF cert] key [OF cert]])
  with AUTH_METHOD_SIG show ?thesis by (auto simp: auth_method_run_def)
next
  case (AUTH_METHOD_NV_CTR c)
  with a have s: "ai_img_type d = IMG_CERT" "apt_type (mn_cert_nv_ctr c) = AUTH_PARAM_NV_CTR" by (simp_all add: method_safe_def)
  obtain rc ptr len where r: "pl_get_auth_param lib (w_mem w) (mn_cert_nv_ctr c) p n = (rc, ptr, len)"
    by (cases "pl_get_auth_param lib (w_mem w) (mn_cert_nv_ctr c) p n")
  have "rc = 0 \<Longrightarrow> ptr \<noteq> 0" using data [OF s(1)] r s(2) by (simp add: cert_params_present_def)
  with AUTH_METHOD_NV_CTR s r show ?thesis
    by (auto simp: auth_method_run_def auth_nvctr_def cert_get_param [OF lib p] split: option.splits prod.splits)
qed (use a in \<open>simp_all add: auth_method_run_def method_safe_def\<close>)

lemma methods_total:
  assumes "cert_parser e lib" "ai_img_type d \<noteq> IMG_PLAT" "p \<noteq> 0" "n \<noteq> 0" "list_all (method_safe (ae_cot e) d) as"
    and "ai_img_type d = IMG_CERT \<Longrightarrow> cert_params_present lib (w_mem w) p n"
    and "ai_img_type d = IMG_CERT \<Longrightarrow> ai_parent d = None \<Longrightarrow> root_key_present e"
  shows "auth_methods_loop e d p n as w \<noteq> None"
  using assms(5,6)
proof (induction as arbitrary: w)
  case Nil
  then show ?case by simp
next
  case (Cons a as)
  then have "method_safe (ae_cot e) d a" by simp
  then obtain rc w' where r: "auth_method_run e d p n a w = Some (rc, w')"
    using method_total [OF assms(1-4) _ Cons.prems(2) assms(7)] by fast
  with Cons auth_method_run_frame [OF r] show ?case by simp
qed

lemma params_total:
  assumes "cert_parser e lib" "ai_img_type d \<noteq> IMG_PLAT" "p \<noteq> 0" "n \<noteq> 0"
    and "ai_img_type d = IMG_RAW \<Longrightarrow> list_all (\<lambda>x. ap_type_desc x = None) ps"
  shows "auth_params_loop e (ai_img_type d) p n ps m \<noteq> None"
  using assms(5)
proof (induction ps arbitrary: m)
  case Nil
  then show ?case by simp
next
  case (Cons x ps)
  show ?case
  proof (cases "ap_type_desc x")
    case None
    with Cons show ?thesis by simp
  next
    case (Some t)
    with Cons.prems have "ai_img_type d \<noteq> IMG_RAW" by auto
    with assms(2) have cert: "ai_img_type d = IMG_CERT" by (cases "ai_img_type d") auto
    obtain rc ptr len where "pl_get_auth_param lib m t p n = (rc, ptr, len)" by (cases "pl_get_auth_param lib m t p n")
    with Some Cons cert show ?thesis by (simp add: cert_get_param [OF assms(1,3,4)])
  qed
qed

lemma verify_stops:
  fixes w :: "('p, 'x) auth_world_scheme"
  assumes lib: "cert_parser e lib" and d: "list_all (desc_safe (ae_cot e)) (ae_cot e)" and i: "i < length (ae_cot e)"
    and p: "p \<noteq> 0" "n \<noteq> 0" and fl: "length (w_flags w) = length (ae_cot e)"
    and none: "auth_mod_verify_img e i p n w = None"
  shows "ai_img_type (ae_cot e ! i) = IMG_CERT \<and> pl_check_integrity lib (w_mem w) p n = 0 \<and>
    (\<not> cert_params_present lib (w_mem w) p n \<or> ai_parent (ae_cot e ! i) = None \<and> \<not> root_key_present e)"
proof -
  let ?d = "ae_cot e ! i"
  have s: "desc_safe (ae_cot e) ?d" using d i by (simp add: list_all_length)
  then have ty: "ai_img_type ?d \<noteq> IMG_PLAT" by (simp add: desc_safe_def)
  obtain c where c: "img_parser_check_integrity e (w_mem w) (ai_img_type ?d) p n = Some c"
    "ai_img_type ?d = IMG_CERT \<Longrightarrow> c = pl_check_integrity lib (w_mem w) p n"
    using ty lib p by (cases "ai_img_type ?d") (auto simp: img_parser_check_integrity_def cert_parser_def)
  have pl: "auth_params_loop e (ai_img_type ?d) p n (ai_data ?d) m \<noteq> None" for m
    using s by (intro params_total [OF lib ty p]) (simp add: desc_safe_def)
  have "auth_methods_loop e ?d p n (ai_methods ?d) w = None"
  proof (rule ccontr)
    assume "auth_methods_loop e ?d p n (ai_methods ?d) w \<noteq> None"
    then obtain rc w1 where w1: "auth_methods_loop e ?d p n (ai_methods ?d) w = Some (rc, w1)" by fast
    obtain rc2 m where m: "auth_params_loop e (ai_img_type ?d) p n (ai_data ?d) (w_mem w1) = Some (rc2, m)" using pl by fast
    have "ai_img_id ?d < length (w_flags w1)"
      using auth_methods_loop_frame [OF w1] s fl by (simp add: desc_safe_def)
    with none i show False by (simp add: auth_mod_verify_img_def nth_opt_def c(1) w1 m split: if_splits)
  qed
  moreover have "list_all (method_safe (ae_cot e) ?d) (ai_methods ?d)" using s by (simp add: desc_safe_def)
  moreover have "c = 0"
    using none i by (auto simp: auth_mod_verify_img_def nth_opt_def c(1) split: if_splits)
  moreover have "ai_img_type ?d = IMG_RAW \<or> ai_img_type ?d = IMG_CERT" using ty by (cases "ai_img_type ?d") auto
  ultimately show ?thesis
    using methods_total [OF lib ty p, of "ai_methods ?d" w] c(2) by auto
qed

section \<open>The TBBR chain of trust\<close>

lemma length_cot_desc [simp]: "length (cot_desc B) = 21"
  by (simp add: cot_desc_def)

lemma cot_desc_parents:
  "cot_desc B ! 6 = trusted_boot_fw_cert B" "cot_desc B ! 7 = trusted_key_cert B"
  "cot_desc B ! 8 = scp_fw_key_cert B" "cot_desc B ! 9 = soc_fw_key_cert B"
  "cot_desc B ! 10 = trusted_os_fw_key_cert B" "cot_desc B ! 11 = non_trusted_fw_key_cert B"
  "cot_desc B ! 12 = scp_fw_content_cert B" "cot_desc B ! 13 = soc_fw_content_cert B"
  "cot_desc B ! 14 = trusted_os_fw_content_cert B" "cot_desc B ! 15 = non_trusted_fw_content_cert B"
  "cot_desc B ! 17 = fwu_cert B"
  by (simp_all add: cot_desc_def)

text \<open>The static buffers are not at address zero.\<close>

definition bufs_ok :: "tbbr_bufs \<Rightarrow> bool" where
  "bufs_ok B \<longleftrightarrow> tb_fw_hash_buf B \<noteq> 0 \<and> scp_fw_hash_buf B \<noteq> 0 \<and> soc_fw_hash_buf B \<noteq> 0 \<and> tos_fw_hash_buf B \<noteq> 0 \<and>
     nt_world_bl_hash_buf B \<noteq> 0 \<and> trusted_world_pk_buf B \<noteq> 0 \<and> non_trusted_world_pk_buf B \<noteq> 0 \<and> content_pk_buf B \<noteq> 0"

lemma list_all_replicate: "list_all P (replicate n x) \<longleftrightarrow> n = 0 \<or> P x"
  by (induction n) auto

lemmas tbbr_lookup = list_all_replicate desc_safe_def method_safe_def parent_has_def auth_get_param_def cmp_auth_param_type_desc_def
  nth_opt_def cot_desc_parents tbbr_desc_defs tbbr_id_defs param_type_defs AUTH_METHOD_NUM_def COT_MAX_VERIFIED_PARAMS_def
  PK_DER_LEN_def HASH_DER_LEN_def

lemma cot_desc_safe_certs:
  assumes "bufs_ok B"
  shows "desc_safe (cot_desc B) (trusted_boot_fw_cert B)" "desc_safe (cot_desc B) (trusted_key_cert B)"
    "desc_safe (cot_desc B) (scp_fw_key_cert B)" "desc_safe (cot_desc B) (soc_fw_key_cert B)"
    "desc_safe (cot_desc B) (trusted_os_fw_key_cert B)" "desc_safe (cot_desc B) (non_trusted_fw_key_cert B)"
    "desc_safe (cot_desc B) (scp_fw_content_cert B)" "desc_safe (cot_desc B) (soc_fw_content_cert B)"
    "desc_safe (cot_desc B) (trusted_os_fw_content_cert B)" "desc_safe (cot_desc B) (non_trusted_fw_content_cert B)"
    "desc_safe (cot_desc B) (fwu_cert B)"
  using assms by (simp_all add: tbbr_lookup bufs_ok_def)

lemma cot_desc_safe_images:
  assumes "bufs_ok B"
  shows "desc_safe (cot_desc B) bl2_image" "desc_safe (cot_desc B) scp_bl2_image" "desc_safe (cot_desc B) bl31_image"
    "desc_safe (cot_desc B) bl32_image" "desc_safe (cot_desc B) bl33_image" "desc_safe (cot_desc B) scp_bl2u_image"
    "desc_safe (cot_desc B) bl2u_image" "desc_safe (cot_desc B) ns_bl2u_image" "desc_safe (cot_desc B) zero_desc"
  using assms by (simp_all add: tbbr_lookup bufs_ok_def)

lemma cot_desc_safe: "bufs_ok B \<Longrightarrow> list_all (desc_safe (cot_desc B)) (cot_desc B)"
  using cot_desc_safe_certs [of B] cot_desc_safe_images [of B] by (simp add: cot_desc_def [of B])

text \<open>Ranks: root certificates, key certificates and images checked by them, and so on.\<close>

definition tbbr_rank :: "nat \<Rightarrow> nat" where
  "tbbr_rank i = [0, 1, 3, 3, 3, 3, 0, 0, 1, 1, 1, 1, 2, 2, 2, 2, 0, 0, 1, 1, 1] ! i"

lemma all_less_21: "(\<forall>i < 21. P i) \<longleftrightarrow> list_all P [0, 1, 2, 3, 4, 5, 6, 7, 8, 9, 10, 11, 12, 13, 14, 15, 16, 17, 18, 19, 20 :: nat]"
  by (simp add: numeral_eq_Suc All_less_Suc) blast

lemma cot_desc_images:
  "cot_desc B ! 0 = zero_desc" "cot_desc B ! 1 = bl2_image" "cot_desc B ! 2 = scp_bl2_image" "cot_desc B ! 3 = bl31_image"
  "cot_desc B ! 4 = bl32_image" "cot_desc B ! 5 = bl33_image" "cot_desc B ! 16 = zero_desc"
  "cot_desc B ! 18 = scp_bl2u_image" "cot_desc B ! 19 = bl2u_image" "cot_desc B ! 20 = ns_bl2u_image"
  by (simp_all add: cot_desc_def)

lemma tbbr_ranked: "ae_cot e = cot_desc B \<Longrightarrow> cot_ranked e tbbr_rank"
  unfolding cot_ranked_def length_cot_desc all_less_21
  by (simp add: all_less_21 cot_desc_images [simplified] cot_desc_parents tbbr_desc_defs tbbr_id_defs tbbr_rank_def)

text \<open>The image and its ancestors, from the image up.\<close>

fun chain_of :: "auth_img_desc list \<Rightarrow> nat \<Rightarrow> nat \<Rightarrow> nat list" where
  "chain_of cot 0 i = []"
| "chain_of cot (Suc n) i = i # (case ai_parent (cot ! i) of None \<Rightarrow> [] | Some p \<Rightarrow> chain_of cot n p)"

lemma chain_of_ancestors:
  "list_all (\<lambda>i. i < length (ae_cot e)) (chain_of (ae_cot e) n i) \<Longrightarrow> j \<in> set (chain_of (ae_cot e) n i) \<Longrightarrow>
   (parent_of e)\<^sup>*\<^sup>* i j"
proof (induction n arbitrary: i)
  case 0
  then show ?case by simp
next
  case (Suc n)
  show ?case
  proof (cases "j = i")
    case False
    with Suc.prems obtain p where p: "ai_parent (ae_cot e ! i) = Some p" "j \<in> set (chain_of (ae_cot e) n p)"
      by (auto split: option.splits)
    with Suc have "(parent_of e)\<^sup>*\<^sup>* p j" by simp
    moreover have "parent_of e i p" using p(1) Suc.prems(1) by (simp add: parent_of_def)
    ultimately show ?thesis by (rule converse_rtranclp_into_rtranclp [rotated])
  qed simp
qed

lemma tbbr_parent_id:
  assumes "ae_cot e = cot_desc B" and "parent_of e i p"
  shows "own_id e p"
  using cot_rankedD(1,2) [OF tbbr_ranked [OF assms(1)], of i p] assms(2)
  by (simp add: parent_of_def own_id_def nth_opt_eq_Some)

lemma tbbr_own_chain:
  assumes "ae_cot e = cot_desc B" and "i < 21" and "i \<noteq> unat NS_BL1U_IMAGE_ID"
  shows "own_chain e i"
proof -
  have "\<forall>i < 21. i \<noteq> 16 \<longrightarrow> ai_img_id (cot_desc B ! i) = i"
    unfolding all_less_21
    by (simp add: cot_desc_images [simplified] cot_desc_parents tbbr_desc_defs tbbr_id_defs)
  with assms have own: "own_id e i" by (simp add: own_id_def nth_opt_eq_Some NS_BL1U_IMAGE_ID_def)
  have "own_id e j" if "(parent_of e)\<^sup>*\<^sup>* i j" for j
    using that by cases (use own tbbr_parent_id [OF assms(1)] in auto)
  then show ?thesis by (simp add: own_chain_def)
qed

lemma chain_of_numeral:
  "chain_of cot (numeral k) i = i # (case ai_parent (cot ! i) of None \<Rightarrow> [] | Some p \<Rightarrow> chain_of cot (pred_numeral k) p)"
  by (simp add: numeral_eq_Suc)

lemma tbbr_chains:
  "map (chain_of (cot_desc B) 4) [0..<21] =
     [[0], [1, 6], [2, 12, 8, 7], [3, 13, 9, 7], [4, 14, 10, 7], [5, 15, 11, 7], [6], [7], [8, 7], [9, 7], [10, 7], [11, 7],
      [12, 8, 7], [13, 9, 7], [14, 10, 7], [15, 11, 7], [16], [17], [18, 17], [19, 17], [20, 17]]"
proof -
  have "[0..<21] = [0, 1, 2, 3, 4, 5, 6, 7, 8, 9, 10, 11, 12, 13, 14, 15, 16, 17, 18, 19, 20 :: nat]"
    by (simp add: upt_rec)
  then show ?thesis
    by (simp add: chain_of_numeral cot_desc_images [simplified] cot_desc_parents tbbr_desc_defs tbbr_id_defs)
qed

lemma tbbr_chain:
  assumes "i < 21"
  shows "chain_of (cot_desc B) 4 i =
     [[0], [1, 6], [2, 12, 8, 7], [3, 13, 9, 7], [4, 14, 10, 7], [5, 15, 11, 7], [6], [7], [8, 7], [9, 7], [10, 7], [11, 7],
      [12, 8, 7], [13, 9, 7], [14, 10, 7], [15, 11, 7], [16], [17], [18, 17], [19, 17], [20, 17]] ! i"
  using arg_cong [OF tbbr_chains [of B], of "\<lambda>xs. xs ! i"] assms by simp

lemma tbbr_chain_facts:
  "\<forall>i < 21. list_all (\<lambda>j. j < 21) (chain_of (cot_desc B) 4 i)"
  "\<forall>i < 21. ai_parent (cot_desc B ! last (chain_of (cot_desc B) 4 i)) = None"
  "\<forall>i < 21. i \<noteq> 0 \<longrightarrow> i \<noteq> 16 \<longrightarrow> sig_method subject_pk \<in> set (ai_methods (cot_desc B ! last (chain_of (cot_desc B) 4 i)))"
  unfolding all_less_21
  by (simp_all add: tbbr_chain cot_desc_images [simplified] cot_desc_parents tbbr_desc_defs tbbr_id_defs)
lemma methods_loop_none [simp]: "auth_methods_loop e d p n (replicate k AUTH_METHOD_NONE) w = Some (0, w)"
  by (induction k) (simp_all add: auth_method_run_def)

lemma params_loop_none [simp]: "ap_type_desc x = None \<Longrightarrow> auth_params_loop e ty p n (replicate k x) m = Some (0, m)"
  by (induction k) simp_all

text \<open>A concrete environment: a parser that accepts every certificate, one byte keys and hashes.\<close>

definition tbbr_demo_bufs :: tbbr_bufs where
  "tbbr_demo_bufs = \<lparr>tb_fw_hash_buf = 0x500, scp_fw_hash_buf = 0x540, soc_fw_hash_buf = 0x580, tos_fw_hash_buf = 0x5c0,
     nt_world_bl_hash_buf = 0x600, trusted_world_pk_buf = 0x640, non_trusted_world_pk_buf = 0x800, content_pk_buf = 0xa00\<rparr>"

definition tbbr_demo_env :: "u32 auth_env" where
  "tbbr_demo_env = demo_env\<lparr>ae_cot := cot_desc tbbr_demo_bufs,
     ae_parser_lib_descs := [\<lparr>pl_img_type = IMG_CERT, pl_check_integrity = (\<lambda>m p n. 0),
       pl_get_auth_param = (\<lambda>m t p n. (0, p OR 1, 1))\<rparr>]\<rparr>"

definition tbbr_demo_data :: "u32 auth_data" where
  "tbbr_demo_data = \<lparr>ad_flags = [0, 0, 0, 0, 0, 0, 0, 1, 0, 1, 0, 0, 0, 1, 0, 0, 0, 0, 0, 0, 0], ad_plat = 5\<rparr>"

lemma tbbr_demo_cot [simp]: "ae_cot tbbr_demo_env = cot_desc tbbr_demo_bufs"
  by (simp add: tbbr_demo_env_def)

lemma tbbr_demo_bufs_ok: "bufs_ok tbbr_demo_bufs"
  by (simp add: bufs_ok_def tbbr_demo_bufs_def)

lemma or_one_nonzero: "p OR 1 \<noteq> (0 :: u64)"
proof
  assume "p OR 1 = 0"
  then have "bit (p OR 1) 0 = bit (0 :: u64) 0" by simp
  then show False by (simp add: bit_or_iff bit_1_iff)
qed

lemma tbbr_demo_chain: "chain_ok tbbr_demo_env tbbr_demo_data"
proof -
  have k: "\<forall>i < 21. ad_flags tbbr_demo_data ! i AND 1 \<noteq> 0 \<longrightarrow>
      (case ai_parent (cot_desc tbbr_demo_bufs ! i) of None \<Rightarrow> True | Some p \<Rightarrow> p < 21 \<and> ad_flags tbbr_demo_data ! p AND 1 \<noteq> 0)"
    unfolding all_less_21
    by (simp add: tbbr_demo_data_def cot_desc_images [simplified] cot_desc_parents tbbr_desc_defs tbbr_id_defs)
  have len: "length (ad_flags tbbr_demo_data) = 21" by (simp add: tbbr_demo_data_def)
  show ?thesis
    unfolding chain_ok_def mark_def parent_of_def IMG_FLAG_AUTHENTICATED_def len tbbr_demo_cot length_cot_desc
    using k by fastforce
qed

definition tbbr_demo_store :: mem where
  "tbbr_demo_store = (\<lambda>_. 0)(0x331 := 0x20, 0x338 := 4)"

lemma tbbr_demo_load:
  obtains s where "load_auth_image tbbr_demo_env demo_disk demo_images demo_layout 3 0x4000 demo_image None
      (demo_boot tbbr_demo_store) tbbr_demo_data =
      Some (0, demo_layout, demo_image\<lparr>ii_image_base := 0x4000, ii_image_size := 4\<rparr>, None, s,
        tbbr_demo_data\<lparr>ad_flags := (ad_flags tbbr_demo_data)[3 := 1]\<rparr>)"
proof -
  have spec: "block_spec_offset tbbr_demo_store 0x330 = 0x2000" "block_spec_length tbbr_demo_store 0x330 = 4"
    by (simp_all add: block_spec_offset_def block_spec_length_def mem_u64_def mem_bytes_8 tbbr_demo_store_def)
  let ?img = "demo_image\<lparr>ii_image_base := 0x4000, ii_image_size := 4\<rparr>"
  obtain s1 where s1: "load_image demo_disk demo_images demo_layout 3 0x4000 demo_image None (demo_boot tbbr_demo_store) =
      Some (0, demo_layout, ?img, None, s1)" "io_mem s1 = memcpy tbbr_demo_store 0x4000 0x2000 4"
    by (rule demo_load [OF demo_boot_ready, of "0x330" 3 tbbr_demo_store "0x2000" 4 demo_image])
      (simp_all add: spec VERSION_1_def demo_image_def)
  have b: "io_mem s1 0x4000 = 0" "io_mem s1 0x580 = 0" "soc_fw_hash_buf tbbr_demo_bufs = 0x580"
    by (simp_all add: tbbr_demo_bufs_def s1(2) tbbr_demo_store_def memcpy_def in_range_def)
  have l: "cot_desc tbbr_demo_bufs ! 3 = bl31_image" "cot_desc tbbr_demo_bufs ! 13 = soc_fw_content_cert tbbr_demo_bufs"
    by (simp_all add: cot_desc_images cot_desc_parents)
  have v: "auth_mod_verify_img tbbr_demo_env 3 0x4000 4 (auth_view s1 tbbr_demo_data) =
      Some (0, (auth_view s1 tbbr_demo_data)\<lparr>w_flags := (ad_flags tbbr_demo_data)[3 := 1]\<rparr>)"
    by (simp add: auth_eval l tbbr_lookup auth_view_def tbbr_demo_data_def b)
      (simp add: tbbr_demo_env_def demo_env_def b)
  have p: "auth_mod_get_parent_id tbbr_demo_env 3 (auth_view (demo_boot tbbr_demo_store) tbbr_demo_data) = Some (1, 0)"
    by (simp add: auth_mod_get_parent_id_def nth_opt_def l tbbr_desc_defs tbbr_id_defs auth_view_def tbbr_demo_data_def
        IMG_FLAG_AUTHENTICATED_def)
  have i: "verify_img tbbr_demo_env 3 ?img s1 tbbr_demo_data =
      Some (0, s1, tbbr_demo_data\<lparr>ad_flags := (ad_flags tbbr_demo_data)[3 := 1]\<rparr>)"
    using v by (simp add: verify_img_def auth_view_def)
  show thesis
    by (rule that [of s1], subst load_auth_image.simps) (simp add: p s1(1) load_auth_one_def i)
qed

lemma auth_path_Suc: "auth_path e w n i = Some ps \<Longrightarrow> auth_path e w (Suc n) i = Some ps"
proof (induction n arbitrary: i ps)
  case (Suc n)
  from Suc.prems obtain rc p where p: "auth_mod_get_parent_id e i w = Some (rc, p)"
    by (auto simp: bind_eq_Some_conv)
  show ?case
  proof (cases "rc = 0")
    case True
    with p Suc.prems obtain qs where "auth_path e w n p = Some qs" "ps = qs @ [i]"
      by (auto simp: bind_eq_Some_conv)
    with Suc.IH [of p qs] p True show ?thesis
      by (subst auth_path.simps) (simp del: auth_path.simps)
  next
    case False
    with p Suc.prems show ?thesis by simp
  qed
qed simp

lemma auth_path_mono: "n \<le> k \<Longrightarrow> auth_path e w n i = Some ps \<Longrightarrow> auth_path e w k i = Some ps"
  by (induction k rule: dec_induct) (simp_all only: auth_path_Suc)

lemma auth_path_numeral:
  "auth_path e w (numeral k) i =
     do { (rc, p) \<leftarrow> auth_mod_get_parent_id e i w;
          if rc = 0 then do { ps \<leftarrow> auth_path e w (pred_numeral k) p; Some (ps @ [i]) }
          else Some [i] }"
  by (simp add: numeral_eq_Suc)

lemma tbbr_path:
  assumes "ae_cot e = cot_desc B" and "length (w_flags w) = 21" and "i < 21"
  shows "\<exists>ps. auth_path e w 4 i = Some ps"
proof -
  have "\<forall>i < 21. Suc (tbbr_rank i) \<le> 4" unfolding all_less_21 by (simp add: tbbr_rank_def)
  then have "Suc (tbbr_rank i) \<le> 4" using assms(3) by simp
  moreover obtain ps where "auth_path e w (Suc (tbbr_rank i)) i = Some ps"
    using auth_path_exists [OF tbbr_ranked [OF assms(1)], of w i] assms by auto
  ultimately show ?thesis using auth_path_mono by blast
qed

section \<open>Properties of the TBBR chain of trust\<close>

text \<open>
  C14. With the TBBR chain of trust, a successful authenticated load of any image but NS_BL1U means
  that the image and all its ancestors carry the authenticated mark, provided that marked images have
  marked parents at the start; the last ancestor has no parent, and for every image but number 0, which
  the chain does not describe, it is checked with the root of trust key.
\<close>

theorem tbbr_load_reaches_root:
  assumes "ae_cot e = cot_desc B" and "i < 21" and "i \<noteq> unat NS_BL1U_IMAGE_ID" and "chain_ok e g"
    and "load_auth_image e F plat lay i b img ep s g = Some (0, lay', img', ep', s', g')"
  shows "list_all (mark g') (chain_of (cot_desc B) 4 i) \<and>
    ai_parent (cot_desc B ! last (chain_of (cot_desc B) 4 i)) = None \<and>
    (i \<noteq> 0 \<longrightarrow> sig_method subject_pk \<in> set (ai_methods (cot_desc B ! last (chain_of (cot_desc B) 4 i))))"
proof -
  have "chain_step e i g 0 img' s' g'"
    by (rule load_auth_image_chain [OF assms(5) tbbr_own_chain [OF assms(1-3)] assms(4)])
  then have "chain_ok e g'" "mark g' i" by (simp_all add: chain_step_def)
  then have "list_all (mark g') (chain_of (cot_desc B) 4 i)"
    using chain_of_ancestors [of e 4 i] tbbr_chain_facts(1) assms(1,2) chain_ok_ancestors
    by (fastforce simp: list_all_iff)
  moreover have "i \<noteq> 16" using assms(3) by (simp add: NS_BL1U_IMAGE_ID_def)
  ultimately show ?thesis using tbbr_chain_facts(2,3) assms(2) by blast
qed

theorem tbbr_load_reaches_root_witness:
  "\<exists>(s :: memmap_state) g. load_auth_image tbbr_demo_env demo_disk demo_images demo_layout 3 0x4000 demo_image None
      (demo_boot tbbr_demo_store) tbbr_demo_data =
      Some (0, demo_layout, demo_image\<lparr>ii_image_base := 0x4000, ii_image_size := 4\<rparr>, None, s, g) \<and>
    mark g 3 \<and> mark g 13 \<and> mark g 9 \<and> mark g 7"
proof -
  obtain s :: memmap_state where s: "load_auth_image tbbr_demo_env demo_disk demo_images demo_layout 3 0x4000 demo_image None
      (demo_boot tbbr_demo_store) tbbr_demo_data =
      Some (0, demo_layout, demo_image\<lparr>ii_image_base := 0x4000, ii_image_size := 4\<rparr>, None, s,
        tbbr_demo_data\<lparr>ad_flags := (ad_flags tbbr_demo_data)[3 := 1]\<rparr>)"
    by (rule tbbr_demo_load)
  have "3 \<noteq> unat NS_BL1U_IMAGE_ID" by (simp add: NS_BL1U_IMAGE_ID_def)
  from tbbr_load_reaches_root [OF tbbr_demo_cot _ this tbbr_demo_chain s] s show ?thesis
    by (simp add: tbbr_chain)
qed

text \<open>
  C19. With the TBBR chain of trust the authenticated load of every image ends: the recursion is a
  loop over at most four images, from the highest one that has not been authenticated to the one
  asked for.
\<close>

theorem tbbr_load_terminates:
  assumes "ae_cot e = cot_desc B" and "length (ad_flags g) = 21" and "i < 21"
  shows "\<exists>ps. length ps \<le> 4 \<and> auth_path e (auth_view s g) 4 i = Some ps \<and>
    load_auth_image e F plat lay i b img ep s g = load_path e F plat b ep ps lay img s g"
proof -
  obtain ps where "auth_path e (auth_view s g) 4 i = Some ps"
    using tbbr_path [OF assms(1) _ assms(3), of "auth_view s g"] assms(2) by (auto simp: auth_view_def)
  with load_auth_image_path [OF this] auth_path_length [OF this] show ?thesis by blast
qed

theorem tbbr_load_terminates_witness:
  "load_auth_image tbbr_demo_env demo_disk demo_images demo_layout 3 0x4000 demo_image None (demo_boot tbbr_demo_store)
     (tbbr_demo_data\<lparr>ad_flags := replicate 21 0\<rparr>) =
   load_path tbbr_demo_env demo_disk demo_images 0x4000 None [7, 9, 13, 3] demo_layout demo_image (demo_boot tbbr_demo_store)
     (tbbr_demo_data\<lparr>ad_flags := replicate 21 0\<rparr>)"
proof -
  let ?g = "tbbr_demo_data\<lparr>ad_flags := replicate 21 0\<rparr>"
  have "auth_path tbbr_demo_env (auth_view (demo_boot tbbr_demo_store) ?g) 4 3 = Some [7, 9, 13, 3]"
    by (simp add: auth_path_numeral auth_mod_get_parent_id_def nth_opt_def auth_view_def cot_desc_images cot_desc_parents
        tbbr_desc_defs tbbr_id_defs IMG_FLAG_AUTHENTICATED_def)
  with tbbr_load_terminates [OF tbbr_demo_cot, of ?g 3 "demo_boot tbbr_demo_store" demo_disk demo_images demo_layout "0x4000" demo_image None]
  show ?thesis by simp
qed

text \<open>
  C29. With the TBBR chain of trust and a certificate parser registered, verifying an image of any
  contents comes to a decision, without a failed assertion, missing descriptor or null buffer, except
  for a certificate that the parser has accepted and then one of these: the parser reports success and
  no data for the signed part, the signature, its algorithm or the subject's key, or a counter without
  an address; or the certificate is a root and the platform reports a deployed root key without data.
\<close>

theorem tbbr_verify_stops_only_without_data:
  assumes "cert_parser e lib" and "ae_cot e = cot_desc B" and "bufs_ok B" and "i < 21" and "p \<noteq> 0" and "n \<noteq> 0"
    and "length (w_flags w) = 21" and "auth_mod_verify_img e i p n w = None"
  shows "ai_img_type (cot_desc B ! i) = IMG_CERT \<and> pl_check_integrity lib (w_mem w) p n = 0 \<and>
    (\<not> cert_params_present lib (w_mem w) p n \<or> ai_parent (cot_desc B ! i) = None \<and> \<not> root_key_present e)"
  using verify_stops [OF assms(1), of i p n w] cot_desc_safe [OF assms(3)] assms(2,4-8) by simp

theorem tbbr_verify_stops_only_without_data_witness:
  "auth_mod_verify_img (tbbr_demo_env\<lparr>ae_plat_get_rotpk_info := \<lambda>p c. (0, 0x200, 0, 0)\<rparr>) 7 0x1000 6
       \<lparr>w_mem = tbbr_demo_store, w_flags = replicate 21 0, w_plat = 5\<rparr> = None \<and>
   \<not> root_key_present (tbbr_demo_env\<lparr>ae_plat_get_rotpk_info := \<lambda>p c. (0, 0x200, 0, 0)\<rparr>)"
proof -
  let ?e = "tbbr_demo_env\<lparr>ae_plat_get_rotpk_info := \<lambda>p c. (0, 0x200, 0, 0)\<rparr>"
  let ?lib = "\<lparr>pl_img_type = IMG_CERT, pl_check_integrity = (\<lambda>m p n. 0), pl_get_auth_param = (\<lambda>m t p n. (0, p OR 1, 1))\<rparr>"
  let ?w = "\<lparr>w_mem = tbbr_demo_store, w_flags = replicate 21 0, w_plat = 5\<rparr>"
  have lib: "cert_parser ?e ?lib" by (simp add: cert_parser_def tbbr_demo_env_def demo_env_def nth_opt_def)
  have "cert_params_present ?lib (w_mem ?w) 0x1000 6"
    by (simp add: cert_params_present_def nonempty_def or_one_nonzero)
  moreover have none: "auth_mod_verify_img ?e 7 0x1000 6 ?w = None"
    by (simp add: auth_eval tbbr_demo_env_def demo_env_def cot_desc_parents tbbr_desc_defs tbbr_id_defs)
  ultimately show ?thesis
    using tbbr_verify_stops_only_without_data [OF lib _ tbbr_demo_bufs_ok, of 7 "0x1000" 6 ?w] by simp
qed

text \<open>
  C38. The image identifier NS_BL1U has no descriptor in the TBBR chain of trust: any non-empty image
  passes verification under it without any check, and the mark is set on image 0, which is not
  the image that was verified.
\<close>

theorem tbbr_ns_bl1u_unchecked:
  assumes "ae_cot e = cot_desc B" and "p \<noteq> 0" and "n \<noteq> 0" and "length (w_flags w) = 21"
  shows "auth_mod_verify_img e (unat NS_BL1U_IMAGE_ID) p n w =
    Some (0, w\<lparr>w_flags := (w_flags w)[0 := w_flags w ! 0 OR IMG_FLAG_AUTHENTICATED]\<rparr>)"
proof -
  have "cot_desc B ! 16 = zero_desc" by (simp add: cot_desc_images)
  moreover have "w_flags w \<noteq> []" using assms(4) by auto
  ultimately show ?thesis using assms
    by (simp add: auth_mod_verify_img_def nth_opt_def NS_BL1U_IMAGE_ID_def zero_desc_def img_parser_check_integrity_def
        no_param_def image_desc_of_def)
qed

theorem tbbr_ns_bl1u_unchecked_witness:
  "auth_mod_verify_img tbbr_demo_env 16 0x1000 6 \<lparr>w_mem = tbbr_demo_store, w_flags = replicate 21 0, w_plat = 5\<rparr> =
    Some (0, \<lparr>w_mem = tbbr_demo_store, w_flags = (replicate 21 0)[0 := 1], w_plat = 5\<rparr>)"
  using tbbr_ns_bl1u_unchecked [OF tbbr_demo_cot, of "0x1000" 6 "\<lparr>w_mem = tbbr_demo_store, w_flags = replicate 21 0, w_plat = 5\<rparr>"]
  by (simp add: NS_BL1U_IMAGE_ID_def IMG_FLAG_AUTHENTICATED_def)

end
