(* ===== verification/Bakery_Lock.thy ===== *)
theory Bakery_Lock
  imports Prelude
begin

text \<open>
  The bakery lock in coherent memory (\<open>lib/locks/bakery/bakery_lock_coherent.c\<close> with the encoding of
  \<open>include/lib/bakery_lock.h\<close>), which guards the power state of the processors. The two functions
  are split at their accesses to the shared slots, at the \<open>wfe\<close> of the waiting loop and at the \<open>sev\<close>
  of the release, and the steps of the processors interleave in any order. The steps refine Lamport's algorithm on unbounded tickets as long as the tickets fit in the
  15 bits of a slot; from its invariant follow mutual exclusion, the order of service and progress.
\<close>

section \<open>The encoding of a lock slot\<close>

definition PRIORITY :: "u32 \<Rightarrow> u32 \<Rightarrow> u32" where
  "PRIORITY t pos = push_bit 8 t OR pos"

definition CHOOSING_TICKET :: u32 where "CHOOSING_TICKET = 1"
definition CHOSEN_TICKET :: u32 where "CHOSEN_TICKET = 0"

definition bakery_is_choosing :: "u32 \<Rightarrow> bool" where
  "bakery_is_choosing info \<longleftrightarrow> info AND 1 \<noteq> 0"

definition bakery_ticket_number :: "u32 \<Rightarrow> u32" where
  "bakery_ticket_number info = drop_bit 1 info AND 0x7FFF"

definition make_bakery_data :: "u32 \<Rightarrow> u32 \<Rightarrow> u32" where
  "make_bakery_data choosing number = ((choosing AND 1) OR push_bit 1 number) AND 0xFFFF"

section \<open>The lock and its contenders\<close>

text \<open>
  Where a processor is in \<open>bakery_lock_get\<close> and \<open>bakery_lock_release\<close>, with its local variables:
  outside; in the loop of \<open>bakery_get_ticket\<close> with \<open>my_ticket\<close> and \<open>they\<close>; about to read the slot
  of \<open>they\<close> in the loop of \<open>bakery_lock_get\<close>; at the \<open>wfe\<close> of the loop that waits for the ticket
  \<open>their_ticket\<close> of \<open>they\<close> to change; about to read that ticket again; holding the lock; between the
  reset of its slot and the \<open>sev\<close>; stopped at a failed assertion.
\<close>

datatype cpu_phase =
  Outside
| Choosing u32 nat
| Checking u32 nat
| Waiting u32 nat u32
| Watching u32 nat u32
| Holding
| Signalling
| Stopped

text \<open>
  Besides the slots, a processor has the event register of the architecture: \<open>wfe\<close> waits until it is
  set and clears it, \<open>sev\<close> sets it in all processors.
\<close>

record bakery_lock =
  lock_data :: "u16 list"
  cpus :: "cpu_phase list"
  events :: "bool list"

abbreviation max_cpus :: "bakery_lock \<Rightarrow> nat" where
  "max_cpus b \<equiv> length (lock_data b)"

definition read_slot :: "bakery_lock \<Rightarrow> nat \<Rightarrow> u32" where
  "read_slot b i = ucast (lock_data b ! i)"

definition write_slot :: "nat \<Rightarrow> u32 \<Rightarrow> bakery_lock \<Rightarrow> bakery_lock" where
  "write_slot i v b = b\<lparr>lock_data := (lock_data b)[i := ucast v]\<rparr>"

definition goto :: "nat \<Rightarrow> cpu_phase \<Rightarrow> bakery_lock \<Rightarrow> bakery_lock" where
  "goto i c b = b\<lparr>cpus := (cpus b)[i := c]\<rparr>"

section \<open>Steps\<close>

text \<open>
  A step of a processor is one access to a slot of another processor, or one to its own, which no
  other processor writes, or a \<open>wfe\<close> or \<open>sev\<close>; the memory is coherent and ordered, so that steps interleave.
\<close>

definition get_ticket_begin :: "nat \<Rightarrow> bakery_lock \<Rightarrow> bakery_lock" where
  "get_ticket_begin me b =
     (if bakery_ticket_number (read_slot b me) \<noteq> 0 then goto me Stopped b
      else goto me (Choosing 0 0) (write_slot me (make_bakery_data CHOOSING_TICKET 0) b))"

definition get_ticket_scan :: "nat \<Rightarrow> u32 \<Rightarrow> nat \<Rightarrow> bakery_lock \<Rightarrow> bakery_lock" where
  "get_ticket_scan me my_ticket they b =
     (let their_ticket = bakery_ticket_number (read_slot b they)
      in goto me (Choosing (if their_ticket > my_ticket then their_ticket else my_ticket) (they + 1)) b)"

definition get_ticket_end :: "nat \<Rightarrow> u32 \<Rightarrow> bakery_lock \<Rightarrow> bakery_lock" where
  "get_ticket_end me my_ticket b =
     goto me (Checking (my_ticket + 1) 0) (write_slot me (make_bakery_data CHOSEN_TICKET (my_ticket + 1)) b)"

definition lock_get_check :: "nat \<Rightarrow> u32 \<Rightarrow> nat \<Rightarrow> bakery_lock \<Rightarrow> bakery_lock" where
  "lock_get_check me my_ticket they b =
     (if me = they then goto me (Checking my_ticket (they + 1)) b
      else
        let their_bakery_data = read_slot b they;
            their_ticket = bakery_ticket_number their_bakery_data
        in if bakery_is_choosing their_bakery_data then b
           else if their_ticket \<noteq> 0 \<and> PRIORITY their_ticket (of_nat they) < PRIORITY my_ticket (of_nat me)
           then goto me (Waiting my_ticket they their_ticket) b
           else goto me (Checking my_ticket (they + 1)) b)"

text \<open>The \<open>wfe\<close> of the waiting loop: a processor whose event register is clear sleeps on.\<close>

definition lock_get_wfe :: "nat \<Rightarrow> u32 \<Rightarrow> nat \<Rightarrow> u32 \<Rightarrow> bakery_lock \<Rightarrow> bakery_lock" where
  "lock_get_wfe me my_ticket they their_ticket b =
     (if events b ! me
      then goto me (Watching my_ticket they their_ticket) (b\<lparr>events := (events b)[me := False]\<rparr>)
      else b)"

definition lock_get_watch :: "nat \<Rightarrow> u32 \<Rightarrow> nat \<Rightarrow> u32 \<Rightarrow> bakery_lock \<Rightarrow> bakery_lock" where
  "lock_get_watch me my_ticket they their_ticket b =
     (if their_ticket = bakery_ticket_number (read_slot b they)
      then goto me (Waiting my_ticket they their_ticket) b
      else goto me (Checking my_ticket (they + 1)) b)"

definition bakery_lock_release :: "nat \<Rightarrow> bakery_lock \<Rightarrow> bakery_lock" where
  "bakery_lock_release me b =
     (if bakery_ticket_number (read_slot b me) = 0 then goto me Stopped b
      else goto me Signalling (write_slot me 0 b))"

text \<open>The \<open>sev\<close> that ends the release.\<close>

definition lock_release_sev :: "nat \<Rightarrow> bakery_lock \<Rightarrow> bakery_lock" where
  "lock_release_sev me b = goto me Outside (b\<lparr>events := map (\<lambda>_. True) (events b)\<rparr>)"

text \<open>
  The next step of processor \<open>me\<close>: outside it calls \<open>bakery_lock_get\<close>, and when it holds the lock it
  calls \<open>bakery_lock_release\<close>.
\<close>

definition bakery_step :: "nat \<Rightarrow> bakery_lock \<Rightarrow> bakery_lock" where
  "bakery_step me b =
     (case cpus b ! me of
        Outside \<Rightarrow> get_ticket_begin me b
      | Choosing t k \<Rightarrow> if k < max_cpus b then get_ticket_scan me t k b else get_ticket_end me t b
      | Checking t k \<Rightarrow> if k < max_cpus b then lock_get_check me t k b else goto me Holding b
      | Waiting t k tt \<Rightarrow> lock_get_wfe me t k tt b
      | Watching t k tt \<Rightarrow> lock_get_watch me t k tt b
      | Holding \<Rightarrow> bakery_lock_release me b
      | Signalling \<Rightarrow> lock_release_sev me b
      | Stopped \<Rightarrow> b)"

definition lock_free :: "nat \<Rightarrow> bakery_lock" where
  "lock_free n = \<lparr>lock_data = replicate n 0, cpus = replicate n Outside, events = replicate n False\<rparr>"

text \<open>
  Executions with the number of tickets that have been handed out since all processors were last
  outside; a slot holds 15 bits of a ticket, and the executions of \<open>bounded_step\<close> stay within them.
\<close>

definition idle :: "bakery_lock \<Rightarrow> bool" where
  "idle b \<longleftrightarrow> list_all (\<lambda>c. c = Outside) (cpus b)"

definition takes_ticket :: "nat \<Rightarrow> bakery_lock \<Rightarrow> bool" where
  "takes_ticket me b \<longleftrightarrow> (case cpus b ! me of Choosing t k \<Rightarrow> \<not> k < max_cpus b | _ \<Rightarrow> False)"

fun count_step :: "nat \<Rightarrow> bakery_lock \<times> nat \<Rightarrow> bakery_lock \<times> nat" where
  "count_step me (b, n) =
     (bakery_step me b,
      if idle (bakery_step me b) then 0 else if takes_ticket me b then n + 1 else n)"

inductive bounded_step :: "nat \<Rightarrow> bakery_lock \<times> nat \<Rightarrow> bakery_lock \<times> nat \<Rightarrow> bool" where
  "me < max_cpus b \<Longrightarrow> count_step me (b, n) = (b', n') \<Longrightarrow> n' \<le> 0x7FFF \<Longrightarrow> bounded_step me (b, n) (b', n')"

text \<open>
  Events also reach a processor from elsewhere (another lock, an interrupt); the architecture allows
  them at any time.
\<close>

definition stray_event :: "nat \<Rightarrow> bakery_lock \<Rightarrow> bakery_lock" where
  "stray_event i b = b\<lparr>events := (events b)[i := True]\<rparr>"

definition lock_step :: "bakery_lock \<times> nat \<Rightarrow> bakery_lock \<times> nat \<Rightarrow> bool" where
  "lock_step s s' \<longleftrightarrow> (\<exists>me. bounded_step me s s') \<or> (\<exists>i. s' = (stray_event i (fst s), snd s))"

section \<open>Facts about the encoding\<close>

lemma make_bakery_data_value:
  assumes "unat t \<le> 0x7FFF"
  shows "unat (make_bakery_data CHOSEN_TICKET t) = 2 * unat t"
proof -
  have "make_bakery_data CHOSEN_TICKET t = take_bit 16 (push_bit 1 t)"
    by (simp add: make_bakery_data_def CHOSEN_TICKET_def take_bit_eq_mask mask_eq_exp_minus_1)
  moreover have "unat (push_bit 1 t) = 2 * unat t"
    using assms by (simp add: push_bit_eq_mult unat_word_ariths(2))
  ultimately show ?thesis using assms by (simp add: unsigned_take_bit_eq take_bit_nat_eq_self)
qed

lemma ticket_number_value: "unat (bakery_ticket_number v) = (unat v div 2) mod 0x8000"
proof -
  have "bakery_ticket_number v = take_bit 15 (drop_bit 1 v)"
    by (simp add: bakery_ticket_number_def take_bit_eq_mask mask_eq_exp_minus_1)
  then show ?thesis
    by (simp add: take_bit_eq_mod drop_bit_eq_div unat_div_distrib unat_mod_distrib)
qed

lemma choosing_iff_odd: "bakery_is_choosing v \<longleftrightarrow> odd (unat v)"
  by (simp add: bakery_is_choosing_def and_one_eq word_unat_eq_iff unat_mod_distrib odd_iff_mod_2_eq_one)

lemma priority_value:
  assumes "unat t \<le> 0x7FFF" and "p < 256"
  shows "unat (PRIORITY t (of_nat p)) = 256 * unat t + p"
proof -
  have p: "unat (of_nat p :: u32) = p" using assms(2) by (simp add: unat_of_nat)
  have "push_bit 8 t AND (of_nat p :: u32) = 0"
  proof (rule bit_eqI)
    fix n
    have "p < 2 ^ 8" using assms(2) by simp
    then have "\<not> bit p n" if "8 \<le> n" using that
      by (metis bit_take_bit_iff not_le take_bit_nat_eq_self)
    then show "bit (push_bit 8 t AND (of_nat p :: u32)) n = bit (0 :: u32) n"
      by (auto simp: bit_and_iff bit_push_bit_iff bit_of_nat_iff)
  qed
  then have "PRIORITY t (of_nat p) = push_bit 8 t + of_nat p"
    by (simp add: PRIORITY_def disjunctive_add_eq_or)
  moreover have "unat (push_bit 8 t) = 256 * unat t"
    using assms by (simp add: push_bit_eq_mult unat_word_ariths(2))
  ultimately show ?thesis using assms p by (simp add: unat_word_ariths(1))
qed

text \<open>Tickets are ordered by number and then by the position of the processor.\<close>

lemma priority_less:
  assumes "unat t \<le> 0x7FFF" "p < 256" "unat u \<le> 0x7FFF" "q < 256"
  shows "PRIORITY t (of_nat p) < PRIORITY u (of_nat q) \<longleftrightarrow> t < u \<or> t = u \<and> p < q"
  using assms by (auto simp: word_less_nat_alt priority_value word_unat_eq_iff)

section \<open>The invariant\<close>

text \<open>
  The invariant is stated on the tickets \<open>T\<close> in the slots and the states \<open>C\<close> of the processors:
  \<open>behind T C i j\<close> says that \<open>j\<close> comes after \<open>i\<close>: its ticket is larger, or it is still choosing and
  has not missed the ticket of \<open>i\<close>.
\<close>

definition before :: "nat \<Rightarrow> nat \<Rightarrow> nat \<Rightarrow> nat \<Rightarrow> bool" where
  "before t i u j \<longleftrightarrow> t < u \<or> t = u \<and> i < j"

definition behind :: "(nat \<Rightarrow> nat) \<Rightarrow> (nat \<Rightarrow> cpu_phase) \<Rightarrow> nat \<Rightarrow> nat \<Rightarrow> bool" where
  "behind T C i j \<longleftrightarrow> (T j \<noteq> 0 \<longrightarrow> before (T i) i (T j) j) \<and> (\<forall>t k. C j = Choosing t k \<and> i < k \<longrightarrow> T i \<le> unat t)"

fun passed :: "cpu_phase \<Rightarrow> nat \<Rightarrow> bool" where
  "passed (Checking t k) j = (j < k)"
| "passed (Waiting t k tt) j = (j < k)"
| "passed (Watching t k tt) j = (j < k)"
| "passed Holding j = True"
| "passed _ j = False"

fun watches :: "cpu_phase \<Rightarrow> (nat \<times> u32) option" where
  "watches (Waiting t k tt) = Some (k, tt)"
| "watches (Watching t k tt) = Some (k, tt)"
| "watches _ = None"

fun cpu_ok :: "nat \<Rightarrow> nat \<Rightarrow> nat \<Rightarrow> nat \<Rightarrow> cpu_phase \<Rightarrow> bool" where
  "cpu_ok N n x i Outside = (x = 0)"
| "cpu_ok N n x i (Choosing t k) = (x = 0 \<and> k \<le> N \<and> unat t \<le> n)"
| "cpu_ok N n x i (Checking t k) = (x = unat t \<and> 0 < x \<and> k \<le> N)"
| "cpu_ok N n x i (Waiting t k tt) = (x = unat t \<and> 0 < x \<and> k < N \<and> k \<noteq> i \<and> 0 < unat tt \<and> before (unat tt) k x i)"
| "cpu_ok N n x i (Watching t k tt) = (x = unat t \<and> 0 < x \<and> k < N \<and> k \<noteq> i \<and> 0 < unat tt \<and> before (unat tt) k x i)"
| "cpu_ok N n x i Holding = (0 < x)"
| "cpu_ok N n x i Signalling = (x = 0)"
| "cpu_ok N n x i Stopped = False"

definition lock_inv :: "nat \<Rightarrow> nat \<Rightarrow> (nat \<Rightarrow> nat) \<Rightarrow> (nat \<Rightarrow> cpu_phase) \<Rightarrow> bool" where
  "lock_inv N n T C \<longleftrightarrow>
     (\<forall>i < N. cpu_ok N n (T i) i (C i) \<and> T i \<le> n) \<and>
     (\<forall>i < N. \<forall>j < N. i \<noteq> j \<longrightarrow> passed (C i) j \<longrightarrow> behind T C i j) \<and>
     (\<forall>i < N. \<forall>k tt. watches (C i) = Some (k, tt) \<longrightarrow> T k = unat tt \<or> behind T C i k)"

text \<open>
  The algorithm on unbounded tickets: what a step of processor \<open>me\<close> does to the tickets and the
  states. The last three rules are those of the waiting loops; when a processor is woken is left open here.
\<close>

inductive lamport_step ::
  "nat \<Rightarrow> nat \<Rightarrow> (nat \<Rightarrow> nat) \<Rightarrow> (nat \<Rightarrow> cpu_phase) \<Rightarrow> (nat \<Rightarrow> nat) \<Rightarrow> (nat \<Rightarrow> cpu_phase) \<Rightarrow> bool"
  for N me T C
where
  begin_choosing: "C me = Outside \<Longrightarrow> lamport_step N me T C (T(me := 0)) (C(me := Choosing 0 0))"
| scan: "C me = Choosing t k \<Longrightarrow> k < N \<Longrightarrow> unat t' = max (unat t) (T k) \<Longrightarrow>
    lamport_step N me T C T (C(me := Choosing t' (Suc k)))"
| take_ticket: "C me = Choosing t N \<Longrightarrow> unat t' = Suc (unat t) \<Longrightarrow>
    lamport_step N me T C (T(me := Suc (unat t))) (C(me := Checking t' 0))"
| pass_by: "C me = Checking t k \<Longrightarrow> k < N \<Longrightarrow>
    (k \<noteq> me \<Longrightarrow> (\<forall>u j. C k \<noteq> Choosing u j) \<and> (T k = 0 \<or> before (T me) me (T k) k)) \<Longrightarrow>
    lamport_step N me T C T (C(me := Checking t (Suc k)))"
| give_way: "C me = Checking t k \<Longrightarrow> k < N \<Longrightarrow> k \<noteq> me \<Longrightarrow> \<forall>u j. C k \<noteq> Choosing u j \<Longrightarrow> T k \<noteq> 0 \<Longrightarrow>
    before (T k) k (T me) me \<Longrightarrow> unat tt = T k \<Longrightarrow> lamport_step N me T C T (C(me := Waiting t k tt))"
| wake: "C me = Waiting t k tt \<Longrightarrow> lamport_step N me T C T (C(me := Watching t k tt))"
| go_on: "C me = Watching t k tt \<Longrightarrow> T k \<noteq> unat tt \<Longrightarrow> lamport_step N me T C T (C(me := Checking t (Suc k)))"
| enter: "C me = Checking t N \<Longrightarrow> lamport_step N me T C T (C(me := Holding))"
| release: "C me = Holding \<Longrightarrow> lamport_step N me T C (T(me := 0)) (C(me := Signalling))"
| signal: "C me = Signalling \<Longrightarrow> lamport_step N me T C T (C(me := Outside))"
| spin_choosing: "C me = Checking t k \<Longrightarrow> k < N \<Longrightarrow> k \<noteq> me \<Longrightarrow> C k = Choosing u j \<Longrightarrow> lamport_step N me T C T C"
| spin_watching: "C me = Watching t k tt \<Longrightarrow> T k = unat tt \<Longrightarrow> lamport_step N me T C T (C(me := Waiting t k tt))"
| sleep: "C me = Waiting t k tt \<Longrightarrow> lamport_step N me T C T C"

lemma before_irrefl: "\<not> before t i t i"
  and before_asym: "before t i u j \<Longrightarrow> \<not> before u j t i"
  and before_trans: "before t i u j \<Longrightarrow> before u j v k \<Longrightarrow> before t i v k"
  and before_total: "i \<noteq> j \<Longrightarrow> before t i u j \<or> before u j t i"
  by (auto simp: before_def)

lemma lock_invD:
  assumes "lock_inv N n T C" and "i < N"
  shows "cpu_ok N n (T i) i (C i)" "T i \<le> n"
    "\<And>j. j < N \<Longrightarrow> i \<noteq> j \<Longrightarrow> passed (C i) j \<Longrightarrow> behind T C i j"
    "\<And>k tt. watches (C i) = Some (k, tt) \<Longrightarrow> T k = unat tt \<or> behind T C i k"
  using assms by (auto simp: lock_inv_def)

text \<open>A change of the state of \<open>me\<close>, with or without a new ticket, keeps the invariant.\<close>

lemma lock_inv_update:
  assumes inv: "lock_inv N n T C" and "me < N" "n \<le> n'"
    and own: "cpu_ok N n' x me c" "x \<le> n'"
    and pass: "\<And>j. j < N \<Longrightarrow> j \<noteq> me \<Longrightarrow> passed c j \<Longrightarrow> behind (T(me := x)) (C(me := c)) me j"
    and watch: "\<And>k tt. watches c = Some (k, tt) \<Longrightarrow> T k = unat tt \<or> behind (T(me := x)) (C(me := c)) me k"
    and others: "\<And>i. i < N \<Longrightarrow> i \<noteq> me \<Longrightarrow> 0 < T i \<Longrightarrow> behind T C i me \<Longrightarrow> behind (T(me := x)) (C(me := c)) i me"
    and watched: "\<And>i tt. i < N \<Longrightarrow> i \<noteq> me \<Longrightarrow> watches (C i) = Some (me, tt) \<Longrightarrow> T me = unat tt \<Longrightarrow> T me \<noteq> 0 \<Longrightarrow>
       x = unat tt \<or> behind (T(me := x)) (C(me := c)) i me"
  shows "lock_inv N n' (T(me := x)) (C(me := c))"
proof -
  let ?T = "T(me := x)" and ?C = "C(me := c)"
  have mono: "cpu_ok N n (T i) i (C i) \<Longrightarrow> cpu_ok N n' (T i) i (C i)" for i
    using \<open>n \<le> n'\<close> by (cases "C i") auto
  have far: "behind ?T ?C i j = behind T C i j" if "i \<noteq> me" "j \<noteq> me" for i j
    using that by (simp add: behind_def)
  have pos: "0 < T i" if "i < N" "passed (C i) j" for i j
    using lock_invD(1) [OF inv that(1)] that(2) by (cases "C i") auto
  have posw: "0 < T i" "0 < unat tt" if "i < N" "watches (C i) = Some (k, tt)" for i k tt
    using lock_invD(1) [OF inv that(1)] that(2) by (cases "C i"; simp)+
  have ownw: "k \<noteq> me" if "watches c = Some (k, tt)" for k tt
    using own(1) that by (cases c) auto
  have "cpu_ok N n' (?T i) i (?C i) \<and> ?T i \<le> n'" if "i < N" for i
    using lock_invD(1,2) [OF inv that] own mono \<open>n \<le> n'\<close> by fastforce
  moreover have "behind ?T ?C i j" if "i < N" "j < N" "i \<noteq> j" "passed (?C i) j" for i j
  proof (cases "i = me")
    case True
    with that pass show ?thesis by simp
  next
    case False
    with that have b: "behind T C i j" and p: "0 < T i" using lock_invD(3) [OF inv, of i j] pos by auto
    show ?thesis using False that b far others [OF that(1) False p] by (cases "j = me") auto
  qed
  moreover have "?T k = unat tt \<or> behind ?T ?C i k" if "i < N" "watches (?C i) = Some (k, tt)" for i k tt
  proof (cases "i = me")
    case True
    then show ?thesis using that watch [of k tt] ownw by auto
  next
    case False
    with that have w: "watches (C i) = Some (k, tt)" by simp
    show ?thesis
      using False w lock_invD(4) [OF inv that(1) w] that(1) far [of i k] others [of i] watched [of i tt] posw [OF that(1) w]
      by (cases "k = me") auto
  qed
  ultimately show ?thesis unfolding lock_inv_def by blast
qed

lemma inv_begin:
  assumes "lock_inv N n T C" "me < N" "C me = Outside"
  shows "lock_inv N n (T(me := 0)) (C(me := Choosing 0 0))"
  using lock_invD [OF assms(1,2)] assms(3)
  by (intro lock_inv_update [OF assms(1,2)]) (auto simp: behind_def)

lemma inv_scan:
  assumes "lock_inv N n T C" "me < N" "C me = Choosing t k" "k < N" "unat t' = max (unat t) (T k)"
  shows "lock_inv N n T (C(me := Choosing t' (Suc k)))"
proof -
  have "lock_inv N n (T(me := 0)) (C(me := Choosing t' (Suc k)))"
    using lock_invD [OF assms(1,2)] lock_invD(2) [OF assms(1,4)] assms(3-5)
    by (intro lock_inv_update [OF assms(1,2)]) (auto simp: behind_def less_Suc_eq)
  moreover have "T(me := 0) = T" using lock_invD(1) [OF assms(1,2)] assms(3) by auto
  ultimately show ?thesis by simp
qed

lemma inv_end:
  assumes "lock_inv N n T C" "me < N" "C me = Choosing t N" "unat t' = Suc (unat t)"
  shows "lock_inv N (Suc n) (T(me := Suc (unat t))) (C(me := Checking t' 0))"
  using lock_invD [OF assms(1,2)] assms(3,4)
  by (intro lock_inv_update [OF assms(1,2)]) (auto simp: behind_def before_def)

lemma lock_inv_move:
  assumes "lock_inv N n T C" "me < N" "cpu_ok N n (T me) me c" "\<And>t k. c \<noteq> Choosing t k"
    and "\<And>j. j < N \<Longrightarrow> j \<noteq> me \<Longrightarrow> passed c j \<Longrightarrow> behind T C me j"
    and "\<And>k tt. watches c = Some (k, tt) \<Longrightarrow> T k = unat tt \<or> behind T C me k"
  shows "lock_inv N n T (C(me := c))"
proof -
  have self: "behind T (C(me := c)) me j = behind T C me j" if "j \<noteq> me" for j
    using that by (simp add: behind_def)
  have other: "behind T C i me \<Longrightarrow> behind T (C(me := c)) i me" for i
    using assms(4) by (simp add: behind_def)
  have ownw: "k \<noteq> me" if "watches c = Some (k, tt)" for k tt
    using assms(3) that by (cases c) auto
  have "lock_inv N n (T(me := T me)) (C(me := c))"
    by (rule lock_inv_update [OF assms(1,2)])
      (use assms self other ownw lock_invD(2) [OF assms(1,2)] in \<open>simp_all\<close>)
  then show ?thesis by simp
qed

lemma inv_next:
  assumes "lock_inv N n T C" "me < N" "C me = Checking t k \<or> (\<exists>tt. C me = Watching t k tt)" "k < N"
    "k \<noteq> me \<Longrightarrow> behind T C me k"
  shows "lock_inv N n T (C(me := Checking t (Suc k)))"
proof (rule lock_inv_move [OF assms(1,2)])
  show "behind T C me j" if "j < N" "j \<noteq> me" "passed (Checking t (Suc k)) j" for j
    using that assms(3,5) lock_invD(3) [OF assms(1,2), of j] by (auto simp: less_Suc_eq)
qed (use lock_invD(1) [OF assms(1,2)] assms(3,4) in auto)

lemma inv_watch:
  assumes "lock_inv N n T C" "me < N" "C me = Checking t k" "k < N" "k \<noteq> me" "unat tt = T k" "T k \<noteq> 0" "before (T k) k (T me) me"
  shows "lock_inv N n T (C(me := Waiting t k tt))"
  by (rule lock_inv_move [OF assms(1,2)])
    (use lock_invD(1,3) [OF assms(1,2)] assms(3-8) in auto)

text \<open>Between waiting and reading again, in both directions.\<close>

lemma inv_rewatch:
  assumes "lock_inv N n T C" "me < N" "C me = Waiting t k tt \<or> C me = Watching t k tt" "c = Waiting t k tt \<or> c = Watching t k tt"
  shows "lock_inv N n T (C(me := c))"
  by (rule lock_inv_move [OF assms(1,2)])
    (use lock_invD(1,3,4) [OF assms(1,2)] assms(3,4) in auto)

lemma inv_enter:
  assumes "lock_inv N n T C" "me < N" "C me = Checking t N"
  shows "lock_inv N n T (C(me := Holding))"
  by (rule lock_inv_move [OF assms(1,2)]) (use lock_invD(1,3) [OF assms(1,2)] assms(3) in auto)

lemma inv_release:
  assumes "lock_inv N n T C" "me < N"
  shows "lock_inv N n (T(me := 0)) (C(me := Signalling))"
  using assms by (intro lock_inv_update [OF assms(1,2)]) (auto simp: behind_def)

lemma inv_signal:
  assumes "lock_inv N n T C" "me < N" "C me = Signalling"
  shows "lock_inv N n T (C(me := Outside))"
  by (rule lock_inv_move [OF assms(1,2)]) (use lock_invD(1) [OF assms(1,2)] assms(3) in auto)

lemma inv_idle: "lock_inv N n T C \<Longrightarrow> (\<And>i. i < N \<Longrightarrow> C i = Outside) \<Longrightarrow> lock_inv N 0 T C"
  by (fastforce simp: lock_inv_def)

lemma lamport_step_inv:
  assumes inv: "lock_inv N n T C" and me: "me < N" and step: "lamport_step N me T C T' C'"
  shows "lock_inv N (if \<exists>t. C me = Choosing t N then Suc n else n) T' C'"
  using step
proof cases
  case begin_choosing
  then show ?thesis using inv_begin [OF inv me] by simp
next
  case (scan u k t')
  then show ?thesis using inv_scan [OF inv me] by auto
next
  case (take_ticket u t')
  then show ?thesis using inv_end [OF inv me] by simp
next
  case (pass_by t k)
  then have "k \<noteq> me \<Longrightarrow> behind T C me k" by (auto simp: behind_def)
  with pass_by show ?thesis using inv_next [OF inv me, of t k] by simp
next
  case (give_way t k tt)
  then show ?thesis using inv_watch [OF inv me, of t k tt] by simp
next
  case (go_on t k tt)
  moreover have "k < N" using lock_invD(1) [OF inv me] go_on by simp
  ultimately show ?thesis using inv_next [OF inv me, of t k] lock_invD(4) [OF inv me, of k tt] by auto
next
  case (enter t)
  then show ?thesis using inv_enter [OF inv me] by simp
next
  case release
  then show ?thesis using inv_release [OF inv me] by simp
next
  case signal
  then show ?thesis using inv_signal [OF inv me] by simp
next
  case (wake t k tt)
  then show ?thesis using inv_rewatch [OF inv me, of t k tt] by simp
next
  case (spin_watching t k tt)
  then show ?thesis using inv_rewatch [OF inv me, of t k tt] by simp
qed (use inv in simp_all)

lemma inv_mutex:
  assumes "lock_inv N n T C" "i < N" "j < N" "C i = Holding" "C j = Holding"
  shows "i = j"
proof (rule ccontr)
  assume "i \<noteq> j"
  with assms have "behind T C i j" "behind T C j i" by (auto simp: lock_invD(3))
  moreover have "T i \<noteq> 0" "T j \<noteq> 0" using lock_invD(1) [OF assms(1)] assms(2-5) by fastforce+
  ultimately show False by (auto simp: behind_def dest: before_asym)
qed

section \<open>The steps keep the invariant\<close>

definition ticket :: "bakery_lock \<Rightarrow> nat \<Rightarrow> nat" where
  "ticket b i = unat (bakery_ticket_number (read_slot b i))"

text \<open>The flags in the slots and the states agree, and the tickets fit.\<close>

definition flags_ok :: "bakery_lock \<Rightarrow> bool" where
  "flags_ok b \<longleftrightarrow> length (cpus b) = max_cpus b \<and> length (events b) = max_cpus b \<and> max_cpus b \<le> 256 \<and>
     (\<forall>i < max_cpus b. bakery_is_choosing (read_slot b i) \<longleftrightarrow> (\<exists>t k. cpus b ! i = Choosing t k))"

text \<open>
  No wake-up is lost: a processor that sleeps with its event register clear waits for a ticket that is
  still there, or for a processor that is about to signal.
\<close>

definition awake :: "nat \<Rightarrow> (nat \<Rightarrow> bool) \<Rightarrow> (nat \<Rightarrow> nat) \<Rightarrow> (nat \<Rightarrow> cpu_phase) \<Rightarrow> bool" where
  "awake N E T C \<longleftrightarrow>
     (\<forall>i < N. \<forall>t k tt. C i = Waiting t k tt \<longrightarrow> E i \<or> T k = unat tt \<or> C k = Signalling)"

definition bakery_inv :: "bakery_lock \<times> nat \<Rightarrow> bool" where
  "bakery_inv = (\<lambda>(b, n). flags_ok b \<and> n \<le> 0x7FFF \<and> lock_inv (max_cpus b) n (ticket b) ((!) (cpus b)) \<and>
     awake (max_cpus b) ((!) (events b)) (ticket b) ((!) (cpus b)))"

definition lamport_move :: "nat \<Rightarrow> bakery_lock \<Rightarrow> bakery_lock \<Rightarrow> bool" where
  "lamport_move me b b' \<longleftrightarrow> lamport_step (max_cpus b) me (ticket b) ((!) (cpus b)) (ticket b') ((!) (cpus b'))"

lemma nth_upd_fun: "i < length xs \<Longrightarrow> (!) (xs[i := x]) = ((!) xs)(i := x)"
  by (auto simp: nth_list_update)

lemma goto_simps [simp]:
  "lock_data (goto i c b) = lock_data b" "cpus (goto i c b) = (cpus b)[i := c]" "events (goto i c b) = events b"
  "read_slot (goto i c b) = read_slot b" "ticket (goto i c b) = ticket b"
  by (auto simp: goto_def read_slot_def ticket_def fun_eq_iff)

lemma events_update_simps [simp]:
  "lock_data (b\<lparr>events := e\<rparr>) = lock_data b" "cpus (b\<lparr>events := e\<rparr>) = cpus b"
  "read_slot (b\<lparr>events := e\<rparr>) = read_slot b" "ticket (b\<lparr>events := e\<rparr>) = ticket b"
  "flags_ok b \<Longrightarrow> length e = length (events b) \<Longrightarrow> flags_ok (b\<lparr>events := e\<rparr>)"
  by (auto simp: read_slot_def ticket_def flags_ok_def fun_eq_iff)

lemma write_slot_simps [simp]:
  "max_cpus (write_slot i v b) = max_cpus b" "cpus (write_slot i v b) = cpus b" "events (write_slot i v b) = events b"
  by (simp_all add: write_slot_def)

lemma read_write_slot:
  assumes "i < max_cpus b" and "unat v < 0x10000"
  shows "read_slot (write_slot i v b) = (read_slot b)(i := v)"
proof
  have "ucast (ucast v :: u16) = v"
    using assms(2) by (simp add: word_unat_eq_iff unsigned_ucast_eq take_bit_eq_mod unat_mod_distrib)
  then show "read_slot (write_slot i v b) j = ((read_slot b)(i := v)) j" for j
    using assms(1) by (simp add: read_slot_def write_slot_def nth_list_update)
qed

lemma ticket_write_slot:
  assumes "i < max_cpus b" and "unat v < 0x10000"
  shows "ticket (write_slot i v b) = (ticket b)(i := (unat v div 2) mod 0x8000)"
  by (rule ext) (simp add: ticket_def read_write_slot [OF assms] ticket_number_value)

lemma choosing_data: "make_bakery_data CHOOSING_TICKET 0 = 1"
  by (simp add: make_bakery_data_def CHOOSING_TICKET_def)

text \<open>A step that writes the slot of \<open>me\<close>, and one that does not.\<close>

lemma write_effect:
  assumes "flags_ok b" "me < max_cpus b" "unat v < 0x10000" and "odd (unat v) \<longleftrightarrow> (\<exists>t k. c = Choosing t k)"
  shows "flags_ok (goto me c (write_slot me v b))"
    "ticket (goto me c (write_slot me v b)) = (ticket b)(me := (unat v div 2) mod 0x8000)"
    "(!) (cpus (goto me c (write_slot me v b))) = ((!) (cpus b))(me := c)"
  using assms by (auto simp: flags_ok_def read_write_slot ticket_write_slot nth_upd_fun choosing_iff_odd)

lemma goto_effect:
  assumes "flags_ok b" "me < max_cpus b" and "(\<exists>t k. cpus b ! me = Choosing t k) \<longleftrightarrow> (\<exists>t k. c = Choosing t k)"
  shows "flags_ok (goto me c b)" "(!) (cpus (goto me c b)) = ((!) (cpus b))(me := c)"
  using assms by (auto simp: flags_ok_def nth_upd_fun nth_list_update)

lemma ticket_0_iff: "ticket b i = 0 \<longleftrightarrow> bakery_ticket_number (read_slot b i) = 0"
  by (simp add: ticket_def word_unat_eq_iff)

text \<open>The processor's step is a step of the algorithm, as long as the tickets fit in 15 bits.\<close>

lemma check_refines:
  assumes fl: "flags_ok b" and me: "me < max_cpus b" and c: "cpus b ! me = Checking t k" and k: "k < max_cpus b"
    and T: "ticket b me = unat t" "ticket b me \<le> 0x7FFF" "ticket b k \<le> 0x7FFF"
  shows "lamport_move me b (lock_get_check me t k b) \<and> flags_ok (lock_get_check me t k b)"
proof -
  let ?u = "bakery_ticket_number (read_slot b k)"
  have N: "max_cpus b \<le> 256" and ch: "bakery_is_choosing (read_slot b k) \<longleftrightarrow> (\<exists>t j. cpus b ! k = Choosing t j)"
    using fl k by (simp_all add: flags_ok_def)
  have less: "PRIORITY ?u (of_nat k) < PRIORITY t (of_nat me) \<longleftrightarrow> before (ticket b k) k (ticket b me) me"
    using priority_less [of ?u k t me] T k me N by (auto simp: before_def ticket_def word_less_nat_alt word_unat_eq_iff)
  have go: "(!) (cpus (goto me (Checking t (Suc k)) b)) = ((!) (cpus b))(me := Checking t (Suc k))"
    "(!) (cpus (goto me (Waiting t k ?u) b)) = ((!) (cpus b))(me := Waiting t k ?u)"
    "flags_ok (goto me (Checking t (Suc k)) b)" "flags_ok (goto me (Waiting t k ?u) b)"
    by (rule goto_effect [OF fl me]; simp add: c)+
  consider "me = k" | "k \<noteq> me" "bakery_is_choosing (read_slot b k)"
    | "k \<noteq> me" "\<not> bakery_is_choosing (read_slot b k)" "?u \<noteq> 0" "PRIORITY ?u (of_nat k) < PRIORITY t (of_nat me)"
    | "k \<noteq> me" "\<not> bakery_is_choosing (read_slot b k)" "?u = 0 \<or> \<not> PRIORITY ?u (of_nat k) < PRIORITY t (of_nat me)"
    by blast
  then show ?thesis
  proof cases
    case 1
    then have "lamport_step (max_cpus b) me (ticket b) ((!) (cpus b)) (ticket b) (((!) (cpus b))(me := Checking t (Suc k)))"
      using c k by (intro pass_by) auto
    with 1 go show ?thesis by (simp add: lock_get_check_def lamport_move_def)
  next
    case 2
    with ch obtain u j where "cpus b ! k = Choosing u j" by auto
    then have "lamport_step (max_cpus b) me (ticket b) ((!) (cpus b)) (ticket b) ((!) (cpus b))"
      using c k 2 by (intro spin_choosing)
    with 2 fl show ?thesis by (auto simp: lock_get_check_def lamport_move_def)
  next
    case 3
    have "lamport_step (max_cpus b) me (ticket b) ((!) (cpus b)) (ticket b) (((!) (cpus b))(me := Waiting t k ?u))"
      using c k 3 ch less by (intro give_way) (auto simp: ticket_0_iff, simp add: ticket_def)
    with 3 go show ?thesis by (auto simp: lock_get_check_def lamport_move_def)
  next
    case 4
    have "lamport_step (max_cpus b) me (ticket b) ((!) (cpus b)) (ticket b) (((!) (cpus b))(me := Checking t (Suc k)))"
      using c k 4 ch less before_total [of k me "ticket b k" "ticket b me"]
      by (intro pass_by) (auto simp: ticket_0_iff)
    with 4 go show ?thesis by (auto simp: lock_get_check_def lamport_move_def Let_def)
  qed
qed

lemma watch_refines:
  assumes fl: "flags_ok b" and me: "me < max_cpus b" and c: "cpus b ! me = Watching t k tt"
  shows "lamport_move me b (lock_get_watch me t k tt b) \<and> flags_ok (lock_get_watch me t k tt b)"
proof (cases "tt = bakery_ticket_number (read_slot b k)")
  case True
  then have "ticket b k = unat tt" by (simp add: ticket_def)
  with True c goto_effect [OF fl me, of "Waiting t k tt"] show ?thesis
    by (auto simp: lock_get_watch_def lamport_move_def intro: spin_watching)
next
  case False
  then have "ticket b k \<noteq> unat tt" by (auto simp: ticket_def word_unat_eq_iff)
  with False c goto_effect [OF fl me, of "Checking t (Suc k)"] show ?thesis
    by (auto simp: lock_get_watch_def lamport_move_def intro: go_on)
qed

lemma wfe_refines:
  assumes fl: "flags_ok b" and me: "me < max_cpus b" and c: "cpus b ! me = Waiting t k tt"
  shows "lamport_move me b (lock_get_wfe me t k tt b) \<and> flags_ok (lock_get_wfe me t k tt b)"
proof (cases "events b ! me")
  case True
  let ?b = "b\<lparr>events := (events b)[me := False]\<rparr>"
  have "flags_ok ?b" using fl by simp
  from goto_effect [OF this, of me "Watching t k tt"] True c me show ?thesis
    by (auto simp: lock_get_wfe_def lamport_move_def intro: wake)
next
  case False
  with fl c show ?thesis by (auto simp: lock_get_wfe_def lamport_move_def intro: sleep)
qed

lemma choosing_refines:
  assumes fl: "flags_ok b" and me: "me < max_cpus b" and c: "cpus b ! me = Choosing t k"
  shows "k < max_cpus b \<Longrightarrow> lamport_move me b (get_ticket_scan me t k b) \<and> flags_ok (get_ticket_scan me t k b)"
    "k = max_cpus b \<Longrightarrow> unat t < 0x7FFF \<Longrightarrow> lamport_move me b (get_ticket_end me t b) \<and> flags_ok (get_ticket_end me t b)"
proof -
  show "lamport_move me b (get_ticket_scan me t k b) \<and> flags_ok (get_ticket_scan me t k b)" if k: "k < max_cpus b"
  proof -
    let ?u = "bakery_ticket_number (read_slot b k)"
    let ?t = "if ?u > t then ?u else t"
    have "unat ?t = max (unat t) (ticket b k)" by (auto simp: ticket_def word_less_nat_alt)
    with c k have "lamport_step (max_cpus b) me (ticket b) ((!) (cpus b)) (ticket b) (((!) (cpus b))(me := Choosing ?t (Suc k)))"
      by (intro scan)
    with goto_effect [OF fl me, of "Choosing ?t (Suc k)"] c show ?thesis
      by (simp add: get_ticket_scan_def lamport_move_def Let_def)
  qed
  assume e: "k = max_cpus b" and lt: "unat t < 0x7FFF"
  have t': "unat (t + 1) = Suc (unat t)" using lt by (simp add: unat_word_ariths(1))
  have v: "unat (make_bakery_data CHOSEN_TICKET (t + 1)) = 2 * Suc (unat t)"
    using make_bakery_data_value [of "t + 1"] t' lt by simp
  have "lamport_step (max_cpus b) me (ticket b) ((!) (cpus b)) ((ticket b)(me := Suc (unat t))) (((!) (cpus b))(me := Checking (t + 1) 0))"
    using c e t' by (intro take_ticket) auto
  with write_effect [OF fl me, of "make_bakery_data CHOSEN_TICKET (t + 1)" "Checking (t + 1) 0"] v lt
  show "lamport_move me b (get_ticket_end me t b) \<and> flags_ok (get_ticket_end me t b)"
    by (simp add: get_ticket_end_def lamport_move_def)
qed

lemma bakery_step_refines:
  assumes inv: "bakery_inv (b, n)" and me: "me < max_cpus b" and lt: "takes_ticket me b \<Longrightarrow> n < 0x7FFF"
  shows "lamport_move me b (bakery_step me b) \<and> flags_ok (bakery_step me b)"
proof -
  have L: "lock_inv (max_cpus b) n (ticket b) ((!) (cpus b))" and n: "n \<le> 0x7FFF" and fl: "flags_ok b"
    using inv by (simp_all add: bakery_inv_def)
  note own = lock_invD(1,2) [OF L me]
  have quiet: "flags_ok (b\<lparr>events := map (\<lambda>_. True) (events b)\<rparr>)" using fl by simp
  show ?thesis
  proof (cases "cpus b ! me")
    case Outside
    then have "bakery_step me b = goto me (Choosing 0 0) (write_slot me 1 b)"
      using own by (simp add: bakery_step_def get_ticket_begin_def choosing_data ticket_0_iff)
    with write_effect [OF fl me, of 1 "Choosing 0 0"] begin_choosing [of "(!) (cpus b)" me] Outside
    show ?thesis by (simp add: lamport_move_def)
  next
    case (Choosing t k)
    with own lt choosing_refines [OF fl me Choosing] show ?thesis
      by (cases "k < max_cpus b") (auto simp: bakery_step_def takes_ticket_def)
  next
    case (Checking t k)
    show ?thesis
    proof (cases "k < max_cpus b")
      case True
      then show ?thesis
        using check_refines [OF fl me Checking] own n lock_invD(2) [OF L, of k] Checking by (simp add: bakery_step_def)
    next
      case False
      then have "k = max_cpus b" using own Checking by simp
      with False Checking goto_effect [OF fl me, of Holding] show ?thesis
        by (auto simp: bakery_step_def lamport_move_def intro: enter)
    qed
  next
    case (Waiting t k tt)
    then show ?thesis using wfe_refines [OF fl me Waiting] by (simp add: bakery_step_def)
  next
    case (Watching t k tt)
    then show ?thesis using watch_refines [OF fl me Watching] by (simp add: bakery_step_def)
  next
    case Holding
    then have "bakery_step me b = goto me Signalling (write_slot me 0 b)"
      using own ticket_0_iff [of b me] by (simp add: bakery_step_def bakery_lock_release_def)
    with write_effect [OF fl me, of 0 Signalling] release [of "(!) (cpus b)" me] Holding
    show ?thesis by (simp add: lamport_move_def)
  next
    case Signalling
    with goto_effect [OF quiet, of me Outside] me signal [of "(!) (cpus b)" me] show ?thesis
      by (simp add: bakery_step_def lock_release_sev_def lamport_move_def)
  qed (use own in simp)
qed

lemma max_cpus_step [simp]: "max_cpus (bakery_step me b) = max_cpus b"
  by (simp add: bakery_step_def get_ticket_begin_def get_ticket_scan_def get_ticket_end_def lock_get_check_def
      lock_get_wfe_def lock_get_watch_def bakery_lock_release_def lock_release_sev_def Let_def split: cpu_phase.split)

text \<open>What a step does to the event registers: \<open>wfe\<close> clears the processor's own, \<open>sev\<close> sets all.\<close>

lemma events_step:
  "events (bakery_step me b) =
     (case cpus b ! me of Waiting t k tt \<Rightarrow> (events b)[me := False]
      | Signalling \<Rightarrow> map (\<lambda>_. True) (events b) | _ \<Rightarrow> events b)"
  by (simp add: bakery_step_def get_ticket_begin_def get_ticket_scan_def get_ticket_end_def lock_get_check_def
      lock_get_wfe_def lock_get_watch_def bakery_lock_release_def lock_release_sev_def Let_def list_update_same_conv
      split: cpu_phase.split)
    (metis list_update_id)

lemma awake_step:
  assumes step: "lamport_step N me T C T' C'" and inv: "lock_inv N n T C" and me: "me < N" and aw: "awake N E T C"
    and others: "\<And>i. i < N \<Longrightarrow> i \<noteq> me \<Longrightarrow> E i \<Longrightarrow> E' i" and sev: "\<And>i. C me = Signalling \<Longrightarrow> i < N \<Longrightarrow> E' i"
    and asleep: "C' = C \<Longrightarrow> E me \<Longrightarrow> E' me"
  shows "awake N E' T' C'"
  unfolding awake_def
proof (intro allI impI)
  fix i t k tt
  assume i: "i < N" and w: "C' i = Waiting t k tt"
  have old: "E i \<or> T k = unat tt \<or> C k = Signalling" "0 < unat tt" "k \<noteq> i" if "C i = Waiting t k tt"
    using aw i that lock_invD(1) [OF inv i] by (auto simp: awake_def)
  note own = lock_invD(1) [OF inv me]
  show "E' i \<or> T' k = unat tt \<or> C' k = Signalling"
    using step
  proof cases
    case begin_choosing
    then show ?thesis using own old others [OF i] w by (auto split: if_splits)
  next
    case (take_ticket u t')
    then show ?thesis using own old others [OF i] w by (auto split: if_splits)
  next
    case signal
    then show ?thesis using sev i by simp
  qed (use old others [OF i] asleep w in \<open>auto split: if_splits\<close>)
qed

lemma bakery_step_awake:
  assumes inv: "bakery_inv (b, n)" and me: "me < max_cpus b" and move: "lamport_move me b b'" and b': "b' = bakery_step me b"
  shows "awake (max_cpus b) ((!) (events b')) (ticket b') ((!) (cpus b'))"
proof (rule awake_step [OF move [unfolded lamport_move_def] _ me])
  show "lock_inv (max_cpus b) n (ticket b) ((!) (cpus b))" "awake (max_cpus b) ((!) (events b)) (ticket b) ((!) (cpus b))"
    using inv by (simp_all add: bakery_inv_def)
  have len: "length (events b) = max_cpus b" "length (cpus b) = max_cpus b" using inv by (simp_all add: bakery_inv_def flags_ok_def)
  show "events b' ! i" if "i < max_cpus b" "i \<noteq> me" "events b ! i" for i
    using that len by (simp add: b' events_step split: cpu_phase.split)
  show "events b' ! i" if "cpus b ! me = Signalling" "i < max_cpus b" for i
    using that len by (simp add: b' events_step)
  show "events b' ! me" if "(!) (cpus b') = (!) (cpus b)" "events b ! me"
  proof (cases "\<exists>t k tt. cpus b ! me = Waiting t k tt")
    case True
    then obtain t k tt where w: "cpus b ! me = Waiting t k tt" by blast
    with that(2) me len have "cpus b' ! me = Watching t k tt" by (simp add: b' bakery_step_def lock_get_wfe_def)
    with w fun_cong [OF that(1), of me] show ?thesis by simp
  next
    case False
    with that me len show ?thesis by (simp add: b' events_step split: cpu_phase.splits)
  qed
qed

lemma bakery_step_inv:
  assumes inv: "bakery_inv (b, n)" and me: "me < max_cpus b" and lt: "takes_ticket me b \<Longrightarrow> n < 0x7FFF"
  shows "bakery_inv (bakery_step me b, if takes_ticket me b then Suc n else n)"
proof -
  have L: "lock_inv (max_cpus b) n (ticket b) ((!) (cpus b))" and n: "n \<le> 0x7FFF"
    using inv by (simp_all add: bakery_inv_def)
  have "takes_ticket me b \<longleftrightarrow> (\<exists>t. cpus b ! me = Choosing t (max_cpus b))"
    using lock_invD(1) [OF L me] by (auto simp: takes_ticket_def split: cpu_phase.splits)
  with lamport_step_inv [OF L me] bakery_step_refines [OF assms] bakery_step_awake [OF inv me _ refl] n lt show ?thesis
    by (auto simp: bakery_inv_def lamport_move_def)
qed

lemma idle_inv: "bakery_inv (b, n) \<Longrightarrow> idle b \<Longrightarrow> bakery_inv (b, 0)"
  using inv_idle [of "max_cpus b" n "ticket b" "(!) (cpus b)"]
  by (auto simp: bakery_inv_def flags_ok_def idle_def list_all_length)

lemma lock_free_inv: "N \<le> 256 \<Longrightarrow> bakery_inv (lock_free N, 0)"
  by (auto simp: bakery_inv_def flags_ok_def lock_free_def read_slot_def ticket_def bakery_is_choosing_def bakery_ticket_number_def lock_inv_def
      awake_def)

lemma bounded_step_room:
  assumes "bounded_step me (b, n) (b', n')" and "bakery_inv (b, n)"
  shows "takes_ticket me b \<Longrightarrow> n < 0x7FFF"
  using assms(1)
proof cases
  case 1
  assume t: "takes_ticket me b"
  then obtain u k where "cpus b ! me = Choosing u k" "\<not> k < max_cpus b"
    by (auto simp: takes_ticket_def split: cpu_phase.splits)
  then have "cpus b' ! me = Checking (u + 1) 0" "me < length (cpus b')"
    using 1 assms(2) by (auto simp: bakery_step_def get_ticket_end_def bakery_inv_def flags_ok_def)
  then have "\<not> idle b'" by (auto simp: idle_def list_all_length)
  with 1 t show "n < 0x7FFF" by (auto split: if_splits)
qed

lemma bounded_step_lamport:
  assumes "bounded_step me (b, n) (b', n')" and "bakery_inv (b, n)"
  shows "lamport_move me b b'" "me < max_cpus b" "max_cpus b' = max_cpus b" "bakery_inv (b', n')"
proof -
  have st: "me < max_cpus b" "b' = bakery_step me b" "n' = (if idle b' then 0 else if takes_ticket me b then n + 1 else n)"
    using assms(1) by (auto elim!: bounded_step.cases)
  note room = bounded_step_room [OF assms]
  show "lamport_move me b b'" "me < max_cpus b" "max_cpus b' = max_cpus b"
    using bakery_step_refines [OF assms(2) st(1) room] st by simp_all
  show "bakery_inv (b', n')"
    using bakery_step_inv [OF assms(2) st(1) room] idle_inv [of b'] st by (auto split: if_splits)
qed

lemma stray_event_simps [simp]:
  "max_cpus (stray_event i b) = max_cpus b" "cpus (stray_event i b) = cpus b" "ticket (stray_event i b) = ticket b"
  by (simp_all add: stray_event_def)

lemma stray_event_inv: "bakery_inv (b, n) \<Longrightarrow> bakery_inv (stray_event i b, n)"
proof -
  assume inv: "bakery_inv (b, n)"
  have "(events b)[i := True] ! j" if "events b ! j" for j
    using that by (cases "i < length (events b)") (auto simp: nth_list_update list_update_beyond)
  with inv show ?thesis
    unfolding bakery_inv_def awake_def by (fastforce simp: stray_event_def)
qed

lemma lock_step_inv: "bakery_inv s \<Longrightarrow> lock_step s s' \<Longrightarrow> bakery_inv s'"
  using bounded_step_lamport(4) stray_event_inv by (cases s; cases s') (auto simp: lock_step_def)

interpretation bakery: state_machine "\<lambda>s. \<exists>N \<le> 256. s = (lock_free N, 0)" lock_step bakery_inv
  by unfold_locales (auto intro: lock_free_inv lock_step_inv)

section \<open>Order and progress\<close>

text \<open>A processor that comes after \<open>i\<close> stays after it until \<open>i\<close> has released the lock.\<close>

lemma lamport_behind:
  assumes step: "lamport_step N me T C T' C'" and inv: "lock_inv N n T C" and lt: "me < N" "i < N" "j < N" "i \<noteq> j"
    and t: "T i \<noteq> 0" "C' i \<notin> {Outside, Signalling}" and b: "behind T C i j"
  shows "T' i \<noteq> 0 \<and> behind T' C' i j"
proof -
  have i: "\<And>t k. C i \<noteq> Choosing t k" "C i \<noteq> Outside" "C i \<noteq> Signalling" using lock_invD(1) [OF inv lt(2)] t(1) by auto
  have b1: "T j \<noteq> 0 \<Longrightarrow> before (T i) i (T j) j" "\<And>t k. C j = Choosing t k \<Longrightarrow> i < k \<Longrightarrow> T i \<le> unat t"
    using b by (auto simp: behind_def)
  show ?thesis
    using step
  proof cases
    case (scan u k t')
    then show ?thesis using t b1 lt i by (auto simp: behind_def less_Suc_eq)
  next
    case (take_ticket u t')
    then show ?thesis using t b1 lt i by (auto simp: behind_def before_def less_Suc_eq_le)
  qed (use t b1 lt i in \<open>auto simp: behind_def\<close>)
qed

lemma max_cpus_reach: "lock_step\<^sup>*\<^sup>* s s' \<Longrightarrow> max_cpus (fst s') = max_cpus (fst s)"
  by (induction rule: rtranclp_induct) (auto simp: lock_step_def elim!: bounded_step.cases)

lemma reach_inv: "N \<le> 256 \<Longrightarrow> lock_step\<^sup>*\<^sup>* (lock_free N, 0) (b, n) \<Longrightarrow> bakery_inv (b, n) \<and> max_cpus b = N"
  using bakery.reachable_inv [of "(lock_free N, 0)" "(b, n)"] max_cpus_reach [of "(lock_free N, 0)" "(b, n)"]
  by (auto simp: lock_free_def)

lemma keeps_behind:
  assumes "lock_step (b, n) (b', n')" and inv: "bakery_inv (b, n)" and lt: "i < max_cpus b" "j < max_cpus b" "i \<noteq> j"
    and "ticket b i \<noteq> 0" "cpus b' ! i \<notin> {Outside, Signalling}" "behind (ticket b) ((!) (cpus b)) i j"
  shows "bakery_inv (b', n') \<and> max_cpus b' = max_cpus b \<and> ticket b' i \<noteq> 0 \<and> behind (ticket b') ((!) (cpus b')) i j"
proof -
  have L: "lock_inv (max_cpus b) n (ticket b) ((!) (cpus b))" using inv by (simp add: bakery_inv_def)
  consider me where "bounded_step me (b, n) (b', n')" | l where "b' = stray_event l b" "n' = n"
    using assms(1) by (auto simp: lock_step_def)
  then show ?thesis
  proof cases
    case 1
    note st = bounded_step_lamport [OF 1 inv]
    with lamport_behind [OF st(1) [unfolded lamport_move_def] L _ lt] assms(6-) show ?thesis by simp
  next
    case 2
    with assms show ?thesis by (simp add: stray_event_inv)
  qed
qed

text \<open>
  The work that a contender has left until it gets the lock, and a releasing processor until it has
  signalled. An event costs a sleeping processor two steps, one to wake and one to read again.
\<close>

fun work :: "nat \<Rightarrow> cpu_phase \<Rightarrow> nat" where
  "work N (Choosing t k) = 4 * N + 3 + (N - k)"
| "work N (Checking t k) = 4 * (N - k) + 2"
| "work N (Watching t k tt) = 4 * (N - k) + 1"
| "work N (Waiting t k tt) = 4 * (N - k)"
| "work N Signalling = 2 * N + 1"
| "work N _ = 0"

definition total_work :: "nat \<Rightarrow> (nat \<Rightarrow> bool) \<Rightarrow> (nat \<Rightarrow> cpu_phase) \<Rightarrow> nat" where
  "total_work N E C = (\<Sum>i < N. work N (C i)) + 2 * (\<Sum>i < N. of_bool (E i))"

lemma sum_update:
  fixes f :: "'a \<Rightarrow> nat" and N :: nat
  assumes "me < N"
  shows "(\<Sum>i < N. f ((X(me := x)) i)) + f (X me) = (\<Sum>i < N. f (X i)) + f x"
proof -
  have "(\<Sum>i < N. f (Y i)) = f (Y me) + (\<Sum>i \<in> {..<N} - {me}. f (Y i))" for Y
    using assms by (intro sum.remove) auto
  moreover have "(\<Sum>i \<in> {..<N} - {me}. f ((X(me := x)) i)) = (\<Sum>i \<in> {..<N} - {me}. f (X i))"
    by (rule sum.cong) auto
  ultimately show ?thesis by simp
qed

lemma event_count_bound: "(\<Sum>i < N. of_bool (E i)) \<le> (N :: nat)"
  using sum_bounded_above [of "{..<N}" "\<lambda>i. of_bool (E i)" "1 :: nat"] by simp

lemma total_work_bound: "total_work N E C \<le> N * (5 * N + 5)"
proof -
  have "work N c \<le> 5 * N + 3" for c by (cases c) auto
  then have "(\<Sum>i < N. work N (C i)) \<le> of_nat (card {..<N}) * (5 * N + 3)" by (intro sum_bounded_above)
  with event_count_bound [of E N] show ?thesis by (simp add: total_work_def algebra_simps)
qed

lemma total_work_less:
  assumes me: "me < N" and c: "C' = C(me := c)"
    and less: "work N c + 2 * of_bool (E' me) < work N (C me) + 2 * of_bool (E me)"
    and E: "\<And>i. i < N \<Longrightarrow> i \<noteq> me \<Longrightarrow> E' i = E i"
  shows "total_work N E' C' < total_work N E C"
proof -
  have "(\<Sum>i < N. of_bool (E' i) :: nat) = (\<Sum>i < N. of_bool ((E(me := E' me)) i))"
    using E by (intro sum.cong) auto
  with sum_update [OF me, of "work N" C c] sum_update [OF me, of "of_bool" E "E' me"] less c
  show ?thesis by (simp add: total_work_def)
qed

lemma signal_work_less:
  assumes "me < N" and "C me = Signalling"
  shows "total_work N E' (C(me := Outside)) < total_work N E C"
  using sum_update [OF assms(1), of "work N" C Outside] event_count_bound [of E' N] assms(2)
  by (simp add: total_work_def)

definition asleep :: "cpu_phase \<Rightarrow> bool" where
  "asleep c \<longleftrightarrow> (\<exists>t k tt. c = Waiting t k tt)"

lemma lamport_work:
  assumes "lamport_step N me T C T' C'" and "cpu_ok N n (T me) me (C me)" and "C me \<noteq> Outside" "C me \<noteq> Holding" "C' \<noteq> C"
  shows "\<exists>d. C' = C(me := d) \<and> (if asleep (C me) then work N d = Suc (work N (C me)) else work N d < work N (C me))"
  using assms by cases (auto simp: asleep_def)

lemma lamport_progress:
  assumes step: "lamport_step N me T C T' C'" and inv: "lock_inv N n T C" and me: "me < N"
    and c: "C me \<noteq> Outside" "C me \<noteq> Holding" "C' \<noteq> C"
    and others: "\<And>i. C me \<noteq> Signalling \<Longrightarrow> i < N \<Longrightarrow> i \<noteq> me \<Longrightarrow> E' i = E i"
    and own: "asleep (C me) \<Longrightarrow> E me \<and> \<not> E' me" "\<not> asleep (C me) \<Longrightarrow> C me \<noteq> Signalling \<Longrightarrow> E' me = E me"
  shows "total_work N E' C' < total_work N E C"
proof (cases "C me = Signalling")
  case True
  from step True have "C' = C(me := Outside)" by cases auto
  with signal_work_less [of me N C E' E] me True show ?thesis by simp
next
  case False
  obtain d where d: "C' = C(me := d)"
    "if asleep (C me) then work N d = Suc (work N (C me)) else work N d < work N (C me)"
    using lamport_work [OF step lock_invD(1) [OF inv me] c] by (elim exE conjE)
  show ?thesis
    by (rule total_work_less [OF me d(1) _ others [OF False]]) (use d(2) own False in \<open>auto split: if_splits\<close>)
qed

text \<open>
  Steps of contenders and of releasing processors that change something: neither another read of a
  processor that is choosing nor sleep at \<open>wfe\<close>. No stray event is needed in them.
\<close>

definition contend_step :: "bakery_lock \<times> nat \<Rightarrow> bakery_lock \<times> nat \<Rightarrow> bool" where
  "contend_step s s' \<longleftrightarrow> (\<exists>me. bounded_step me s s' \<and> cpus (fst s) ! me \<noteq> Outside \<and> cpus (fst s) ! me \<noteq> Holding \<and>
     cpus (fst s') \<noteq> cpus (fst s))"

abbreviation lock_work :: "bakery_lock \<Rightarrow> nat" where
  "lock_work b \<equiv> total_work (max_cpus b) ((!) (events b)) ((!) (cpus b))"

lemma contend_progress:
  assumes "contend_step (b, n) (b', n')" and inv: "bakery_inv (b, n)"
  shows "lock_work b' < lock_work b" "bakery_inv (b', n')" "max_cpus b' = max_cpus b"
proof -
  obtain me where me: "bounded_step me (b, n) (b', n')" "cpus b ! me \<noteq> Outside" "cpus b ! me \<noteq> Holding" "cpus b' \<noteq> cpus b"
    using assms(1) by (auto simp: contend_step_def)
  note st = bounded_step_lamport [OF me(1) inv]
  have b': "b' = bakery_step me b" using me(1) by (auto elim: bounded_step.cases)
  show "bakery_inv (b', n')" "max_cpus b' = max_cpus b" by (fact st)+
  have len: "length (cpus b') = length (cpus b)" "length (events b) = max_cpus b"
    using inv st(3,4) by (simp_all add: bakery_inv_def flags_ok_def)
  with me(4) have ch: "(!) (cpus b') \<noteq> (!) (cpus b)" by (metis nth_equalityI)
  have "total_work (max_cpus b) ((!) (events b')) ((!) (cpus b')) < lock_work b"
  proof (rule lamport_progress [OF st(1) [unfolded lamport_move_def] _ st(2) me(2,3) ch])
    show "lock_inv (max_cpus b) n (ticket b) ((!) (cpus b))" using inv by (simp add: bakery_inv_def)
    show "events b ! me \<and> \<not> events b' ! me" if "asleep (cpus b ! me)"
      using that me(4) st(2) len by (auto simp: b' asleep_def bakery_step_def lock_get_wfe_def split: if_splits)
  qed (simp_all add: b' events_step asleep_def split: cpu_phase.splits)
  then show "lock_work b' < lock_work b" by (simp add: st(3))
qed

lemma contend_bound:
  "(contend_step ^^ k) (b, n) (b', n') \<Longrightarrow> bakery_inv (b, n) \<Longrightarrow>
   k + lock_work b' \<le> lock_work b \<and> bakery_inv (b', n') \<and> max_cpus b' = max_cpus b"
proof (induction k arbitrary: b' n')
  case 0
  then show ?case by simp
next
  case (Suc k)
  then obtain b1 n1 where "(contend_step ^^ k) (b, n) (b1, n1)" "contend_step (b1, n1) (b', n')" by auto
  with Suc contend_progress [of b1 n1 b' n'] show ?case by fastforce
qed

lemma least_before:
  assumes "x \<in> (A :: nat set)"
  shows "\<exists>i \<in> A. \<forall>j \<in> A. \<not> before (T j) j (T i) i"
proof -
  have "wf (inv_image (less_than <*lex*> less_than) (\<lambda>i. (T i, i)))" by auto
  from wf_eq_minimal [THEN iffD1, OF this, rule_format, OF assms] obtain i where
    "i \<in> A" "\<And>j. T j < T i \<or> T j = T i \<and> j < i \<Longrightarrow> j \<notin> A" by auto
  then show ?thesis by (auto simp: before_def)
qed

text \<open>A contender can always go on, unless it sleeps at \<open>wfe\<close> or reads a slot while somebody chooses.\<close>

lemma contender_moves:
  assumes inv: "bakery_inv (b, n)" and n: "n < 0x7FFF" and me: "me < max_cpus b"
    and c: "cpus b ! me \<noteq> Outside" "cpus b ! me \<noteq> Holding"
    and w: "\<And>t k tt. cpus b ! me = Waiting t k tt \<Longrightarrow> events b ! me"
    and ch: "\<And>t k. cpus b ! me = Checking t k \<Longrightarrow> \<forall>j < max_cpus b. \<forall>u l. cpus b ! j \<noteq> Choosing u l"
  shows "\<exists>s'. contend_step (b, n) s'"
proof -
  have len: "me < length (cpus b)" using inv me by (simp add: bakery_inv_def flags_ok_def)
  have "lamport_move me b (bakery_step me b)" using bakery_step_refines [OF inv me] n by blast
  then have "(!) (cpus (bakery_step me b)) \<noteq> (!) (cpus b)"
    unfolding lamport_move_def
  proof cases
    case (spin_choosing t k u j)
    then show ?thesis using ch [of t k] by auto
  next
    case (sleep t k tt)
    have "cpus (bakery_step me b) ! me = Watching t k tt"
      using sleep(3) w len by (simp add: bakery_step_def lock_get_wfe_def)
    with sleep(3) fun_cong [of "(!) (cpus (bakery_step me b))" "(!) (cpus b)" me] show ?thesis by auto
  qed (use c in \<open>auto dest: fun_cong [of _ _ me]\<close>)
  then have "cpus (bakery_step me b) \<noteq> cpus b" by auto
  moreover have "bounded_step me (b, n) (count_step me (b, n))"
    using n me by (auto intro!: bounded_step.intros)
  ultimately show ?thesis unfolding contend_step_def using c by (metis count_step.simps fst_conv)
qed

lemma stuck_has_holder:
  assumes inv: "bakery_inv (b, n)" and n: "n < 0x7FFF" and stuck: "\<nexists>s'. contend_step (b, n) s'" and busy: "\<not> idle b"
  shows "\<exists>i < max_cpus b. cpus b ! i = Holding"
proof (rule ccontr)
  assume none: "\<not> ?thesis"
  have L: "lock_inv (max_cpus b) n (ticket b) ((!) (cpus b))" and len: "length (cpus b) = max_cpus b"
    and aw: "awake (max_cpus b) ((!) (events b)) (ticket b) ((!) (cpus b))"
    using inv by (simp_all add: bakery_inv_def flags_ok_def)
  let ?A = "{i. i < max_cpus b \<and> cpus b ! i \<noteq> Outside}"
  have nc: "cpus b ! j \<noteq> Choosing u l" "cpus b ! j \<noteq> Signalling" if "j < max_cpus b" for j u l
    using contender_moves [OF inv n that] stuck by (auto simp del: not_None_eq)
  have waiting: "\<exists>t k tt. cpus b ! i = Waiting t k tt \<and> \<not> events b ! i" if "i \<in> ?A" for i
  proof (rule ccontr)
    assume "\<not> ?thesis"
    with that none nc have "\<exists>s'. contend_step (b, n) s'" by (intro contender_moves [OF inv n, of i]) auto
    with stuck show False by simp
  qed
  obtain x where "x \<in> ?A" using busy len by (auto simp: idle_def list_all_length)
  from least_before [OF this, of "ticket b"] obtain i where i: "i \<in> ?A" and least: "\<And>j. j \<in> ?A \<Longrightarrow> \<not> before (ticket b j) j (ticket b i) i" by auto
  from waiting [OF i] obtain t k tt where k: "cpus b ! i = Waiting t k tt" "\<not> events b ! i" by blast
  then have ok: "k < max_cpus b" "0 < unat tt" "before (unat tt) k (ticket b i) i" using lock_invD(1) [OF L, of i] i by auto
  with aw i k nc(2) have tk: "ticket b k = unat tt" by (auto simp: awake_def)
  with ok have "cpus b ! k \<noteq> Outside" using lock_invD(1) [OF L, of k] by auto
  with least [of k] ok tk show False by simp
qed

text \<open>Somebody who has asked for the lock does not give up.\<close>

lemma contend_keeps_asking:
  assumes "contend_step (b, n) (b', n')" and inv: "bakery_inv (b, n)" and i: "i < max_cpus b" "cpus b ! i \<notin> {Outside, Signalling}"
  shows "cpus b' ! i \<notin> {Outside, Signalling}"
proof -
  obtain me where me: "bounded_step me (b, n) (b', n')" "cpus b ! me \<noteq> Holding"
    using assms(1) by (auto simp: contend_step_def)
  from bounded_step_lamport(1) [OF me(1) inv] show ?thesis
    unfolding lamport_move_def by cases (use me(2) i in auto)
qed

lemma contend_keeps_asking_steps:
  "(contend_step ^^ k) (b, n) (b', n') \<Longrightarrow> bakery_inv (b, n) \<Longrightarrow> i < max_cpus b \<Longrightarrow> cpus b ! i \<notin> {Outside, Signalling} \<Longrightarrow>
   cpus b' ! i \<notin> {Outside, Signalling}"
proof (induction k arbitrary: b' n')
  case (Suc k)
  then obtain b1 n1 where s: "(contend_step ^^ k) (b, n) (b1, n1)" "contend_step (b1, n1) (b', n')" by auto
  with Suc contend_bound [OF s(1)] contend_keeps_asking [OF s(2)] show ?case by auto
qed simp

text \<open>Schedules, and the execution that follows one.\<close>

fun run_schedule :: "nat list \<Rightarrow> bakery_lock \<times> nat \<Rightarrow> (bakery_lock \<times> nat) option" where
  "run_schedule [] s = Some s"
| "run_schedule (me # ms) (b, n) =
     (if me < max_cpus b \<and> snd (count_step me (b, n)) \<le> 0x7FFF then run_schedule ms (count_step me (b, n)) else None)"

lemma run_schedule_append: "run_schedule (ms @ ms') s = Option.bind (run_schedule ms s) (run_schedule ms')"
  by (induction ms s rule: run_schedule.induct) auto

lemma count_step_bounded:
  "me < max_cpus b \<Longrightarrow> snd (count_step me (b, n)) \<le> 0x7FFF \<Longrightarrow> bounded_step me (b, n) (count_step me (b, n))"
  by (auto intro: bounded_step.intros)

lemma run_schedule_steps: "run_schedule ms s = Some s' \<Longrightarrow> lock_step\<^sup>*\<^sup>* s s'"
proof (induction ms s rule: run_schedule.induct)
  case (1 s)
  then show ?case by simp
next
  case (2 me ms b n)
  then have lt: "me < max_cpus b" "snd (count_step me (b, n)) \<le> 0x7FFF" and r: "run_schedule ms (count_step me (b, n)) = Some s'"
    by (auto split: if_splits)
  have "lock_step (b, n) (count_step me (b, n))"
    unfolding lock_step_def using count_step_bounded [OF lt] by blast
  with 2(1) [OF _ r] lt show ?case by (metis converse_rtranclp_into_rtranclp)
qed

text \<open>Two processors that take the lock in turn, so that it is never free.\<close>

definition chosen_slot :: "u32 \<Rightarrow> u16" where
  "chosen_slot t = ucast (make_bakery_data CHOSEN_TICKET t)"

definition hold0 :: "u32 \<Rightarrow> bool \<Rightarrow> bool \<Rightarrow> bakery_lock" where
  "hold0 t x y = \<lparr>lock_data = [chosen_slot t, 0], cpus = [Holding, Outside], events = [x, y]\<rparr>"

definition hold1 :: "u32 \<Rightarrow> bool \<Rightarrow> bool \<Rightarrow> bakery_lock" where
  "hold1 t x y = \<lparr>lock_data = [0, chosen_slot t], cpus = [Outside, Holding], events = [x, y]\<rparr>"

lemma chosen_slot_reads:
  assumes "unat t \<le> 0x7FFF"
  shows "bakery_ticket_number (ucast (chosen_slot t)) = t" "\<not> bakery_is_choosing (ucast (chosen_slot t))"
proof -
  have "unat (ucast (chosen_slot t) :: u32) = 2 * unat t"
    using make_bakery_data_value [OF assms] assms
    by (simp add: chosen_slot_def unsigned_ucast_eq take_bit_eq_mod unat_mod_distrib)
  then show "bakery_ticket_number (ucast (chosen_slot t)) = t" "\<not> bakery_is_choosing (ucast (chosen_slot t))"
    using assms by (simp_all add: word_unat_eq_iff ticket_number_value choosing_iff_odd)
qed

lemma slot_0_1_reads:
  "bakery_ticket_number 0 = 0" "bakery_ticket_number 1 = 0" "\<not> bakery_is_choosing 0" "bakery_is_choosing 1"
  by (simp_all add: bakery_ticket_number_def bakery_is_choosing_def)

lemmas run_defs = bakery_step_def get_ticket_begin_def get_ticket_scan_def get_ticket_end_def lock_get_check_def
  lock_get_wfe_def lock_get_watch_def bakery_lock_release_def lock_release_sev_def goto_def write_slot_def read_slot_def Let_def
  choosing_data

lemmas schedule_defs = run_defs idle_def takes_ticket_def slot_0_1_reads

lemma hand_over:
  assumes "0 < unat t" and "unat t < 0x7FFF" and "n < 0x7FFF"
  shows "run_schedule [1, 1, 1, 1, 1, 0, 0, 1, 1, 1, 1] (hold0 t x y, n) = Some (hold1 (t + 1) True False, n + 1)"
    "run_schedule [0, 0, 0, 0, 0, 0, 1, 1, 0, 0, 0] (hold1 t x y, n) = Some (hold0 (t + 1) False True, n + 1)"
proof -
  have t: "t \<noteq> 0" "unat t \<le> 0x7FFF" "unat (t + 1) = Suc (unat t)" "0 < t"
    using assms by (auto simp: unat_word_ariths(1) word_less_nat_alt)
  note reads = chosen_slot_reads [OF t(2)]
  have p: "PRIORITY t 0 < PRIORITY (t + 1) 1" "PRIORITY t 1 < PRIORITY (t + 1) 0"
    using priority_less [of t 0 "t + 1" 1] priority_less [of t 1 "t + 1" 0] assms t by (simp_all add: word_less_nat_alt)
  show "run_schedule [1, 1, 1, 1, 1, 0, 0, 1, 1, 1, 1] (hold0 t x y, n) = Some (hold1 (t + 1) True False, n + 1)"
    using assms(3) by (simp add: hold0_def hold1_def schedule_defs reads p t) (simp add: chosen_slot_def)
  show "run_schedule [0, 0, 0, 0, 0, 0, 1, 1, 0, 0, 0] (hold1 t x y, n) = Some (hold0 (t + 1) False True, n + 1)"
    using assms(3) by (simp add: hold0_def hold1_def schedule_defs reads p t) (simp add: chosen_slot_def)
qed

lemma lock_free_2: "lock_free 2 = \<lparr>lock_data = [0, 0], cpus = [Outside, Outside], events = [False, False]\<rparr>"
  by (simp add: lock_free_def numeral_2_eq_2)

lemma first_ticket: "make_bakery_data CHOSEN_TICKET 1 = 2"
  by (simp add: make_bakery_data_def CHOSEN_TICKET_def)

lemma first_holder: "run_schedule [0, 0, 0, 0, 0, 0, 0] (lock_free 2, 0) = Some (hold0 1 False False, 1)"
  by (simp add: schedule_defs lock_free_2 first_ticket hold0_def chosen_slot_def)

lemma reach_ticket:
  "n \<le> 0x3FFF \<Longrightarrow> \<exists>ms x y. run_schedule ms (lock_free 2, 0) = Some (hold0 (of_nat (2 * n + 1)) x y, 2 * n + 1)"
proof (induction n)
  case 0
  have "of_nat (2 * 0 + 1) = (1 :: u32)" "2 * 0 + 1 = (1 :: nat)" by simp_all
  with first_holder show ?case by metis
next
  case (Suc n)
  then obtain ms x y where ms: "run_schedule ms (lock_free 2, 0) = Some (hold0 (of_nat (2 * n + 1)) x y, 2 * n + 1)" by auto
  let ?t = "of_nat (2 * n + 1) :: u32"
  have u1: "unat ?t = 2 * n + 1" using Suc.prems by (subst unat_of_nat) simp
  have u: "unat ?t = 2 * n + 1" "unat (?t + 1) = 2 * n + 2" using Suc.prems by (simp_all only: u1 unat_word_ariths(1)) simp
  have "run_schedule (ms @ [1, 1, 1, 1, 1, 0, 0, 1, 1, 1, 1] @ [0, 0, 0, 0, 0, 0, 1, 1, 0, 0, 0]) (lock_free 2, 0) =
      Some (hold0 (?t + 1 + 1) False True, 2 * n + 1 + 1 + 1)"
    using hand_over(1) [of ?t "2 * n + 1" x y] hand_over(2) [of "?t + 1" "2 * n + 1 + 1" True False] Suc.prems unfolding u
    by (simp only: run_schedule_append ms Option.bind.bind_lunit)
  moreover have "?t + 1 + 1 = of_nat (2 * Suc n + 1)" "2 * n + 1 + 1 + 1 = 2 * Suc n + 1" by simp_all
  ultimately show ?case by metis
qed

lemma reach_last_ticket:
  obtains ms x y where "run_schedule ms (lock_free 2, 0) = Some (hold0 0x7FFF x y, 0x7FFF)"
  using reach_ticket [of "0x3FFF"] by auto

lemma cpus_step_other: "i \<noteq> me \<Longrightarrow> cpus (bakery_step me b) ! i = cpus b ! i"
  by (simp add: run_defs split: cpu_phase.split)

lemma run_schedule_others:
  "run_schedule ms s = Some s' \<Longrightarrow> i \<notin> set ms \<Longrightarrow> cpus (fst s) ! i \<notin> {Outside, Signalling} \<Longrightarrow>
   (\<lambda>s s'. lock_step s s' \<and> cpus (fst s') ! i \<notin> {Outside, Signalling})\<^sup>*\<^sup>* s s'"
proof (induction ms s rule: run_schedule.induct)
  case (1 s)
  then show ?case by simp
next
  case (2 me ms b n)
  from 2(2) have lt: "me < max_cpus b" "snd (count_step me (b, n)) \<le> 0x7FFF" and r: "run_schedule ms (count_step me (b, n)) = Some s'"
    by (auto split: if_splits)
  have "lock_step (b, n) (count_step me (b, n))"
    unfolding lock_step_def using count_step_bounded [OF lt] by blast
  moreover have c: "cpus (fst (count_step me (b, n))) ! i \<notin> {Outside, Signalling}" using 2(3,4) cpus_step_other [of i me b] by auto
  ultimately show ?case
    using 2(1) [OF _ r _ c] lt 2(3) by (intro converse_rtranclp_into_rtranclp [of _ "(b, n)" "count_step me (b, n)"]) auto
qed

text \<open>Processor 0 is about to signal, and processor 1 sleeps until then.\<close>

definition hand0 :: bakery_lock where
  "hand0 = \<lparr>lock_data = [0, 4], cpus = [Signalling, Waiting 2 0 1], events = [False, False]\<rparr>"

lemma second_ticket:
  "bakery_ticket_number 2 = 1" "\<not> bakery_is_choosing 2" "make_bakery_data CHOSEN_TICKET 2 = 4" "PRIORITY 1 0 < PRIORITY 2 1"
  by (simp_all add: bakery_ticket_number_def bakery_is_choosing_def make_bakery_data_def CHOSEN_TICKET_def PRIORITY_def)

lemma hold0_1: "hold0 1 x y = \<lparr>lock_data = [2, 0], cpus = [Holding, Outside], events = [x, y]\<rparr>"
  by (simp add: hold0_def chosen_slot_def first_ticket)

lemma reach_hand0: "lock_step\<^sup>*\<^sup>* (lock_free 2, 0) (hand0, 2)"
proof -
  have "run_schedule [1, 1, 1, 1, 1, 0] (hold0 1 False False, 1) = Some (hand0, 2)"
    by (simp add: schedule_defs hold0_1 hand0_def second_ticket)
  with first_holder have "run_schedule ([0, 0, 0, 0, 0, 0, 0] @ [1, 1, 1, 1, 1, 0]) (lock_free 2, 0) = Some (hand0, 2)"
    by (simp only: run_schedule_append Option.bind.bind_lunit)
  then show ?thesis by (rule run_schedule_steps)
qed

lemma contend_stepI:
  "me < max_cpus b \<Longrightarrow> n \<le> 0x7FFF \<Longrightarrow> cpus b ! me \<noteq> Outside \<Longrightarrow> cpus b ! me \<noteq> Holding \<Longrightarrow> count_step me (b, n) = (b', n) \<Longrightarrow>
   cpus b' \<noteq> cpus b \<Longrightarrow> contend_step (b, n) (b', n)"
  unfolding contend_step_def by (force intro: bounded_step.intros)

text \<open>The \<open>sev\<close>, the end of the \<open>wfe\<close>, the new read and the two last rounds of the loop.\<close>

lemma hand0_contend:
  "(contend_step ^^ 5) (hand0, 2) (\<lparr>lock_data = [0, 4], cpus = [Outside, Holding], events = [True, False]\<rparr>, 2)"
proof -
  let ?s = "\<lambda>p q x y. (\<lparr>lock_data = [0, 4], cpus = [p, q], events = [x, y]\<rparr>, 2 :: nat)"
  have "contend_step (?s Signalling (Waiting 2 0 1) False False) (?s Outside (Waiting 2 0 1) True True)"
    by (rule contend_stepI [of 0]) (simp_all add: schedule_defs)
  moreover have "contend_step (?s Outside (Waiting 2 0 1) True True) (?s Outside (Watching 2 0 1) True False)"
    by (rule contend_stepI [of 1]) (simp_all add: schedule_defs)
  moreover have "contend_step (?s Outside (Watching 2 0 1) True False) (?s Outside (Checking 2 1) True False)"
    by (rule contend_stepI [of 1]) (simp_all add: schedule_defs)
  moreover have "contend_step (?s Outside (Checking 2 1) True False) (?s Outside (Checking 2 2) True False)"
    by (rule contend_stepI [of 1]) (simp_all add: schedule_defs numeral_2_eq_2)
  moreover have "contend_step (?s Outside (Checking 2 2) True False) (?s Outside Holding True False)"
    by (rule contend_stepI [of 1]) (simp_all add: schedule_defs)
  ultimately show ?thesis unfolding hand0_def by (simp add: numeral_eq_Suc) blast
qed

section \<open>Properties\<close>

text \<open>
  C3. Mutual exclusion: at most one processor holds the bakery lock at any time, whatever the
  interleaving of the memory accesses of up to 256 processors and whatever events wake them, and no
  assertion of the lock fails, in every execution that hands out at most \<open>0x7FFF\<close> tickets between two
  moments when nobody uses the lock.
\<close>

theorem bakery_mutual_exclusion:
  assumes "N \<le> 256" and "lock_step\<^sup>*\<^sup>* (lock_free N, 0) (b, n)"
  shows "(\<forall>i < N. \<forall>j < N. cpus b ! i = Holding \<and> cpus b ! j = Holding \<longrightarrow> i = j) \<and> (\<forall>i < N. cpus b ! i \<noteq> Stopped)"
proof -
  have L: "lock_inv N n (ticket b) ((!) (cpus b))" using reach_inv [OF assms] by (auto simp: bakery_inv_def)
  then show ?thesis using inv_mutex [OF L] lock_invD(1) [OF L] by (metis cpu_ok.simps(8))
qed

theorem bakery_mutual_exclusion_witness:
  "\<exists>b n. lock_step\<^sup>*\<^sup>* (lock_free 2, 0) (b, n) \<and> cpus b ! 0 = Holding \<and> cpus b ! 1 \<noteq> Holding"
proof -
  note r = run_schedule_steps [OF first_holder]
  from bakery_mutual_exclusion [OF _ r] have "cpus (hold0 1 False False) ! 1 \<noteq> Holding" by (force simp: hold0_1)
  with r show ?thesis by (intro exI conjI) (auto simp: hold0_1)
qed

text \<open>
  C21. First come, first served: a processor that starts to ask for the bakery lock when another one
  already has its ticket does not get the lock before the other one has released it.
\<close>

theorem bakery_first_come_first_served:
  assumes "N \<le> 256" and "lock_step\<^sup>*\<^sup>* (lock_free N, 0) (b, n)" and "i < N" and "j < N"
    and "ticket b i \<noteq> 0" and "cpus b ! j = Outside"
    and "(\<lambda>s s'. lock_step s s' \<and> cpus (fst s') ! i \<notin> {Outside, Signalling})\<^sup>*\<^sup>* (b, n) (b', n')"
  shows "cpus b' ! j \<noteq> Holding"
proof -
  have inv: "bakery_inv (b, n)" and N: "max_cpus b = N" using reach_inv [OF assms(1,2)] by auto
  then have L: "lock_inv N n (ticket b) ((!) (cpus b))" by (simp add: bakery_inv_def)
  have Tj: "ticket b j = 0" using lock_invD(1) [OF L assms(4)] assms(6) by simp
  then have ij: "i \<noteq> j" using assms(5) by auto
  have "bakery_inv (b', n') \<and> max_cpus b' = N \<and> ticket b' i \<noteq> 0 \<and> behind (ticket b') ((!) (cpus b')) i j"
    using assms(7)
  proof (induction "(b', n')" arbitrary: b' n' rule: rtranclp_induct)
    case base
    then show ?case using inv N assms(5,6) Tj by (simp add: behind_def)
  next
    case (step y)
    obtain b1 n1 where y: "y = (b1, n1)" by (cases y)
    with step have ih: "bakery_inv (b1, n1)" "max_cpus b1 = N" "ticket b1 i \<noteq> 0" "behind (ticket b1) ((!) (cpus b1)) i j"
      by auto
    from step(2) y have "lock_step (b1, n1) (b', n')" "cpus b' ! i \<notin> {Outside, Signalling}" by auto
    then show ?case
      using keeps_behind [OF _ ih(1) _ _ ij ih(3) _ ih(4)] ih(2) assms(3,4) by auto
  qed
  then have L': "lock_inv N n' (ticket b') ((!) (cpus b'))" "ticket b' i \<noteq> 0" "behind (ticket b') ((!) (cpus b')) i j"
    by (auto simp: bakery_inv_def)
  show ?thesis
  proof
    assume h: "cpus b' ! j = Holding"
    with L' ij assms(3,4) have "behind (ticket b') ((!) (cpus b')) j i" by (simp add: lock_invD(3))
    moreover have "ticket b' j \<noteq> 0" using lock_invD(1) [OF L'(1) assms(4)] h by simp
    ultimately show False using L'(2,3) by (auto simp: behind_def dest: before_asym)
  qed
qed

theorem bakery_first_come_first_served_witness:
  "run_schedule [1, 1, 1, 1, 1] (hold0 1 False False, 1) =
     Some (\<lparr>lock_data = [2, 4], cpus = [Holding, Waiting 2 0 1], events = [False, False]\<rparr>, 2) \<and>
   cpus \<lparr>lock_data = [2, 4], cpus = [Holding, Waiting 2 0 1], events = [False, False]\<rparr> ! 1 \<noteq> Holding"
proof -
  have s: "run_schedule [1, 1, 1, 1, 1] (hold0 1 False False, 1) =
      Some (\<lparr>lock_data = [2, 4], cpus = [Holding, Waiting 2 0 1], events = [False, False]\<rparr>, 2)"
    by (simp add: schedule_defs hold0_1 second_ticket)
  have t: "ticket (hold0 1 False False) 0 \<noteq> 0" by (simp add: ticket_def read_slot_def hold0_1 second_ticket)
  from bakery_first_come_first_served [OF _ run_schedule_steps [OF first_holder] _ _ t _ run_schedule_others [OF s], of 1] s
  show ?thesis by (simp add: hold0_1)
qed

text \<open>
  C20. Progress: from a state in which a processor asks for the bakery lock or holds it, every sequence
  of steps of contenders and of releasing processors has at most \<open>N (5 N + 5)\<close> steps, not counting
  repeated reads of a choosing processor and sleep at \<open>wfe\<close>; and when no such step is left, a processor
  holds the lock: the \<open>sev\<close> of the release wakes whoever waits, without the help of any other event.
  The bound on the tickets is that of the mutual exclusion, with one ticket to spare at the end.
\<close>

theorem bakery_progress:
  assumes "N \<le> 256" and "lock_step\<^sup>*\<^sup>* (lock_free N, 0) (b, n)"
    and "i < N" and "cpus b ! i \<notin> {Outside, Signalling}" and "(contend_step ^^ k) (b, n) (b', n')"
  shows "k \<le> N * (5 * N + 5) \<and>
    (n' < 0x7FFF \<and> (\<nexists>s'. contend_step (b', n') s') \<longrightarrow> (\<exists>i < N. cpus b' ! i = Holding))"
proof -
  have inv: "bakery_inv (b, n)" and N: "max_cpus b = N" using reach_inv [OF assms(1,2)] by auto
  note c = contend_bound [OF assms(5) inv]
  have "k \<le> lock_work b" using c by linarith
  then have "k \<le> N * (5 * N + 5)" using total_work_bound le_trans unfolding N by blast
  moreover have "\<not> idle b'"
    using contend_keeps_asking_steps [OF assms(5) inv _ assms(4)] c N assms(3)
    by (auto simp: idle_def list_all_length bakery_inv_def flags_ok_def)
  moreover have "bakery_inv (b', n')" "max_cpus b' = N" using c N by simp_all
  ultimately show ?thesis using stuck_has_holder [of b' n'] by blast
qed

theorem bakery_progress_witness:
  "\<exists>b n b' n'. lock_step\<^sup>*\<^sup>* (lock_free 2, 0) (b, n) \<and> cpus b = [Signalling, Waiting 2 0 1] \<and>
     (contend_step ^^ 5) (b, n) (b', n') \<and> (\<nexists>s'. contend_step (b', n') s') \<and> (\<exists>i < 2. cpus b' ! i = Holding) \<and>
     \<not> (contend_step ^^ 31) (b, n) (b', n')"
proof -
  let ?b = "\<lparr>lock_data = [0, 4], cpus = [Outside, Holding], events = [True, False]\<rparr>"
  have a: "cpus hand0 ! 1 \<notin> {Outside, Signalling}" by (simp add: hand0_def)
  have st: "\<nexists>s'. contend_step (?b, 2) s'"
    by (auto simp: contend_step_def less_Suc_eq elim!: bounded_step.cases)
  have "\<exists>i < 2. cpus ?b ! i = Holding"
    using bakery_progress [OF _ reach_hand0 _ a hand0_contend] st by simp
  moreover have "\<not> (contend_step ^^ 31) (hand0, 2) (?b, 2)"
    using bakery_progress [OF _ reach_hand0 _ a, of 31 ?b 2] by auto
  moreover have "cpus hand0 = [Signalling, Waiting 2 0 1]" by (simp add: hand0_def)
  ultimately show ?thesis using reach_hand0 hand0_contend st by blast
qed

text \<open>
  C39. The 15 bits of a ticket are not enough when two processors keep taking the lock in turn: an
  execution within the bound of the mutual exclusion hands out \<open>0x7FFF\<close> tickets, processor 0 holding
  the lock with the last one, while processor 1 has finished choosing; the ticket \<open>0x8000\<close> that
  processor 1 takes next is stored as 0, which reads as not contending, and the execution goes on to a
  state in which both processors hold the lock.
\<close>

theorem bakery_ticket_wraps:
  "\<exists>ms b. run_schedule ms (lock_free 2, 0) = Some (b, 0x7FFF) \<and>
     cpus b ! 0 = Holding \<and> ticket b 0 = 0x7FFF \<and> cpus b ! 1 = Choosing 0x7FFF 2 \<and>
     cpus (bakery_step 1 b) ! 1 = Checking 0x8000 0 \<and> lock_data (bakery_step 1 b) ! 1 = 0 \<and>
     (\<exists>ms'. set ms' \<subseteq> {0, 1} \<and> cpus (fold bakery_step ms' (bakery_step 1 b)) = [Holding, Holding])"
proof -
  obtain ms x y where ms: "run_schedule ms (lock_free 2, 0) = Some (hold0 0x7FFF x y, 0x7FFF)" by (rule reach_last_ticket)
  let ?b = "\<lparr>lock_data = [0xFFFE, 1], cpus = [Holding, Choosing 0x7FFF 2], events = [x, y]\<rparr>"
  let ?ms = "[1, 0, 0, 1, 1, 1, 1, 0, 0, 0, 0, 0, 0, 0] :: nat list"
  have "fold bakery_step [1, 1, 1] (hold0 0x7FFF x y) = ?b" by (cases x; cases y) code_simp+
  moreover have "run_schedule [1, 1, 1] (hold0 0x7FFF x y, 0x7FFF) = Some (fold bakery_step [1, 1, 1] (hold0 0x7FFF x y), 0x7FFF)"
    by (simp add: schedule_defs hold0_def)
  ultimately have "run_schedule [1, 1, 1] (hold0 0x7FFF x y, 0x7FFF) = Some (?b, 0x7FFF)" by simp
  with ms have "run_schedule (ms @ [1, 1, 1]) (lock_free 2, 0) = Some (?b, 0x7FFF)"
    by (simp only: run_schedule_append Option.bind.bind_lunit)
  moreover have "ticket ?b 0 = 0x7FFF" by (simp add: ticket_def read_slot_def bakery_ticket_number_def)
  moreover have "cpus (bakery_step 1 ?b) ! 1 = Checking 0x8000 0" "lock_data (bakery_step 1 ?b) ! 1 = 0"
    by (cases x; cases y; code_simp)+
  moreover have "cpus (fold bakery_step ?ms (bakery_step 1 ?b)) = [Holding, Holding]" by (cases x; cases y) code_simp+
  then have "\<exists>ms'. set ms' \<subseteq> {0, 1} \<and> cpus (fold bakery_step ms' (bakery_step 1 ?b)) = [Holding, Holding]"
    by (intro exI [of _ ?ms] conjI) simp
  ultimately show ?thesis by - (rule exI [of _ "ms @ [1, 1, 1]"], rule exI [of _ ?b], simp)
qed

end
