(* ===== verification/Psci.thy ===== *)
theory Psci
  imports Context_Mgmt
begin

text \<open>
  The power state coordination library of the EL3 firmware (\<open>lib/psci/\<close>): the tree of power domains
  and its setup (\<open>psci_setup.c\<close>), requested and target states, locks, entry points and the warm boot
  entry (\<open>psci_common.c\<close>), turning processors on and off and suspending them (\<open>psci_on.c\<close>,
  \<open>psci_off.c\<close>, \<open>psci_suspend.c\<close>), and the calls of the normal world (\<open>psci_main.c\<close>). Memory is
  coherent, so cache maintenance has no effect; the statistics, a build option, are off. An operation
  runs as one step from the moment it holds its locks. Assertions and panics give \<open>None\<close>.
\<close>

section \<open>Types and constants\<close>

definition PSCI_E_SUCCESS :: int where "PSCI_E_SUCCESS = 0"
definition PSCI_E_NOT_SUPPORTED :: int where "PSCI_E_NOT_SUPPORTED = - 1"
definition PSCI_E_INVALID_PARAMS :: int where "PSCI_E_INVALID_PARAMS = - 2"
definition PSCI_E_DENIED :: int where "PSCI_E_DENIED = - 3"
definition PSCI_E_ALREADY_ON :: int where "PSCI_E_ALREADY_ON = - 4"
definition PSCI_E_ON_PENDING :: int where "PSCI_E_ON_PENDING = - 5"
definition PSCI_E_INTERN_FAIL :: int where "PSCI_E_INTERN_FAIL = - 6"
definition PSCI_E_NOT_PRESENT :: int where "PSCI_E_NOT_PRESENT = - 7"
definition PSCI_E_INVALID_ADDRESS :: int where "PSCI_E_INVALID_ADDRESS = - 9"

lemmas psci_errors = PSCI_E_SUCCESS_def PSCI_E_NOT_SUPPORTED_def PSCI_E_INVALID_PARAMS_def PSCI_E_DENIED_def
  PSCI_E_ALREADY_ON_def PSCI_E_ON_PENDING_def PSCI_E_INTERN_FAIL_def PSCI_E_NOT_PRESENT_def PSCI_E_INVALID_ADDRESS_def

definition PSCI_INVALID_MPIDR :: u64 where "PSCI_INVALID_MPIDR = NOT 0"
definition PSCI_LOCAL_STATE_RUN :: u8 where "PSCI_LOCAL_STATE_RUN = 0"
definition MPIDR_AFFINITY_MASK :: u64 where "MPIDR_AFFINITY_MASK = 0xff00ffffff"

datatype aff_info_state = AFF_STATE_ON | AFF_STATE_OFF | AFF_STATE_ON_PENDING

text \<open>The constants of \<open>platform_def.h\<close>.\<close>

record psci_config =
  PLAT_MAX_PWR_LVL :: nat
  PLATFORM_CORE_COUNT :: nat
  PSCI_NUM_NON_CPU_PWR_DOMAINS :: nat
  PLAT_MAX_RET_STATE :: u8
  PLAT_MAX_OFF_STATE :: u8

definition PSCI_INVALID_PWR_LVL :: "psci_config \<Rightarrow> nat" where
  "PSCI_INVALID_PWR_LVL K = PLAT_MAX_PWR_LVL K + 1"

definition is_local_state_run :: "u8 \<Rightarrow> bool" where
  "is_local_state_run st \<longleftrightarrow> st = PSCI_LOCAL_STATE_RUN"

definition is_local_state_retn :: "psci_config \<Rightarrow> u8 \<Rightarrow> bool" where
  "is_local_state_retn K st \<longleftrightarrow> st > PSCI_LOCAL_STATE_RUN \<and> st \<le> PLAT_MAX_RET_STATE K"

definition is_local_state_off :: "psci_config \<Rightarrow> u8 \<Rightarrow> bool" where
  "is_local_state_off K st \<longleftrightarrow> st > PLAT_MAX_RET_STATE K \<and> st \<le> PLAT_MAX_OFF_STATE K"

text \<open>The three types of local states, ordered by depth.\<close>

definition find_local_state_type :: "psci_config \<Rightarrow> u8 \<Rightarrow> nat" where
  "find_local_state_type K st = (if st \<noteq> 0 then (if st > PLAT_MAX_RET_STATE K then 2 else 1) else 0)"

record non_cpu_pd_node =
  cpu_start_idx :: u32
  ncpus :: u32
  nc_parent_node :: u32
  nc_local_state :: u8
  level :: u8
  lock_index :: u8

record cpu_pd_node =
  mpidr :: u64
  parent_node :: u32

record psci_cpu_data =
  aff_info_state :: aff_info_state
  target_pwrlvl :: u8
  local_state :: u8

text \<open>
  The data of the library: the requested states (a row per level from 1 on, a column per processor),
  the two arrays of power domains, the per-processor data, the processors with their non-secure
  contexts, the holders of the locks of the domains, and the capabilities.
\<close>

record psci_state =
  req_states :: "u8 list list"
  non_cpu_nodes :: "non_cpu_pd_node list"
  cpu_nodes :: "cpu_pd_node list"
  cpu_data :: "psci_cpu_data list"
  cpu_regs :: "cpu_state list"
  lock_holder :: "nat option list"
  psci_caps :: u32

text \<open>
  What the platform and a secure payload dispatcher provide: the results of the hooks that return
  something to the library; a hook that is \<open>NULL\<close> is \<open>None\<close>, and a hook that stops the firmware
  returns \<open>None\<close>. The other hooks act on hardware that the library does not see.
\<close>

record plat_psci_ops =
  cpu_standby :: "(u8 \<Rightarrow> unit option) option"
  pwr_domain_on :: "(u64 \<Rightarrow> int) option"
  pwr_domain_on_finish :: "unit option"
  pwr_domain_off :: "unit option"
  pwr_domain_suspend :: "unit option"
  pwr_domain_suspend_finish :: "unit option"
  system_off :: "unit option option"
  system_reset :: "unit option option"
  validate_power_state :: "(u32 \<Rightarrow> u8 list \<Rightarrow> (int \<times> u8 list) option) option"
  validate_ns_entrypoint :: "(u64 \<Rightarrow> int) option"
  get_sys_suspend_power_state :: "(u8 list \<Rightarrow> u8 list) option"
  get_node_hw_state :: "(u64 \<Rightarrow> u32 \<Rightarrow> int) option"
  plat_core_pos_by_mpidr :: "u64 \<Rightarrow> int"
  scr_routing_model :: u32

record spd_pm_ops =
  svc_off :: "int option"
  svc_suspend :: "unit option"
  svc_suspend_finish :: "unit option"
  svc_migrate :: "(u64 \<Rightarrow> u64 \<Rightarrow> int) option"
  svc_migrate_info :: "(int \<times> u64) option"

section \<open>Per-processor data and nodes\<close>

definition psci_set_aff_info_state_by_idx :: "nat \<Rightarrow> aff_info_state \<Rightarrow> psci_state \<Rightarrow> psci_state" where
  "psci_set_aff_info_state_by_idx i a s = s\<lparr>cpu_data := (cpu_data s)[i := (cpu_data s ! i)\<lparr>aff_info_state := a\<rparr>]\<rparr>"

definition psci_set_cpu_local_state :: "nat \<Rightarrow> u8 \<Rightarrow> psci_state \<Rightarrow> psci_state" where
  "psci_set_cpu_local_state i st s = s\<lparr>cpu_data := (cpu_data s)[i := (cpu_data s ! i)\<lparr>local_state := st\<rparr>]\<rparr>"

definition psci_set_suspend_pwrlvl :: "nat \<Rightarrow> nat \<Rightarrow> psci_state \<Rightarrow> psci_state" where
  "psci_set_suspend_pwrlvl i l s = s\<lparr>cpu_data := (cpu_data s)[i := (cpu_data s ! i)\<lparr>target_pwrlvl := of_nat l\<rparr>]\<rparr>"

definition set_node_state :: "nat \<Rightarrow> u8 \<Rightarrow> psci_state \<Rightarrow> psci_state" where
  "set_node_state i st s = s\<lparr>non_cpu_nodes := (non_cpu_nodes s)[i := (non_cpu_nodes s ! i)\<lparr>nc_local_state := st\<rparr>]\<rparr>"

section \<open>Requested and target states\<close>

definition psci_set_req_local_pwr_state :: "nat \<Rightarrow> nat \<Rightarrow> u8 \<Rightarrow> psci_state \<Rightarrow> psci_state option" where
  "psci_set_req_local_pwr_state pwrlvl cpu_idx st s =
     do { assert_c (pwrlvl > 0);
          row \<leftarrow> nth_opt (req_states s) (pwrlvl - 1);
          assert_c (cpu_idx < length row);
          Some (s\<lparr>req_states := (req_states s)[pwrlvl - 1 := row[cpu_idx := st]]\<rparr>) }"

definition psci_init_req_local_pwr_states :: "psci_config \<Rightarrow> psci_state \<Rightarrow> psci_state" where
  "psci_init_req_local_pwr_states K s =
     s\<lparr>req_states := replicate (PLAT_MAX_PWR_LVL K + 1) (replicate (PLATFORM_CORE_COUNT K) (PLAT_MAX_OFF_STATE K))\<rparr>"

text \<open>The states that the processors from \<open>cpu_idx\<close> on request at a level; the caller reads the first \<open>n\<close>.\<close>

definition psci_get_req_local_pwr_states :: "nat \<Rightarrow> nat \<Rightarrow> nat \<Rightarrow> psci_state \<Rightarrow> u8 list option" where
  "psci_get_req_local_pwr_states pwrlvl cpu_idx n s =
     do { assert_c (pwrlvl > 0);
          row \<leftarrow> nth_opt (req_states s) (pwrlvl - 1);
          assert_c (cpu_idx + n \<le> length row);
          Some (take n (drop cpu_idx row)) }"

fun target_min :: "u8 \<Rightarrow> u8 list \<Rightarrow> u8" where
  "target_min target [] = target"
| "target_min target (temp # states) = target_min (if temp < target then temp else target) states"

definition plat_get_target_pwr_state :: "psci_config \<Rightarrow> u8 list \<Rightarrow> u8 option" where
  "plat_get_target_pwr_state K states =
     do { assert_c (states \<noteq> []);
          Some (target_min (PLAT_MAX_OFF_STATE K) states) }"

fun get_target_loop :: "non_cpu_pd_node list \<Rightarrow> nat list \<Rightarrow> u32 \<Rightarrow> u8 list \<Rightarrow> u8 list option" where
  "get_target_loop nodes [] parent_idx pd_state = Some pd_state"
| "get_target_loop nodes (lvl # lvls) parent_idx pd_state =
     do { n \<leftarrow> nth_opt nodes (unat parent_idx);
          get_target_loop nodes lvls (nc_parent_node n) (pd_state[lvl := nc_local_state n]) }"

definition psci_get_target_local_pwr_states :: "psci_config \<Rightarrow> nat \<Rightarrow> nat \<Rightarrow> psci_state \<Rightarrow> u8 list option" where
  "psci_get_target_local_pwr_states K cpu_idx end_pwrlvl s =
     do { d \<leftarrow> nth_opt (cpu_data s) cpu_idx;
          c \<leftarrow> nth_opt (cpu_nodes s) cpu_idx;
          get_target_loop (non_cpu_nodes s) [1..<end_pwrlvl + 1] (parent_node c)
            (local_state d # replicate (PLAT_MAX_PWR_LVL K) PSCI_LOCAL_STATE_RUN) }"

fun set_target_loop :: "nat list \<Rightarrow> u32 \<Rightarrow> u8 list \<Rightarrow> psci_state \<Rightarrow> psci_state option" where
  "set_target_loop [] parent_idx pd_state s = Some s"
| "set_target_loop (lvl # lvls) parent_idx pd_state s =
     do { n \<leftarrow> nth_opt (non_cpu_nodes s) (unat parent_idx);
          st \<leftarrow> nth_opt pd_state lvl;
          set_target_loop lvls (nc_parent_node n) pd_state (set_node_state (unat parent_idx) st s) }"

definition psci_set_target_local_pwr_states :: "nat \<Rightarrow> nat \<Rightarrow> u8 list \<Rightarrow> psci_state \<Rightarrow> psci_state option" where
  "psci_set_target_local_pwr_states cpu_idx end_pwrlvl pd_state s =
     do { _ \<leftarrow> nth_opt (cpu_data s) cpu_idx;
          st \<leftarrow> nth_opt pd_state 0;
          c \<leftarrow> nth_opt (cpu_nodes s) cpu_idx;
          set_target_loop [1..<end_pwrlvl + 1] (parent_node c) pd_state (psci_set_cpu_local_state cpu_idx st s) }"

fun parent_nodes_loop :: "non_cpu_pd_node list \<Rightarrow> nat \<Rightarrow> u32 \<Rightarrow> nat list option" where
  "parent_nodes_loop nodes 0 p = Some []"
| "parent_nodes_loop nodes (Suc n) p =
     do { d \<leftarrow> nth_opt nodes (unat p);
          ps \<leftarrow> parent_nodes_loop nodes n (nc_parent_node d);
          Some (unat p # ps) }"

definition psci_get_parent_pwr_domain_nodes :: "nat \<Rightarrow> nat \<Rightarrow> psci_state \<Rightarrow> nat list option" where
  "psci_get_parent_pwr_domain_nodes cpu_idx end_lvl s =
     do { c \<leftarrow> nth_opt (cpu_nodes s) cpu_idx;
          parent_nodes_loop (non_cpu_nodes s) end_lvl (parent_node c) }"

fun to_run_loop :: "nat list \<Rightarrow> u32 \<Rightarrow> nat \<Rightarrow> psci_state \<Rightarrow> psci_state option" where
  "to_run_loop [] parent_idx cpu_idx s = Some s"
| "to_run_loop (lvl # lvls) parent_idx cpu_idx s =
     do { n \<leftarrow> nth_opt (non_cpu_nodes s) (unat parent_idx);
          s \<leftarrow> psci_set_req_local_pwr_state lvl cpu_idx PSCI_LOCAL_STATE_RUN
                 (set_node_state (unat parent_idx) PSCI_LOCAL_STATE_RUN s);
          to_run_loop lvls (nc_parent_node n) cpu_idx s }"

definition psci_set_pwr_domains_to_run :: "nat \<Rightarrow> nat \<Rightarrow> psci_state \<Rightarrow> psci_state option" where
  "psci_set_pwr_domains_to_run cpu_idx end_pwrlvl s =
     do { c \<leftarrow> nth_opt (cpu_nodes s) cpu_idx;
          s \<leftarrow> to_run_loop [1..<end_pwrlvl + 1] (parent_node c) cpu_idx s;
          assert_c (cpu_idx < length (cpu_data s));
          Some (psci_set_cpu_local_state cpu_idx PSCI_LOCAL_STATE_RUN
                  (psci_set_aff_info_state_by_idx cpu_idx AFF_STATE_ON s)) }"

text \<open>The two loops of the coordination: until a level is to run, and from there on.\<close>

fun coord_rest_loop :: "nat list \<Rightarrow> nat \<Rightarrow> u8 list \<Rightarrow> psci_state \<Rightarrow> (u8 list \<times> psci_state) option" where
  "coord_rest_loop [] cpu_idx pd_state s = Some (pd_state, s)"
| "coord_rest_loop (lvl # lvls) cpu_idx pd_state s =
     do { st \<leftarrow> nth_opt pd_state lvl;
          s \<leftarrow> psci_set_req_local_pwr_state lvl cpu_idx st s;
          coord_rest_loop lvls cpu_idx (pd_state[lvl := PSCI_LOCAL_STATE_RUN]) s }"

fun coord_loop ::
  "psci_config \<Rightarrow> nat list \<Rightarrow> u32 \<Rightarrow> nat \<Rightarrow> u8 list \<Rightarrow> psci_state \<Rightarrow> (u8 list \<times> psci_state) option"
where
  "coord_loop K [] parent_idx cpu_idx pd_state s = Some (pd_state, s)"
| "coord_loop K (lvl # lvls) parent_idx cpu_idx pd_state s =
     do { st \<leftarrow> nth_opt pd_state lvl;
          s \<leftarrow> psci_set_req_local_pwr_state lvl cpu_idx st s;
          n \<leftarrow> nth_opt (non_cpu_nodes s) (unat parent_idx);
          reqs \<leftarrow> psci_get_req_local_pwr_states lvl (unat (cpu_start_idx n)) (unat (ncpus n)) s;
          target_state \<leftarrow> plat_get_target_pwr_state K reqs;
          let pd_state = pd_state[lvl := target_state];
          if is_local_state_run target_state then coord_rest_loop lvls cpu_idx pd_state s
          else coord_loop K lvls (nc_parent_node n) cpu_idx pd_state s }"

definition psci_do_state_coordination ::
  "psci_config \<Rightarrow> nat \<Rightarrow> nat \<Rightarrow> u8 list \<Rightarrow> psci_state \<Rightarrow> (u8 list \<times> psci_state) option"
where
  "psci_do_state_coordination K cpu_idx end_pwrlvl pd_state s =
     do { assert_c (end_pwrlvl \<le> PLAT_MAX_PWR_LVL K);
          c \<leftarrow> nth_opt (cpu_nodes s) cpu_idx;
          (pd_state, s) \<leftarrow> coord_loop K [1..<end_pwrlvl + 1] (parent_node c) cpu_idx pd_state s;
          s \<leftarrow> psci_set_target_local_pwr_states cpu_idx end_pwrlvl pd_state s;
          Some (pd_state, s) }"

section \<open>Validation\<close>

text \<open>The searches from the highest level down, for the \<open>n\<close> lowest levels.\<close>

fun find_level_down :: "(u8 \<Rightarrow> bool) \<Rightarrow> u8 list \<Rightarrow> nat \<Rightarrow> nat \<Rightarrow> nat" where
  "find_level_down P pd_state none 0 = none"
| "find_level_down P pd_state none (Suc i) = (if P (pd_state ! i) then i else find_level_down P pd_state none i)"

definition psci_find_max_off_lvl :: "psci_config \<Rightarrow> u8 list \<Rightarrow> nat" where
  "psci_find_max_off_lvl K pd_state =
     find_level_down (is_local_state_off K) pd_state (PSCI_INVALID_PWR_LVL K) (PLAT_MAX_PWR_LVL K + 1)"

definition psci_find_target_suspend_lvl :: "psci_config \<Rightarrow> u8 list \<Rightarrow> nat" where
  "psci_find_target_suspend_lvl K pd_state =
     find_level_down (\<lambda>st. \<not> is_local_state_run st) pd_state (PSCI_INVALID_PWR_LVL K) (PLAT_MAX_PWR_LVL K + 1)"

fun depth_loop :: "psci_config \<Rightarrow> u8 list \<Rightarrow> nat \<Rightarrow> nat \<Rightarrow> bool" where
  "depth_loop K pd_state deepest 0 = True"
| "depth_loop K pd_state deepest (Suc i) =
     (let req_state_type = find_local_state_type K (pd_state ! i)
      in if req_state_type < deepest then False else depth_loop K pd_state req_state_type i)"

definition psci_validate_suspend_req :: "psci_config \<Rightarrow> u8 list \<Rightarrow> bool \<Rightarrow> int" where
  "psci_validate_suspend_req K pd_state is_power_down_state =
     (let target_lvl = psci_find_target_suspend_lvl K pd_state
      in if target_lvl = PSCI_INVALID_PWR_LVL K then PSCI_E_INVALID_PARAMS
         else if \<not> depth_loop K pd_state 0 (target_lvl + 1) then PSCI_E_INVALID_PARAMS
         else
           let max_off_lvl = psci_find_max_off_lvl K pd_state;
               max_retn_lvl = (if target_lvl \<noteq> max_off_lvl then target_lvl else PSCI_INVALID_PWR_LVL K)
           in if \<not> is_power_down_state \<and> (max_off_lvl \<noteq> PSCI_INVALID_PWR_LVL K \<or> max_retn_lvl = PSCI_INVALID_PWR_LVL K)
              then PSCI_E_INVALID_PARAMS else PSCI_E_SUCCESS)"

section \<open>Locks of the power domains\<close>

text \<open>
  The lock of a domain is taken when it is free. A processor that finds it taken waits; the model of
  an operation starts when it gets the locks, so a lock that is held has no result here.
\<close>

definition psci_lock_get :: "nat \<Rightarrow> nat \<Rightarrow> psci_state \<Rightarrow> psci_state option" where
  "psci_lock_get node cpu_idx s =
     do { n \<leftarrow> nth_opt (non_cpu_nodes s) node;
          h \<leftarrow> nth_opt (lock_holder s) (unat (lock_index n));
          assert_c (h = None);
          Some (s\<lparr>lock_holder := (lock_holder s)[unat (lock_index n) := Some cpu_idx]\<rparr>) }"

definition psci_lock_release :: "nat \<Rightarrow> nat \<Rightarrow> psci_state \<Rightarrow> psci_state option" where
  "psci_lock_release node cpu_idx s =
     do { n \<leftarrow> nth_opt (non_cpu_nodes s) node;
          h \<leftarrow> nth_opt (lock_holder s) (unat (lock_index n));
          assert_c (h = Some cpu_idx);
          Some (s\<lparr>lock_holder := (lock_holder s)[unat (lock_index n) := None]\<rparr>) }"

fun acquire_loop :: "nat \<Rightarrow> u32 \<Rightarrow> nat \<Rightarrow> psci_state \<Rightarrow> psci_state option" where
  "acquire_loop 0 parent_idx cpu_idx s = Some s"
| "acquire_loop (Suc n) parent_idx cpu_idx s =
     do { d \<leftarrow> nth_opt (non_cpu_nodes s) (unat parent_idx);
          s \<leftarrow> psci_lock_get (unat parent_idx) cpu_idx s;
          acquire_loop n (nc_parent_node d) cpu_idx s }"

definition psci_acquire_pwr_domain_locks :: "nat \<Rightarrow> nat \<Rightarrow> psci_state \<Rightarrow> psci_state option" where
  "psci_acquire_pwr_domain_locks end_pwrlvl cpu_idx s =
     do { c \<leftarrow> nth_opt (cpu_nodes s) cpu_idx;
          acquire_loop end_pwrlvl (parent_node c) cpu_idx s }"

fun release_loop :: "nat list \<Rightarrow> nat \<Rightarrow> psci_state \<Rightarrow> psci_state option" where
  "release_loop [] cpu_idx s = Some s"
| "release_loop (p # ps) cpu_idx s =
     do { s \<leftarrow> psci_lock_release p cpu_idx s;
          release_loop ps cpu_idx s }"

definition psci_release_pwr_domain_locks :: "nat \<Rightarrow> nat \<Rightarrow> psci_state \<Rightarrow> psci_state option" where
  "psci_release_pwr_domain_locks end_pwrlvl cpu_idx s =
     do { parent_nodes \<leftarrow> psci_get_parent_pwr_domain_nodes cpu_idx end_pwrlvl s;
          release_loop (rev parent_nodes) cpu_idx s }"

section \<open>Entry points\<close>

definition MODE32_svc :: u32 where [cm_consts]: "MODE32_svc = 3"
definition EP_EE_BIG :: u32 where [cm_consts]: "EP_EE_BIG = 2"
definition EP_ST_DISABLE :: u32 where [cm_consts]: "EP_ST_DISABLE = 0"

definition SPSR_MODE32 :: "u32 \<Rightarrow> u32 \<Rightarrow> u32 \<Rightarrow> u32 \<Rightarrow> u32" where
  "SPSR_MODE32 mode isa endian aif =
     push_bit 4 1 OR (mode AND 0xf) OR push_bit 5 (isa AND 1) OR push_bit 9 (endian AND 1) OR push_bit 6 (aif AND 7)"

definition psci_get_ns_ep_info :: "cpu_state \<Rightarrow> u64 \<Rightarrow> u64 \<Rightarrow> int + entry_point_info" where
  "psci_get_ns_ep_info c entrypoint context_id =
     (let ns_scr_el3 = cpu_scr_el3 c;
          sctlr = (if ns_scr_el3 AND SCR_HCE_BIT \<noteq> 0 then r_sctlr_el2 (cpu_el2 c) else cpu_el1 c CTX_SCTLR_EL1);
          ee = (if sctlr AND SCTLR_EE_BIT \<noteq> 0 then 1 else 0);
          attr = (NON_SECURE OR EP_ST_DISABLE) OR (if sctlr AND SCTLR_EE_BIT \<noteq> 0 then EP_EE_BIG else 0);
          ep = (\<lambda>spsr. \<lparr>ep_attr = attr, ep_pc = entrypoint, ep_spsr = spsr, ep_args = context_id # replicate 7 0\<rparr>)
      in if ns_scr_el3 AND SCR_RW_BIT \<noteq> 0 then
           (if entrypoint AND 1 \<noteq> 0 then Inl PSCI_E_INVALID_ADDRESS
            else Inr (ep (SPSR_64 (if ns_scr_el3 AND SCR_HCE_BIT \<noteq> 0 then MODE_EL2 else MODE_EL1)
                            MODE_SP_ELX DISABLE_ALL_EXCEPTIONS)))
         else Inr (ep (SPSR_MODE32 (if ns_scr_el3 AND SCR_HCE_BIT \<noteq> 0 then MODE32_hyp else MODE32_svc)
                         (ucast (entrypoint AND 1)) ee 7)))"

definition psci_validate_entry_point ::
  "plat_psci_ops \<Rightarrow> nat \<Rightarrow> u64 \<Rightarrow> u64 \<Rightarrow> psci_state \<Rightarrow> (int + entry_point_info) option"
where
  "psci_validate_entry_point ops cpu_idx entrypoint context_id s =
     do { c \<leftarrow> nth_opt (cpu_regs s) cpu_idx;
          (case validate_ns_entrypoint ops of
             Some f \<Rightarrow> if f entrypoint \<noteq> PSCI_E_SUCCESS then Some (Inl PSCI_E_INVALID_ADDRESS)
                       else Some (psci_get_ns_ep_info c entrypoint context_id)
           | None \<Rightarrow> Some (psci_get_ns_ep_info c entrypoint context_id)) }"

definition psci_validate_mpidr :: "plat_psci_ops \<Rightarrow> u64 \<Rightarrow> int" where
  "psci_validate_mpidr ops target =
     (if plat_core_pos_by_mpidr ops target < 0 then PSCI_E_INVALID_PARAMS else PSCI_E_SUCCESS)"

text \<open>The non-secure context of a processor, set up by the processor \<open>my\<close>, whose SCR it starts from.\<close>

definition cm_init_context_by_index :: "plat_psci_ops \<Rightarrow> nat \<Rightarrow> nat \<Rightarrow> entry_point_info \<Rightarrow> psci_state \<Rightarrow> psci_state option" where
  "cm_init_context_by_index ops my cpu_idx ep s =
     do { me \<leftarrow> nth_opt (cpu_regs s) my;
          c \<leftarrow> nth_opt (cpu_regs s) cpu_idx;
          _ \<leftarrow> cm_ctx c (GET_SECURITY_STATE (ep_attr ep));
          Some (s\<lparr>cpu_regs := (cpu_regs s)[cpu_idx :=
             cm_put_ctx c (GET_SECURITY_STATE (ep_attr ep))
               (cm_init_context_common (cpu_scr_el3 me) (scr_routing_model ops) ep)]\<rparr>) }"

definition prepare_exit :: "nat \<Rightarrow> psci_state \<Rightarrow> psci_state option" where
  "prepare_exit cpu_idx s =
     do { c \<leftarrow> nth_opt (cpu_regs s) cpu_idx;
          c \<leftarrow> cm_prepare_el3_exit c NON_SECURE;
          Some (s\<lparr>cpu_regs := (cpu_regs s)[cpu_idx := c]\<rparr>) }"

section \<open>Turning a processor on\<close>

definition cpu_on_validate_state :: "aff_info_state \<Rightarrow> int" where
  "cpu_on_validate_state a =
     (case a of AFF_STATE_ON \<Rightarrow> PSCI_E_ALREADY_ON | AFF_STATE_ON_PENDING \<Rightarrow> PSCI_E_ON_PENDING | AFF_STATE_OFF \<Rightarrow> PSCI_E_SUCCESS)"

definition psci_cpu_on_start :: "plat_psci_ops \<Rightarrow> nat \<Rightarrow> u64 \<Rightarrow> entry_point_info \<Rightarrow> psci_state \<Rightarrow> (int \<times> psci_state) option" where
  "psci_cpu_on_start ops my target_cpu ep s =
     do { let target = plat_core_pos_by_mpidr ops target_cpu;
          assert_c (target \<ge> 0);
          let target_idx = nat target;
          assert_c (pwr_domain_on ops \<noteq> None \<and> pwr_domain_on_finish ops \<noteq> None);
          d \<leftarrow> nth_opt (cpu_data s) target_idx;
          let rc = cpu_on_validate_state (aff_info_state d);
          if rc \<noteq> PSCI_E_SUCCESS then Some (rc, s)
          else do {
            let s = psci_set_aff_info_state_by_idx target_idx AFF_STATE_ON_PENDING s;
            d \<leftarrow> nth_opt (cpu_data s) target_idx;
            s \<leftarrow> (if aff_info_state d \<noteq> AFF_STATE_ON_PENDING
                  then do { assert_c (aff_info_state d = AFF_STATE_OFF);
                            Some (psci_set_aff_info_state_by_idx target_idx AFF_STATE_ON_PENDING s) }
                  else Some s);
            f \<leftarrow> pwr_domain_on ops;
            let rc = f target_cpu;
            assert_c (rc = PSCI_E_SUCCESS \<or> rc = PSCI_E_INTERN_FAIL);
            if rc = PSCI_E_SUCCESS
            then do { s \<leftarrow> cm_init_context_by_index ops my target_idx ep s; Some (rc, s) }
            else Some (rc, psci_set_aff_info_state_by_idx target_idx AFF_STATE_OFF s) } }"

definition psci_cpu_on_finish :: "nat \<Rightarrow> psci_state \<Rightarrow> psci_state option" where
  "psci_cpu_on_finish cpu_idx s =
     do { d \<leftarrow> nth_opt (cpu_data s) cpu_idx;
          assert_c (aff_info_state d = AFF_STATE_ON_PENDING);
          c \<leftarrow> nth_opt (cpu_regs s) cpu_idx;
          n \<leftarrow> nth_opt (cpu_nodes s) cpu_idx;
          prepare_exit cpu_idx
            (s\<lparr>cpu_nodes := (cpu_nodes s)[cpu_idx := n\<lparr>mpidr := cpu_mpidr c AND MPIDR_AFFINITY_MASK\<rparr>]\<rparr>) }"

section \<open>Turning a processor off, suspending and resuming it\<close>

text \<open>
  What becomes of a call: it returns to the caller, it waits for an interrupt and goes on in the
  finisher for the given level, or it does not return because the processor or the system goes down.
\<close>

datatype 'a psci_result = Ret 'a | Standby nat | Down | System_Off | System_Reset

definition psci_set_power_off_state :: "psci_config \<Rightarrow> u8 list" where
  "psci_set_power_off_state K = replicate (PLAT_MAX_PWR_LVL K + 1) (PLAT_MAX_OFF_STATE K)"

text \<open>
  The list of states in the results of the next two operations is what the platform's hooks are
  given; \<open>scp\<close> tells whether the firmware of the power manager runs, in builds that have one.
\<close>

definition psci_do_cpu_off ::
  "psci_config \<Rightarrow> plat_psci_ops \<Rightarrow> spd_pm_ops option \<Rightarrow> bool \<Rightarrow> nat \<Rightarrow> nat \<Rightarrow> psci_state \<Rightarrow>
   (int psci_result \<times> u8 list \<times> psci_state) option"
where
  "psci_do_cpu_off K ops spd scp idx end_pwrlvl s =
     do { assert_c (pwr_domain_off ops \<noteq> None);
          s \<leftarrow> psci_acquire_pwr_domain_locks end_pwrlvl idx s;
          let rc = (case spd of Some p \<Rightarrow> (case svc_off p of Some r \<Rightarrow> r | None \<Rightarrow> PSCI_E_SUCCESS) | None \<Rightarrow> PSCI_E_SUCCESS);
          if rc \<noteq> 0 then do {
            s \<leftarrow> psci_release_pwr_domain_locks end_pwrlvl idx s;
            Some (Ret rc, [], s) }
          else do {
            (state_info, s) \<leftarrow> psci_do_state_coordination K idx end_pwrlvl (psci_set_power_off_state K) s;
            assert_c (scp \<longrightarrow> 1 < length state_info);
            let state_info = (if scp then state_info[1 := PSCI_LOCAL_STATE_RUN] else state_info);
            s \<leftarrow> psci_release_pwr_domain_locks end_pwrlvl idx s;
            Some (Down, state_info, psci_set_aff_info_state_by_idx idx AFF_STATE_OFF s) } }"

definition psci_suspend_to_pwrdown_start ::
  "plat_psci_ops \<Rightarrow> nat \<Rightarrow> nat \<Rightarrow> entry_point_info \<Rightarrow> psci_state \<Rightarrow> psci_state option"
where
  "psci_suspend_to_pwrdown_start ops idx end_pwrlvl ep s =
     cm_init_context_by_index ops idx idx ep (psci_set_suspend_pwrlvl idx end_pwrlvl s)"

text \<open>The entry point is not filled in for a standby request, which does not read it: \<open>None\<close>.\<close>

definition psci_cpu_suspend_start ::
  "psci_config \<Rightarrow> plat_psci_ops \<Rightarrow> bool \<Rightarrow> nat \<Rightarrow> entry_point_info option \<Rightarrow> nat \<Rightarrow> u8 list \<Rightarrow> bool \<Rightarrow> psci_state \<Rightarrow>
   (unit psci_result \<times> u8 list \<times> psci_state) option"
where
  "psci_cpu_suspend_start K ops isr idx ep end_pwrlvl state_info is_power_down_state s =
     do { assert_c (pwr_domain_suspend ops \<noteq> None \<and> pwr_domain_suspend_finish ops \<noteq> None);
          s \<leftarrow> psci_acquire_pwr_domain_locks end_pwrlvl idx s;
          if isr then do {
            s \<leftarrow> psci_release_pwr_domain_locks end_pwrlvl idx s;
            Some (Ret (), state_info, s) }
          else do {
            (state_info, s) \<leftarrow> psci_do_state_coordination K idx end_pwrlvl state_info s;
            s \<leftarrow> (if is_power_down_state then do { e \<leftarrow> ep; psci_suspend_to_pwrdown_start ops idx end_pwrlvl e s }
                  else Some s);
            s \<leftarrow> psci_release_pwr_domain_locks end_pwrlvl idx s;
            Some (if is_power_down_state then Down else Standby end_pwrlvl, state_info, s) } }"

definition psci_suspend_to_standby_finisher :: "psci_config \<Rightarrow> nat \<Rightarrow> nat \<Rightarrow> psci_state \<Rightarrow> psci_state option" where
  "psci_suspend_to_standby_finisher K cpu_idx end_pwrlvl s =
     do { s \<leftarrow> psci_acquire_pwr_domain_locks end_pwrlvl cpu_idx s;
          _ \<leftarrow> psci_get_target_local_pwr_states K cpu_idx end_pwrlvl s;
          s \<leftarrow> psci_set_pwr_domains_to_run cpu_idx end_pwrlvl s;
          psci_release_pwr_domain_locks end_pwrlvl cpu_idx s }"

definition psci_cpu_suspend_finish ::
  "psci_config \<Rightarrow> spd_pm_ops option \<Rightarrow> nat \<Rightarrow> u8 list \<Rightarrow> psci_state \<Rightarrow> psci_state option"
where
  "psci_cpu_suspend_finish K spd cpu_idx state_info s =
     do { d \<leftarrow> nth_opt (cpu_data s) cpu_idx;
          st \<leftarrow> nth_opt state_info 0;
          assert_c (aff_info_state d = AFF_STATE_ON \<and> is_local_state_off K st);
          (case spd of
             Some p \<Rightarrow> if svc_suspend p \<noteq> None
                       then do { assert_c (psci_find_max_off_lvl K state_info \<noteq> PSCI_INVALID_PWR_LVL K);
                                 svc_suspend_finish p }
                       else Some ()
           | None \<Rightarrow> Some ());
          prepare_exit cpu_idx (psci_set_suspend_pwrlvl cpu_idx (PSCI_INVALID_PWR_LVL K) s) }"

definition get_power_on_target_pwrlvl :: "psci_config \<Rightarrow> psci_cpu_data \<Rightarrow> nat" where
  "get_power_on_target_pwrlvl K d =
     (if unat (target_pwrlvl d) = PSCI_INVALID_PWR_LVL K then PLAT_MAX_PWR_LVL K else unat (target_pwrlvl d))"

definition psci_warmboot_entrypoint :: "psci_config \<Rightarrow> spd_pm_ops option \<Rightarrow> nat \<Rightarrow> psci_state \<Rightarrow> psci_state option" where
  "psci_warmboot_entrypoint K spd cpu_idx s =
     do { d \<leftarrow> nth_opt (cpu_data s) cpu_idx;
          assert_c (aff_info_state d \<noteq> AFF_STATE_OFF);
          let end_pwrlvl = get_power_on_target_pwrlvl K d;
          s \<leftarrow> psci_acquire_pwr_domain_locks end_pwrlvl cpu_idx s;
          state_info \<leftarrow> psci_get_target_local_pwr_states K cpu_idx end_pwrlvl s;
          s \<leftarrow> (if aff_info_state d = AFF_STATE_ON_PENDING then psci_cpu_on_finish cpu_idx s
                else psci_cpu_suspend_finish K spd cpu_idx state_info s);
          s \<leftarrow> psci_set_pwr_domains_to_run cpu_idx end_pwrlvl s;
          psci_release_pwr_domain_locks end_pwrlvl cpu_idx s }"

section \<open>Calls of the normal world\<close>

definition psci_cpu_on ::
  "plat_psci_ops \<Rightarrow> nat \<Rightarrow> u64 \<Rightarrow> u64 \<Rightarrow> u64 \<Rightarrow> psci_state \<Rightarrow> (int \<times> psci_state) option"
where
  "psci_cpu_on ops my target_cpu entrypoint context_id s =
     (if psci_validate_mpidr ops target_cpu \<noteq> PSCI_E_SUCCESS then Some (PSCI_E_INVALID_PARAMS, s)
      else do { r \<leftarrow> psci_validate_entry_point ops my entrypoint context_id s;
                (case r of Inl rc \<Rightarrow> Some (rc, s) | Inr ep \<Rightarrow> psci_cpu_on_start ops my target_cpu ep s) })"

definition psci_version :: u32 where "psci_version = push_bit 16 1 OR 0"

definition PSTATE_VALID_MASK :: u32 where "PSTATE_VALID_MASK = 0xFCFE0000"

definition psci_get_pstate_type :: "u32 \<Rightarrow> u32" where "psci_get_pstate_type p = drop_bit 16 p AND 1"
definition psci_get_pstate_pwrlvl :: "u32 \<Rightarrow> u32" where "psci_get_pstate_pwrlvl p = drop_bit 24 p AND 3"
definition psci_get_pstate_id :: "u32 \<Rightarrow> u32" where "psci_get_pstate_id p = p AND 0xffff"

definition psci_validate_power_state :: "plat_psci_ops \<Rightarrow> u32 \<Rightarrow> u8 list \<Rightarrow> (int \<times> u8 list) option" where
  "psci_validate_power_state ops power_state state_info =
     (if power_state AND PSTATE_VALID_MASK \<noteq> 0 then Some (PSCI_E_INVALID_PARAMS, state_info)
      else do { f \<leftarrow> validate_power_state ops; f power_state state_info })"

definition is_cpu_standby_req :: "bool \<Rightarrow> nat \<Rightarrow> bool" where
  "is_cpu_standby_req is_power_down_state retn_lvl \<longleftrightarrow> \<not> is_power_down_state \<and> retn_lvl = 0"

text \<open>\<open>isr\<close> tells whether an interrupt is pending when the locks have been taken.\<close>

definition psci_cpu_suspend ::
  "psci_config \<Rightarrow> plat_psci_ops \<Rightarrow> bool \<Rightarrow> nat \<Rightarrow> u32 \<Rightarrow> u64 \<Rightarrow> u64 \<Rightarrow> psci_state \<Rightarrow>
   (int psci_result \<times> psci_state) option"
where
  "psci_cpu_suspend K ops isr my power_state entrypoint context_id s =
     do { (rc, state_info) \<leftarrow> psci_validate_power_state ops power_state
                                 (replicate (PLAT_MAX_PWR_LVL K + 1) PSCI_LOCAL_STATE_RUN);
          if rc \<noteq> PSCI_E_SUCCESS then do { assert_c (rc = PSCI_E_INVALID_PARAMS); Some (Ret rc, s) }
          else do {
            let is_power_down_state = (psci_get_pstate_type power_state \<noteq> 0);
            assert_c (psci_validate_suspend_req K state_info is_power_down_state = PSCI_E_SUCCESS);
            let target = psci_find_target_suspend_lvl K state_info;
            assert_c (target \<noteq> PSCI_INVALID_PWR_LVL K);
            if is_cpu_standby_req is_power_down_state target then
              (case cpu_standby ops of
                 None \<Rightarrow> Some (Ret PSCI_E_INVALID_PARAMS, s)
               | Some f \<Rightarrow>
                   do { st \<leftarrow> nth_opt state_info 0;
                        let s = psci_set_cpu_local_state my st s;
                        _ \<leftarrow> f st;
                        Some (Ret PSCI_E_SUCCESS, psci_set_cpu_local_state my PSCI_LOCAL_STATE_RUN s) })
            else do {
              r \<leftarrow> (if is_power_down_state
                    then do { v \<leftarrow> psci_validate_entry_point ops my entrypoint context_id s;
                              Some (map_sum id Some v) }
                    else Some (Inr None));
              (case r of
                 Inl rc \<Rightarrow> Some (Ret rc, s)
               | Inr ep \<Rightarrow>
                   do { (res, _, s) \<leftarrow> psci_cpu_suspend_start K ops isr my ep target state_info is_power_down_state s;
                        Some (map_psci_result (\<lambda>_. PSCI_E_SUCCESS) res, s) }) } } }"

fun last_on_loop :: "psci_cpu_data list \<Rightarrow> nat \<Rightarrow> nat list \<Rightarrow> bool option" where
  "last_on_loop ds my [] = Some True"
| "last_on_loop ds my (i # is) =
     do { d \<leftarrow> nth_opt ds i;
          if i = my then do { assert_c (aff_info_state d = AFF_STATE_ON); last_on_loop ds my is }
          else if aff_info_state d \<noteq> AFF_STATE_OFF then Some False
          else last_on_loop ds my is }"

definition psci_is_last_on_cpu :: "psci_config \<Rightarrow> nat \<Rightarrow> psci_state \<Rightarrow> bool option" where
  "psci_is_last_on_cpu K my s = last_on_loop (cpu_data s) my [0..<PLATFORM_CORE_COUNT K]"

text \<open>The local variable that the platform fills in is not initialised: its contents are \<open>stack\<close>.\<close>

definition psci_query_sys_suspend_pwrstate :: "plat_psci_ops \<Rightarrow> u8 list \<Rightarrow> u8 list option" where
  "psci_query_sys_suspend_pwrstate ops stack = do { f \<leftarrow> get_sys_suspend_power_state ops; Some (f stack) }"

definition psci_system_suspend ::
  "psci_config \<Rightarrow> plat_psci_ops \<Rightarrow> bool \<Rightarrow> u8 list \<Rightarrow> nat \<Rightarrow> u64 \<Rightarrow> u64 \<Rightarrow> psci_state \<Rightarrow>
   (int psci_result \<times> psci_state) option"
where
  "psci_system_suspend K ops isr stack my entrypoint context_id s =
     do { last \<leftarrow> psci_is_last_on_cpu K my s;
          if \<not> last then Some (Ret PSCI_E_DENIED, s)
          else do {
            r \<leftarrow> psci_validate_entry_point ops my entrypoint context_id s;
            (case r of
               Inl rc \<Rightarrow> Some (Ret rc, s)
             | Inr ep \<Rightarrow>
                 do { state_info \<leftarrow> psci_query_sys_suspend_pwrstate ops stack;
                      assert_c (psci_find_target_suspend_lvl K state_info = PLAT_MAX_PWR_LVL K);
                      assert_c (psci_validate_suspend_req K state_info True = PSCI_E_SUCCESS);
                      st \<leftarrow> nth_opt state_info (PLAT_MAX_PWR_LVL K);
                      assert_c (is_local_state_off K st);
                      (res, _, s) \<leftarrow> psci_cpu_suspend_start K ops isr my (Some ep) (PLAT_MAX_PWR_LVL K) state_info True s;
                      Some (map_psci_result (\<lambda>_. PSCI_E_SUCCESS) res, s) }) } }"

definition psci_cpu_off ::
  "psci_config \<Rightarrow> plat_psci_ops \<Rightarrow> spd_pm_ops option \<Rightarrow> bool \<Rightarrow> nat \<Rightarrow> psci_state \<Rightarrow> (int psci_result \<times> psci_state) option"
where
  "psci_cpu_off K ops spd scp my s =
     do { (res, _, s) \<leftarrow> psci_do_cpu_off K ops spd scp my (PLAT_MAX_PWR_LVL K) s;
          assert_c (case res of Ret rc \<Rightarrow> rc = PSCI_E_DENIED | _ \<Rightarrow> True);
          Some (res, s) }"

definition aff_info_code :: "aff_info_state \<Rightarrow> int" where
  "aff_info_code a = (case a of AFF_STATE_ON \<Rightarrow> 0 | AFF_STATE_OFF \<Rightarrow> 1 | AFF_STATE_ON_PENDING \<Rightarrow> 2)"

text \<open>Only -1 is refused; another negative position would be an index far outside the array.\<close>

definition psci_affinity_info :: "plat_psci_ops \<Rightarrow> u64 \<Rightarrow> u32 \<Rightarrow> psci_state \<Rightarrow> int option" where
  "psci_affinity_info ops target_affinity lowest_affinity_level s =
     (if lowest_affinity_level > 0 then Some PSCI_E_INVALID_PARAMS
      else let target = plat_core_pos_by_mpidr ops target_affinity
           in if target = - 1 then Some PSCI_E_INVALID_PARAMS
              else do { assert_c (target \<ge> 0);
                        d \<leftarrow> nth_opt (cpu_data s) (nat target);
                        Some (aff_info_code (aff_info_state d)) })"

definition psci_spd_migrate_info :: "spd_pm_ops option \<Rightarrow> (int \<times> u64) option" where
  "psci_spd_migrate_info spd =
     (case spd of
        None \<Rightarrow> Some (PSCI_E_NOT_SUPPORTED, 0)
      | Some p \<Rightarrow> (case svc_migrate_info p of
                     None \<Rightarrow> Some (PSCI_E_NOT_SUPPORTED, 0)
                   | Some (rc, m) \<Rightarrow> do { assert_c (rc = 0 \<or> rc = 1 \<or> rc = 2 \<or> rc = PSCI_E_NOT_SUPPORTED); Some (rc, m) }))"

definition psci_migrate :: "plat_psci_ops \<Rightarrow> spd_pm_ops option \<Rightarrow> u64 \<Rightarrow> u64 \<Rightarrow> int option" where
  "psci_migrate ops spd my_mpidr target_cpu =
     do { (rc, resident) \<leftarrow> psci_spd_migrate_info spd;
          if rc \<noteq> 0 then Some (if rc = 1 then PSCI_E_DENIED else PSCI_E_NOT_SUPPORTED)
          else if resident \<noteq> my_mpidr then Some PSCI_E_NOT_PRESENT
          else if psci_validate_mpidr ops target_cpu \<noteq> PSCI_E_SUCCESS then Some PSCI_E_INVALID_PARAMS
          else do {
            p \<leftarrow> spd;
            f \<leftarrow> svc_migrate p;
            let rc = f my_mpidr target_cpu;
            assert_c (rc = PSCI_E_SUCCESS \<or> rc = PSCI_E_INTERN_FAIL);
            Some rc } }"

definition psci_migrate_info_up_cpu :: "spd_pm_ops option \<Rightarrow> u64 option" where
  "psci_migrate_info_up_cpu spd =
     do { (rc, resident) \<leftarrow> psci_spd_migrate_info spd;
          Some (if rc \<noteq> 1 \<and> rc \<noteq> 0 then of_int PSCI_E_INVALID_PARAMS else resident) }"

definition psci_node_hw_state :: "psci_config \<Rightarrow> plat_psci_ops \<Rightarrow> u64 \<Rightarrow> u32 \<Rightarrow> int option" where
  "psci_node_hw_state K ops target_cpu power_level =
     (if psci_validate_mpidr ops target_cpu \<noteq> PSCI_E_SUCCESS then Some PSCI_E_INVALID_PARAMS
      else if unat power_level > PLAT_MAX_PWR_LVL K then Some PSCI_E_INVALID_PARAMS
      else do { f \<leftarrow> get_node_hw_state ops;
                let rc = f target_cpu power_level;
                assert_c ((rc \<ge> 0 \<and> rc \<le> 2) \<or> rc = PSCI_E_NOT_SUPPORTED \<or> rc = PSCI_E_INVALID_PARAMS);
                Some rc })"

section \<open>Function identifiers\<close>

definition SMC_UNK :: u64 where "SMC_UNK = 0xffffffff"

definition PSCI_VERSION :: u32 where "PSCI_VERSION = 0x84000000"
definition PSCI_CPU_SUSPEND_AARCH32 :: u32 where "PSCI_CPU_SUSPEND_AARCH32 = 0x84000001"
definition PSCI_CPU_SUSPEND_AARCH64 :: u32 where "PSCI_CPU_SUSPEND_AARCH64 = 0xc4000001"
definition PSCI_CPU_OFF :: u32 where "PSCI_CPU_OFF = 0x84000002"
definition PSCI_CPU_ON_AARCH32 :: u32 where "PSCI_CPU_ON_AARCH32 = 0x84000003"
definition PSCI_CPU_ON_AARCH64 :: u32 where "PSCI_CPU_ON_AARCH64 = 0xc4000003"
definition PSCI_AFFINITY_INFO_AARCH32 :: u32 where "PSCI_AFFINITY_INFO_AARCH32 = 0x84000004"
definition PSCI_AFFINITY_INFO_AARCH64 :: u32 where "PSCI_AFFINITY_INFO_AARCH64 = 0xc4000004"
definition PSCI_MIG_AARCH32 :: u32 where "PSCI_MIG_AARCH32 = 0x84000005"
definition PSCI_MIG_AARCH64 :: u32 where "PSCI_MIG_AARCH64 = 0xc4000005"
definition PSCI_MIG_INFO_TYPE :: u32 where "PSCI_MIG_INFO_TYPE = 0x84000006"
definition PSCI_MIG_INFO_UP_CPU_AARCH32 :: u32 where "PSCI_MIG_INFO_UP_CPU_AARCH32 = 0x84000007"
definition PSCI_MIG_INFO_UP_CPU_AARCH64 :: u32 where "PSCI_MIG_INFO_UP_CPU_AARCH64 = 0xc4000007"
definition PSCI_SYSTEM_OFF :: u32 where "PSCI_SYSTEM_OFF = 0x84000008"
definition PSCI_SYSTEM_RESET :: u32 where "PSCI_SYSTEM_RESET = 0x84000009"
definition PSCI_FEATURES :: u32 where "PSCI_FEATURES = 0x8400000A"
definition PSCI_NODE_HW_STATE_AARCH32 :: u32 where "PSCI_NODE_HW_STATE_AARCH32 = 0x8400000d"
definition PSCI_NODE_HW_STATE_AARCH64 :: u32 where "PSCI_NODE_HW_STATE_AARCH64 = 0xc400000d"
definition PSCI_SYSTEM_SUSPEND_AARCH32 :: u32 where "PSCI_SYSTEM_SUSPEND_AARCH32 = 0x8400000E"
definition PSCI_SYSTEM_SUSPEND_AARCH64 :: u32 where "PSCI_SYSTEM_SUSPEND_AARCH64 = 0xc400000E"
definition PSCI_STAT_RESIDENCY_AARCH64 :: u32 where "PSCI_STAT_RESIDENCY_AARCH64 = 0xc4000010"
definition PSCI_STAT_COUNT_AARCH64 :: u32 where "PSCI_STAT_COUNT_AARCH64 = 0xc4000011"

lemmas psci_fids = PSCI_VERSION_def PSCI_CPU_SUSPEND_AARCH32_def PSCI_CPU_SUSPEND_AARCH64_def PSCI_CPU_OFF_def
  PSCI_CPU_ON_AARCH32_def PSCI_CPU_ON_AARCH64_def PSCI_AFFINITY_INFO_AARCH32_def PSCI_AFFINITY_INFO_AARCH64_def
  PSCI_MIG_AARCH32_def PSCI_MIG_AARCH64_def PSCI_MIG_INFO_TYPE_def PSCI_MIG_INFO_UP_CPU_AARCH32_def
  PSCI_MIG_INFO_UP_CPU_AARCH64_def PSCI_SYSTEM_OFF_def PSCI_SYSTEM_RESET_def PSCI_FEATURES_def
  PSCI_NODE_HW_STATE_AARCH32_def PSCI_NODE_HW_STATE_AARCH64_def PSCI_SYSTEM_SUSPEND_AARCH32_def
  PSCI_SYSTEM_SUSPEND_AARCH64_def PSCI_STAT_RESIDENCY_AARCH64_def PSCI_STAT_COUNT_AARCH64_def

definition define_psci_cap :: "u32 \<Rightarrow> u32" where
  "define_psci_cap x = push_bit (unat (x AND 0x1f)) 1"

definition PSCI_GENERIC_CAP :: u32 where
  "PSCI_GENERIC_CAP =
     define_psci_cap PSCI_VERSION OR define_psci_cap PSCI_AFFINITY_INFO_AARCH64 OR define_psci_cap PSCI_FEATURES"

definition PSCI_CAP_64BIT_MASK :: u32 where
  "PSCI_CAP_64BIT_MASK =
     define_psci_cap PSCI_CPU_SUSPEND_AARCH64 OR define_psci_cap PSCI_CPU_ON_AARCH64 OR
     define_psci_cap PSCI_AFFINITY_INFO_AARCH64 OR define_psci_cap PSCI_MIG_AARCH64 OR
     define_psci_cap PSCI_MIG_INFO_UP_CPU_AARCH64 OR define_psci_cap PSCI_NODE_HW_STATE_AARCH64 OR
     define_psci_cap PSCI_SYSTEM_SUSPEND_AARCH64 OR define_psci_cap PSCI_STAT_RESIDENCY_AARCH64 OR
     define_psci_cap PSCI_STAT_COUNT_AARCH64"

definition GET_SMC_CC :: "u32 \<Rightarrow> u32" where "GET_SMC_CC i = drop_bit 30 i AND 1"
definition GET_SMC_TYPE :: "u32 \<Rightarrow> u32" where "GET_SMC_TYPE i = drop_bit 31 i AND 1"

definition is_std_svc_call :: "u32 \<Rightarrow> bool" where
  "is_std_svc_call fid \<longleftrightarrow> drop_bit 24 fid AND 0x3f = 4"

definition is_valid_fast_smc :: "u32 \<Rightarrow> bool" where
  "is_valid_fast_smc fid \<longleftrightarrow> drop_bit 16 fid AND 0xff = 0 \<and> GET_SMC_TYPE fid = 1"

definition is_psci_fid :: "u32 \<Rightarrow> bool" where
  "is_psci_fid fid \<longleftrightarrow> fid AND 0xffe0 = 0"

definition is_caller_secure :: "u64 \<Rightarrow> bool" where
  "is_caller_secure flags \<longleftrightarrow> flags AND 1 = 0"

definition psci_features :: "u32 \<Rightarrow> u32 \<Rightarrow> int" where
  "psci_features caps psci_fid =
     (let local_caps = (if GET_SMC_CC psci_fid = 1 then caps AND PSCI_CAP_64BIT_MASK else caps)
      in if \<not> (is_std_svc_call psci_fid \<and> is_valid_fast_smc psci_fid \<and> is_psci_fid psci_fid) then PSCI_E_NOT_SUPPORTED
         else if local_caps AND define_psci_cap psci_fid = 0 then PSCI_E_NOT_SUPPORTED
         else if psci_fid = PSCI_CPU_SUSPEND_AARCH32 \<or> psci_fid = PSCI_CPU_SUSPEND_AARCH64
         then 0
         else PSCI_E_SUCCESS)"

section \<open>The handler\<close>

text \<open>What a call sees of its surroundings, besides the state of the library.\<close>

record psci_env =
  env_spd :: "spd_pm_ops option"
  env_scp :: bool
  env_isr :: bool
  env_stack :: "u8 list"

definition ret_int :: "psci_state \<Rightarrow> int option \<Rightarrow> (u64 psci_result \<times> psci_state) option" where
  "ret_int s r = map_option (\<lambda>rc. (Ret (of_int rc), s)) r"

definition res_int :: "(int psci_result \<times> psci_state) option \<Rightarrow> (u64 psci_result \<times> psci_state) option" where
  "res_int r = map_option (apfst (map_psci_result of_int)) r"

text \<open>The hooks of a dispatcher for these two calls return nothing to the library; the platform's does not return.\<close>

definition psci_system_off :: "plat_psci_ops \<Rightarrow> psci_state \<Rightarrow> (u64 psci_result \<times> psci_state) option" where
  [simp]: "psci_system_off ops s = do { hook \<leftarrow> system_off ops; _ \<leftarrow> hook; Some (System_Off, s) }"

definition psci_system_reset :: "plat_psci_ops \<Rightarrow> psci_state \<Rightarrow> (u64 psci_result \<times> psci_state) option" where
  [simp]: "psci_system_reset ops s = do { hook \<leftarrow> system_reset ops; _ \<leftarrow> hook; Some (System_Reset, s) }"

definition psci_smc32 ::
  "psci_config \<Rightarrow> plat_psci_ops \<Rightarrow> psci_env \<Rightarrow> nat \<Rightarrow> u32 \<Rightarrow> u64 \<Rightarrow> u64 \<Rightarrow> u64 \<Rightarrow> psci_state \<Rightarrow>
   (u64 psci_result \<times> psci_state) option"
where
  "psci_smc32 K ops env my smc_fid x1 x2 x3 s =
     (if smc_fid = PSCI_VERSION then Some (Ret (ucast psci_version), s)
      else if smc_fid = PSCI_CPU_OFF then res_int (psci_cpu_off K ops (env_spd env) (env_scp env) my s)
      else if smc_fid = PSCI_CPU_SUSPEND_AARCH32 then res_int (psci_cpu_suspend K ops (env_isr env) my (ucast x1) x2 x3 s)
      else if smc_fid = PSCI_CPU_ON_AARCH32 then res_int (map_option (apfst Ret) (psci_cpu_on ops my x1 x2 x3 s))
      else if smc_fid = PSCI_AFFINITY_INFO_AARCH32 then ret_int s (psci_affinity_info ops x1 (ucast x2) s)
      else if smc_fid = PSCI_MIG_AARCH32 then
        do { c \<leftarrow> nth_opt (cpu_regs s) my; ret_int s (psci_migrate ops (env_spd env) (cpu_mpidr c) x1) }
      else if smc_fid = PSCI_MIG_INFO_TYPE then ret_int s (map_option fst (psci_spd_migrate_info (env_spd env)))
      else if smc_fid = PSCI_MIG_INFO_UP_CPU_AARCH32 then
        map_option (\<lambda>m. (Ret m, s)) (psci_migrate_info_up_cpu (env_spd env))
      else if smc_fid = PSCI_NODE_HW_STATE_AARCH32 then ret_int s (psci_node_hw_state K ops x1 (ucast x2))
      else if smc_fid = PSCI_SYSTEM_SUSPEND_AARCH32 then
        res_int (psci_system_suspend K ops (env_isr env) (env_stack env) my x1 x2 s)
      else if smc_fid = PSCI_SYSTEM_OFF then psci_system_off ops s
      else if smc_fid = PSCI_SYSTEM_RESET then psci_system_reset ops s
      else if smc_fid = PSCI_FEATURES then Some (Ret (of_int (psci_features (psci_caps s) (ucast x1))), s)
      else Some (Ret SMC_UNK, s))"

definition psci_smc64 ::
  "psci_config \<Rightarrow> plat_psci_ops \<Rightarrow> psci_env \<Rightarrow> nat \<Rightarrow> u32 \<Rightarrow> u64 \<Rightarrow> u64 \<Rightarrow> u64 \<Rightarrow> psci_state \<Rightarrow>
   (u64 psci_result \<times> psci_state) option"
where
  "psci_smc64 K ops env my smc_fid x1 x2 x3 s =
     (if smc_fid = PSCI_CPU_SUSPEND_AARCH64 then res_int (psci_cpu_suspend K ops (env_isr env) my (ucast x1) x2 x3 s)
      else if smc_fid = PSCI_CPU_ON_AARCH64 then res_int (map_option (apfst Ret) (psci_cpu_on ops my x1 x2 x3 s))
      else if smc_fid = PSCI_AFFINITY_INFO_AARCH64 then ret_int s (psci_affinity_info ops x1 (ucast x2) s)
      else if smc_fid = PSCI_MIG_AARCH64 then
        do { c \<leftarrow> nth_opt (cpu_regs s) my; ret_int s (psci_migrate ops (env_spd env) (cpu_mpidr c) x1) }
      else if smc_fid = PSCI_MIG_INFO_UP_CPU_AARCH64 then
        map_option (\<lambda>m. (Ret m, s)) (psci_migrate_info_up_cpu (env_spd env))
      else if smc_fid = PSCI_NODE_HW_STATE_AARCH64 then ret_int s (psci_node_hw_state K ops x1 (ucast x2))
      else if smc_fid = PSCI_SYSTEM_SUSPEND_AARCH64 then
        res_int (psci_system_suspend K ops (env_isr env) (env_stack env) my x1 x2 s)
      else Some (Ret SMC_UNK, s))"

definition psci_smc_handler ::
  "psci_config \<Rightarrow> plat_psci_ops \<Rightarrow> psci_env \<Rightarrow> nat \<Rightarrow> u32 \<Rightarrow> u64 \<Rightarrow> u64 \<Rightarrow> u64 \<Rightarrow> u64 \<Rightarrow> psci_state \<Rightarrow>
   (u64 psci_result \<times> psci_state) option"
where
  "psci_smc_handler K ops env my smc_fid x1 x2 x3 flags s =
     (if is_caller_secure flags then Some (Ret SMC_UNK, s)
      else if psci_caps s AND define_psci_cap smc_fid = 0 then Some (Ret SMC_UNK, s)
      else if GET_SMC_CC smc_fid = 0
      then psci_smc32 K ops env my smc_fid (take_bit 32 x1) (take_bit 32 x2) (take_bit 32 x3) s
      else psci_smc64 K ops env my smc_fid x1 x2 x3 s)"

section \<open>Setup\<close>

definition zero_node :: non_cpu_pd_node where
  "zero_node = \<lparr>cpu_start_idx = 0, ncpus = 0, nc_parent_node = 0, nc_local_state = 0, level = 0, lock_index = 0\<rparr>"

text \<open>The library's data when the firmware starts: zeroed memory, and the processors as they are.\<close>

definition psci_bss :: "psci_config \<Rightarrow> cpu_state list \<Rightarrow> psci_state" where
  "psci_bss K regs =
     \<lparr>req_states = replicate (PLAT_MAX_PWR_LVL K + 1) (replicate (PLATFORM_CORE_COUNT K) 0),
      non_cpu_nodes = replicate (PSCI_NUM_NON_CPU_PWR_DOMAINS K) zero_node,
      cpu_nodes = replicate (PLATFORM_CORE_COUNT K) \<lparr>mpidr = 0, parent_node = 0\<rparr>,
      cpu_data = replicate (PLATFORM_CORE_COUNT K) \<lparr>aff_info_state = AFF_STATE_ON, target_pwrlvl = 0, local_state = 0\<rparr>,
      cpu_regs = regs,
      lock_holder = replicate (PSCI_NUM_NON_CPU_PWR_DOMAINS K) None,
      psci_caps = 0\<rparr>"

definition psci_init_pwr_domain_node :: "psci_config \<Rightarrow> nat \<Rightarrow> u32 \<Rightarrow> nat \<Rightarrow> psci_state \<Rightarrow> psci_state option" where
  "psci_init_pwr_domain_node K node_idx parent_idx lvl s =
     (if lvl > 0 then
        do { n \<leftarrow> nth_opt (non_cpu_nodes s) node_idx;
             Some (s\<lparr>non_cpu_nodes := (non_cpu_nodes s)[node_idx :=
               n\<lparr>level := of_nat lvl, lock_index := of_nat node_idx, nc_parent_node := parent_idx,
                 nc_local_state := PLAT_MAX_OFF_STATE K\<rparr>]\<rparr>) }
      else
        do { _ \<leftarrow> nth_opt (cpu_nodes s) node_idx;
             _ \<leftarrow> nth_opt (cpu_data s) node_idx;
             c \<leftarrow> nth_opt (cpu_regs s) node_idx;
             c \<leftarrow> cm_set_context c NON_SECURE;
             Some (s\<lparr>cpu_nodes := (cpu_nodes s)[node_idx := \<lparr>mpidr = PSCI_INVALID_MPIDR, parent_node = parent_idx\<rparr>],
                     cpu_data := (cpu_data s)[node_idx :=
                       \<lparr>aff_info_state = AFF_STATE_OFF, target_pwrlvl = of_nat (PSCI_INVALID_PWR_LVL K),
                        local_state = PLAT_MAX_OFF_STATE K\<rparr>],
                     cpu_regs := (cpu_regs s)[node_idx := c]\<rparr>) })"

fun init_children :: "psci_config \<Rightarrow> nat list \<Rightarrow> u32 \<Rightarrow> nat \<Rightarrow> psci_state \<Rightarrow> psci_state option" where
  "init_children K [] parent_idx lvl s = Some s"
| "init_children K (j # js) parent_idx lvl s =
     do { s \<leftarrow> psci_init_pwr_domain_node K j parent_idx lvl s; init_children K js parent_idx lvl s }"

text \<open>
  The indices of the three nested loops: the next entry of the descriptor, the next free node, the
  nodes counted for the level below, and the loop variable \<open>j\<close>, which is read after the loops.
\<close>

record tree_idx =
  parent_node_index :: nat
  node_index :: nat
  num_nodes_at_next_lvl :: nat
  loop_j :: nat

fun populate_level ::
  "psci_config \<Rightarrow> u8 list \<Rightarrow> nat \<Rightarrow> nat \<Rightarrow> tree_idx \<Rightarrow> psci_state \<Rightarrow> (tree_idx \<times> psci_state) option"
where
  "populate_level K topology lvl 0 x s = Some (x, s)"
| "populate_level K topology lvl (Suc i) x s =
     do { assert_c (parent_node_index x \<le> PSCI_NUM_NON_CPU_PWR_DOMAINS K);
          n \<leftarrow> nth_opt topology (parent_node_index x);
          let j = node_index x + unat n;
          s \<leftarrow> init_children K [node_index x..<j] (of_nat (parent_node_index x) - 1) lvl s;
          populate_level K topology lvl i
            \<lparr>parent_node_index = parent_node_index x + 1, node_index = j,
             num_nodes_at_next_lvl = num_nodes_at_next_lvl x + unat n, loop_j = j\<rparr> s }"

fun populate_levels ::
  "psci_config \<Rightarrow> u8 list \<Rightarrow> nat \<Rightarrow> nat \<Rightarrow> tree_idx \<Rightarrow> psci_state \<Rightarrow> (tree_idx \<times> psci_state) option"
where
  "populate_levels K topology 0 num_nodes x s =
     populate_level K topology 0 num_nodes (x\<lparr>num_nodes_at_next_lvl := 0\<rparr>) s"
| "populate_levels K topology (Suc lvl) num_nodes x s =
     do { (x, s) \<leftarrow> populate_level K topology (Suc lvl) num_nodes (x\<lparr>num_nodes_at_next_lvl := 0\<rparr>) s;
          populate_levels K topology lvl (num_nodes_at_next_lvl x)
            (if lvl = 0 then x\<lparr>node_index := 0\<rparr> else x) s }"

definition populate_power_domain_tree :: "psci_config \<Rightarrow> u8 list \<Rightarrow> psci_state \<Rightarrow> psci_state option" where
  "populate_power_domain_tree K topology s =
     do { (x, s) \<leftarrow> populate_levels K topology (PLAT_MAX_PWR_LVL K) 1
                      \<lparr>parent_node_index = 0, node_index = 0, num_nodes_at_next_lvl = 0, loop_j = 0\<rparr> s;
          assert_c (loop_j x = PLATFORM_CORE_COUNT K);
          Some s }"

text \<open>The inner loop of the limits runs from the highest level down: over the \<open>j\<close> lowest entries.\<close>

fun limits_inner ::
  "nat \<Rightarrow> nat \<Rightarrow> nat list \<Rightarrow> nat list \<Rightarrow> non_cpu_pd_node list \<Rightarrow> (nat list \<times> non_cpu_pd_node list) option"
where
  "limits_inner cpu_idx 0 temp_index nodes_idx nodes = Some (nodes_idx, nodes)"
| "limits_inner cpu_idx (Suc j) temp_index nodes_idx nodes =
     do { t \<leftarrow> nth_opt temp_index j;
          old \<leftarrow> nth_opt nodes_idx j;
          n \<leftarrow> nth_opt nodes t;
          let n = (if t \<noteq> old then n\<lparr>cpu_start_idx := of_nat cpu_idx\<rparr> else n);
          limits_inner cpu_idx j temp_index (nodes_idx[j := t]) (nodes[t := n\<lparr>ncpus := ncpus n + 1\<rparr>]) }"

fun limits_loop :: "psci_config \<Rightarrow> nat list \<Rightarrow> nat list \<Rightarrow> psci_state \<Rightarrow> psci_state option" where
  "limits_loop K [] nodes_idx s = Some s"
| "limits_loop K (cpu_idx # cpus) nodes_idx s =
     do { temp_index \<leftarrow> psci_get_parent_pwr_domain_nodes cpu_idx (PLAT_MAX_PWR_LVL K) s;
          (nodes_idx, nodes) \<leftarrow> limits_inner cpu_idx (PLAT_MAX_PWR_LVL K) temp_index nodes_idx (non_cpu_nodes s);
          limits_loop K cpus nodes_idx (s\<lparr>non_cpu_nodes := nodes\<rparr>) }"

definition psci_update_pwrlvl_limits :: "psci_config \<Rightarrow> psci_state \<Rightarrow> psci_state option" where
  "psci_update_pwrlvl_limits K s =
     limits_loop K [0..<PLATFORM_CORE_COUNT K] (replicate (PLAT_MAX_PWR_LVL K) 0) s"

definition setup_caps :: "plat_psci_ops \<Rightarrow> u32" where
  "setup_caps ops =
     PSCI_GENERIC_CAP
     OR (if pwr_domain_off ops \<noteq> None then define_psci_cap PSCI_CPU_OFF else 0)
     OR (if pwr_domain_on ops \<noteq> None \<and> pwr_domain_on_finish ops \<noteq> None then define_psci_cap PSCI_CPU_ON_AARCH64 else 0)
     OR (if pwr_domain_suspend ops \<noteq> None \<and> pwr_domain_suspend_finish ops \<noteq> None
         then define_psci_cap PSCI_CPU_SUSPEND_AARCH64
              OR (if get_sys_suspend_power_state ops \<noteq> None then define_psci_cap PSCI_SYSTEM_SUSPEND_AARCH64 else 0)
         else 0)
     OR (if system_off ops \<noteq> None then define_psci_cap PSCI_SYSTEM_OFF else 0)
     OR (if system_reset ops \<noteq> None then define_psci_cap PSCI_SYSTEM_RESET else 0)
     OR (if get_node_hw_state ops \<noteq> None then define_psci_cap PSCI_NODE_HW_STATE_AARCH64 else 0)"

definition psci_setup :: "psci_config \<Rightarrow> plat_psci_ops \<Rightarrow> u8 list \<Rightarrow> nat \<Rightarrow> psci_state \<Rightarrow> psci_state option" where
  "psci_setup K ops topology_tree my s =
     do { s \<leftarrow> populate_power_domain_tree K topology_tree s;
          s \<leftarrow> psci_update_pwrlvl_limits K s;
          c \<leftarrow> nth_opt (cpu_regs s) my;
          n \<leftarrow> nth_opt (cpu_nodes s) my;
          let s = s\<lparr>cpu_nodes := (cpu_nodes s)[my := n\<lparr>mpidr := cpu_mpidr c AND MPIDR_AFFINITY_MASK\<rparr>]\<rparr>;
          s \<leftarrow> psci_set_pwr_domains_to_run my (PLAT_MAX_PWR_LVL K) (psci_init_req_local_pwr_states K s);
          Some (s\<lparr>psci_caps := setup_caps ops\<rparr>) }"

definition psci_register_spd_pm_hook :: "spd_pm_ops \<Rightarrow> psci_state \<Rightarrow> psci_state" where
  "psci_register_spd_pm_hook pm s =
     s\<lparr>psci_caps := psci_caps s
        OR (if svc_migrate pm \<noteq> None then define_psci_cap PSCI_MIG_AARCH64 else 0)
        OR (if svc_migrate_info pm \<noteq> None
            then define_psci_cap PSCI_MIG_INFO_UP_CPU_AARCH64 OR define_psci_cap PSCI_MIG_INFO_TYPE else 0)\<rparr>"

definition psci_prepare_next_non_secure_ctx ::
  "plat_psci_ops \<Rightarrow> nat \<Rightarrow> entry_point_info \<Rightarrow> psci_state \<Rightarrow> psci_state option"
where
  "psci_prepare_next_non_secure_ctx ops my ep s =
     do { assert_c (GET_SECURITY_STATE (ep_attr ep) = NON_SECURE);
          s \<leftarrow> cm_init_context_by_index ops my my ep s;
          prepare_exit my s }"

end
