(* ===== verification/Psci_Tree.thy ===== *)
theory Psci_Tree
  imports Psci
begin

text \<open>
  The tree of power domains of the power state coordination library and what its loops over the
  levels compute: well-formed trees, the ancestors of a processor, the reading and writing of the
  states of the ancestors, the coordination of the requests, and the locks of the ancestors. Each
  loop is shown to finish without an assertion and its result is given in closed form.
\<close>

section \<open>The tree of power domains\<close>

text \<open>
  The part of the data that never changes after the setup: the domains without their local states,
  and the parents of the processors. A well-formed tree gives each processor an ancestor at every
  level from 1 on, which lists the processor, and exactly the processors it is the ancestor of.
\<close>

type_synonym psci_topo = "non_cpu_pd_node list \<times> u32 list"

definition erase_state :: "non_cpu_pd_node \<Rightarrow> non_cpu_pd_node" where
  "erase_state n = n\<lparr>nc_local_state := 0\<rparr>"

definition topo :: "psci_state \<Rightarrow> psci_topo" where
  "topo s = (map erase_state (non_cpu_nodes s), map parent_node (cpu_nodes s))"

fun parent_at :: "psci_topo \<Rightarrow> nat \<Rightarrow> nat \<Rightarrow> u32" where
  "parent_at t c 0 = snd t ! c"
| "parent_at t c (Suc l) = nc_parent_node (fst t ! unat (parent_at t c l))"

definition anc :: "psci_topo \<Rightarrow> nat \<Rightarrow> nat \<Rightarrow> nat" where
  "anc t c l = unat (parent_at t c (l - 1))"

definition dom_cpus :: "psci_topo \<Rightarrow> nat \<Rightarrow> nat set" where
  "dom_cpus t a = {unat (cpu_start_idx (fst t ! a))..<unat (cpu_start_idx (fst t ! a)) + unat (ncpus (fst t ! a))}"

definition wf_topo :: "psci_config \<Rightarrow> psci_topo \<Rightarrow> bool" where
  "wf_topo K t \<longleftrightarrow>
     PLAT_MAX_PWR_LVL K \<le> 3 \<and> PLAT_MAX_RET_STATE K < PLAT_MAX_OFF_STATE K \<and>
     length (fst t) = PSCI_NUM_NON_CPU_PWR_DOMAINS K \<and> length (snd t) = PLATFORM_CORE_COUNT K \<and>
     (\<forall>c\<in>{..<PLATFORM_CORE_COUNT K}. \<forall>l\<in>{1..PLAT_MAX_PWR_LVL K}.
        anc t c l < length (fst t) \<and> unat (level (fst t ! anc t c l)) = l \<and>
        unat (lock_index (fst t ! anc t c l)) = anc t c l \<and>
        c \<in> dom_cpus t (anc t c l) \<and> dom_cpus t (anc t c l) \<subseteq> {..<PLATFORM_CORE_COUNT K} \<and>
        (\<forall>c'\<in>dom_cpus t (anc t c l). anc t c' l = anc t c l))"

text \<open>The requested state of a processor at a level and the local state of a domain.\<close>

definition req :: "psci_state \<Rightarrow> nat \<Rightarrow> nat \<Rightarrow> u8" where
  "req s l c = req_states s ! (l - 1) ! c"

definition nst :: "psci_state \<Rightarrow> nat \<Rightarrow> u8" where
  "nst s a = nc_local_state (non_cpu_nodes s ! a)"

definition shape :: "psci_config \<Rightarrow> psci_state \<Rightarrow> bool" where
  "shape K s \<longleftrightarrow>
     length (req_states s) = PLAT_MAX_PWR_LVL K + 1 \<and>
     (\<forall>row\<in>set (req_states s). length row = PLATFORM_CORE_COUNT K) \<and>
     length (non_cpu_nodes s) = PSCI_NUM_NON_CPU_PWR_DOMAINS K \<and>
     length (cpu_nodes s) = PLATFORM_CORE_COUNT K \<and> length (cpu_data s) = PLATFORM_CORE_COUNT K \<and>
     length (cpu_regs s) = PLATFORM_CORE_COUNT K \<and> length (lock_holder s) = PSCI_NUM_NON_CPU_PWR_DOMAINS K"

text \<open>A well-formed state over a given tree, and what the loops over the levels leave alone.\<close>

definition wf_psci :: "psci_config \<Rightarrow> psci_topo \<Rightarrow> psci_state \<Rightarrow> bool" where
  "wf_psci K t s \<longleftrightarrow> wf_topo K t \<and> shape K s \<and> topo s = t"

definition frame :: "psci_state \<Rightarrow> psci_state \<Rightarrow> bool" where
  "frame s s' \<longleftrightarrow> cpu_nodes s' = cpu_nodes s \<and> cpu_data s' = cpu_data s \<and> cpu_regs s' = cpu_regs s \<and>
     lock_holder s' = lock_holder s \<and> psci_caps s' = psci_caps s"

lemma frame_refl [simp]: "frame s s"
  by (simp add: frame_def)

lemma frame_trans: "frame s s' \<Longrightarrow> frame s' s'' \<Longrightarrow> frame s s''"
  by (simp add: frame_def)

lemma erase_state_simps [simp]:
  "cpu_start_idx (erase_state n) = cpu_start_idx n" "ncpus (erase_state n) = ncpus n"
  "nc_parent_node (erase_state n) = nc_parent_node n" "level (erase_state n) = level n"
  "lock_index (erase_state n) = lock_index n"
  "erase_state (n\<lparr>nc_local_state := st\<rparr>) = erase_state n"
  by (simp_all add: erase_state_def)

lemma wf_topo_anc:
  assumes "wf_topo K t" "c < PLATFORM_CORE_COUNT K" "1 \<le> l" "l \<le> PLAT_MAX_PWR_LVL K"
  shows "anc t c l < length (fst t)" "unat (level (fst t ! anc t c l)) = l"
    "unat (lock_index (fst t ! anc t c l)) = anc t c l" "c \<in> dom_cpus t (anc t c l)"
    "dom_cpus t (anc t c l) \<subseteq> {..<PLATFORM_CORE_COUNT K}"
    "\<And>c'. c' \<in> dom_cpus t (anc t c l) \<Longrightarrow> anc t c' l = anc t c l"
proof -
  have "c \<in> {..<PLATFORM_CORE_COUNT K}" "l \<in> {1..PLAT_MAX_PWR_LVL K}" using assms(2-4) by simp_all
  then have *: "anc t c l < length (fst t) \<and> unat (level (fst t ! anc t c l)) = l \<and>
        unat (lock_index (fst t ! anc t c l)) = anc t c l \<and>
        c \<in> dom_cpus t (anc t c l) \<and> dom_cpus t (anc t c l) \<subseteq> {..<PLATFORM_CORE_COUNT K} \<and>
        (\<forall>c'\<in>dom_cpus t (anc t c l). anc t c' l = anc t c l)"
    using assms(1) unfolding wf_topo_def by (elim conjE) (drule (1) bspec, drule (1) bspec, assumption)
  then have "anc t c l < length (fst t) \<and> unat (level (fst t ! anc t c l)) = l \<and>
        unat (lock_index (fst t ! anc t c l)) = anc t c l \<and>
        c \<in> dom_cpus t (anc t c l) \<and> dom_cpus t (anc t c l) \<subseteq> {..<PLATFORM_CORE_COUNT K}"
    by (elim conjE, intro conjI)
  then show "anc t c l < length (fst t)" "unat (level (fst t ! anc t c l)) = l"
    "unat (lock_index (fst t ! anc t c l)) = anc t c l" "c \<in> dom_cpus t (anc t c l)"
    "dom_cpus t (anc t c l) \<subseteq> {..<PLATFORM_CORE_COUNT K}"
    by simp_all
  show "anc t c' l = anc t c l" if "c' \<in> dom_cpus t (anc t c l)" for c'
    using * that by (elim conjE) (drule (1) bspec, assumption)
qed

lemma wf_psci_anc:
  assumes "wf_psci K t s" "c < PLATFORM_CORE_COUNT K" "1 \<le> l" "l \<le> PLAT_MAX_PWR_LVL K"
  shows "unat (parent_at t c (l - 1)) = anc t c l" "anc t c l < length (non_cpu_nodes s)"
    "nc_parent_node (non_cpu_nodes s ! anc t c l) = parent_at t c l"
    "unat (lock_index (non_cpu_nodes s ! anc t c l)) = anc t c l"
    "cpu_start_idx (non_cpu_nodes s ! anc t c l) = cpu_start_idx (fst t ! anc t c l)"
    "ncpus (non_cpu_nodes s ! anc t c l) = ncpus (fst t ! anc t c l)"
proof -
  have t: "fst t = map erase_state (non_cpu_nodes s)" and w: "wf_topo K t"
    using assms(1) by (auto simp: wf_psci_def topo_def)
  show "unat (parent_at t c (l - 1)) = anc t c l" by (simp add: anc_def)
  show a: "anc t c l < length (non_cpu_nodes s)" using wf_topo_anc(1) [OF w assms(2-4)] t by simp
  show "nc_parent_node (non_cpu_nodes s ! anc t c l) = parent_at t c l"
    using assms(3) a t by (cases l) (simp_all add: anc_def)
  show "unat (lock_index (non_cpu_nodes s ! anc t c l)) = anc t c l"
    using wf_topo_anc(3) [OF w assms(2-4)] a t by simp
  show "cpu_start_idx (non_cpu_nodes s ! anc t c l) = cpu_start_idx (fst t ! anc t c l)"
    "ncpus (non_cpu_nodes s ! anc t c l) = ncpus (fst t ! anc t c l)"
    using a t by simp_all
qed

lemma anc_inj:
  assumes "wf_topo K t" "c < PLATFORM_CORE_COUNT K" "c' < PLATFORM_CORE_COUNT K"
    "1 \<le> l" "l \<le> PLAT_MAX_PWR_LVL K" "1 \<le> l'" "l' \<le> PLAT_MAX_PWR_LVL K" "anc t c l = anc t c' l'"
  shows "l = l'"
  using wf_topo_anc(2) [OF assms(1,2,4,5)] wf_topo_anc(2) [OF assms(1,3,6,7)] assms(8) by simp

lemma wf_psci_parent: "wf_psci K t s \<Longrightarrow> c < PLATFORM_CORE_COUNT K \<Longrightarrow>
  nth_opt (cpu_nodes s) c = Some (cpu_nodes s ! c) \<and> parent_node (cpu_nodes s ! c) = parent_at t c 0"
  by (auto simp: wf_psci_def topo_def shape_def nth_opt_def)

section \<open>Elementary updates\<close>

lemma set_node_state_simps [simp]:
  "topo (set_node_state a st s) = topo s" "frame s (set_node_state a st s)"
  "req (set_node_state a st s) l c = req s l c" "shape K (set_node_state a st s) = shape K s"
  "req_states (set_node_state a st s) = req_states s"
  "length (non_cpu_nodes (set_node_state a st s)) = length (non_cpu_nodes s)"
proof -
  have "map erase_state ((non_cpu_nodes s)[a := (non_cpu_nodes s ! a)\<lparr>nc_local_state := st\<rparr>]) = map erase_state (non_cpu_nodes s)"
  proof (rule nth_equalityI)
    show "map erase_state ((non_cpu_nodes s)[a := (non_cpu_nodes s ! a)\<lparr>nc_local_state := st\<rparr>]) ! i =
      map erase_state (non_cpu_nodes s) ! i" if "i < length (map erase_state ((non_cpu_nodes s)[a := (non_cpu_nodes s ! a)\<lparr>nc_local_state := st\<rparr>]))" for i
      using that by (cases "i = a") simp_all
  qed simp
  then show "topo (set_node_state a st s) = topo s" by (simp add: topo_def set_node_state_def)
qed (simp_all add: set_node_state_def frame_def req_def shape_def)

lemma nst_set_node_state: "a < length (non_cpu_nodes s) \<Longrightarrow>
  nst (set_node_state a st s) b = (if b = a then st else nst s b)"
  by (simp add: nst_def set_node_state_def)

lemma wf_psci_set_node_state [simp]: "wf_psci K t (set_node_state a st s) = wf_psci K t s"
  by (simp add: wf_psci_def)

lemma set_req:
  assumes "wf_psci K t s" "c < PLATFORM_CORE_COUNT K" "1 \<le> l" "l \<le> PLAT_MAX_PWR_LVL K"
  obtains s' where "psci_set_req_local_pwr_state l c st s = Some s'" "wf_psci K t s'" "frame s s'"
    "non_cpu_nodes s' = non_cpu_nodes s"
    "\<And>l' c'. 1 \<le> l' \<Longrightarrow> req s' l' c' = (if l' = l \<and> c' = c then st else req s l' c')"
proof -
  have s: "shape K s" and i: "l - 1 < length (req_states s)" using assms by (auto simp: wf_psci_def shape_def)
  then have r: "length (req_states s ! (l - 1)) = PLATFORM_CORE_COUNT K" by (simp add: shape_def)
  let ?s = "s\<lparr>req_states := (req_states s)[l - 1 := (req_states s ! (l - 1))[c := st]]\<rparr>"
  show thesis
  proof (rule that [of ?s])
    show "psci_set_req_local_pwr_state l c st s = Some ?s"
      using assms i r by (simp add: psci_set_req_local_pwr_state_def nth_opt_def)
    show "wf_psci K t ?s" using assms s i r
      by (simp add: wf_psci_def shape_def topo_def all_set_conv_all_nth nth_list_update)
    show "req ?s l' c' = (if l' = l \<and> c' = c then st else req s l' c')" if "1 \<le> l'" for l' c'
      using assms i r that by (auto simp: req_def nth_list_update)
  qed (simp_all add: frame_def)
qed

section \<open>The loops over the levels\<close>

lemma upt_step: "k < m \<Longrightarrow> [k..<m] = k # [Suc k..<m]"
  by (simp add: upt_conv_Cons)

lemma to_run_loop:
  assumes "wf_psci K t s" "c < PLATFORM_CORE_COUNT K" "1 \<le> k" "m \<le> PLAT_MAX_PWR_LVL K + 1"
  shows "\<exists>s'. to_run_loop [k..<m] (parent_at t c (k - 1)) c s = Some s' \<and> wf_psci K t s' \<and> frame s s' \<and>
     (\<forall>l c'. 1 \<le> l \<longrightarrow> req s' l c' = (if k \<le> l \<and> l < m \<and> c' = c then 0 else req s l c')) \<and>
     (\<forall>a. nst s' a = (if a \<in> anc t c ` {k..<m} then 0 else nst s a))"
  using assms(1,3)
proof (induction "m - k" arbitrary: k s)
  case 0
  then show ?case by auto
next
  case (Suc d)
  then have km: "k < m" and lv: "1 \<le> k" "k \<le> PLAT_MAX_PWR_LVL K" using assms(4) by auto
  note a = wf_psci_anc [OF Suc.prems(1) assms(2) lv]
  obtain s1 where s1: "psci_set_req_local_pwr_state k c PSCI_LOCAL_STATE_RUN (set_node_state (anc t c k) PSCI_LOCAL_STATE_RUN s) = Some s1"
      "wf_psci K t s1" "frame (set_node_state (anc t c k) PSCI_LOCAL_STATE_RUN s) s1"
      "non_cpu_nodes s1 = non_cpu_nodes (set_node_state (anc t c k) PSCI_LOCAL_STATE_RUN s)"
      "\<And>l' c'. 1 \<le> l' \<Longrightarrow> req s1 l' c' = (if l' = k \<and> c' = c then PSCI_LOCAL_STATE_RUN else req s l' c')"
    by (rule set_req [of K t "set_node_state (anc t c k) PSCI_LOCAL_STATE_RUN s" c k PSCI_LOCAL_STATE_RUN])
       (use Suc.prems assms lv in simp_all)
  have n1: "nst s1 b = (if b = anc t c k then 0 else nst s b)" for b
    using nst_set_node_state [OF a(2), of PSCI_LOCAL_STATE_RUN b] s1(4) by (simp add: nst_def PSCI_LOCAL_STATE_RUN_def)
  have d: "d = m - Suc k" and one: "1 \<le> Suc k" using Suc.hyps(2) by simp_all
  obtain s' where s': "to_run_loop [Suc k..<m] (parent_at t c k) c s1 = Some s'" "wf_psci K t s'" "frame s1 s'"
     "\<And>l c'. 1 \<le> l \<Longrightarrow> req s' l c' = (if Suc k \<le> l \<and> l < m \<and> c' = c then 0 else req s1 l c')"
     "\<And>a. nst s' a = (if a \<in> anc t c ` {Suc k..<m} then 0 else nst s1 a)"
    using Suc.hyps(1) [of "Suc k" s1, OF d s1(2) one] by (elim exE conjE) simp
  have "to_run_loop [k..<m] (parent_at t c (k - 1)) c s = Some s'"
    using a s1(1) s'(1) by (simp add: upt_step [OF km] nth_opt_def)
  moreover have "frame s s'"
    by (rule frame_trans [OF _ s'(3)], rule frame_trans [OF _ s1(3)]) simp
  moreover have "req s' l c' = (if k \<le> l \<and> l < m \<and> c' = c then 0 else req s l c')" if "1 \<le> l" for l c'
    using s'(4) [OF that] s1(5) [OF that] km by (auto simp: PSCI_LOCAL_STATE_RUN_def)
  moreover have "{k..<m} = insert k {Suc k..<m}" using km by auto
  then have "nst s' b = (if b \<in> anc t c ` {k..<m} then 0 else nst s b)" for b
    by (simp add: s'(5) n1)
  ultimately show ?case using s'(2) by blast
qed

lemma set_target_loop:
  assumes "wf_psci K t s" "c < PLATFORM_CORE_COUNT K" "1 \<le> k" "m \<le> PLAT_MAX_PWR_LVL K + 1"
    "length pd = PLAT_MAX_PWR_LVL K + 1"
  shows "\<exists>s'. set_target_loop [k..<m] (parent_at t c (k - 1)) pd s = Some s' \<and> wf_psci K t s' \<and> frame s s' \<and>
     req_states s' = req_states s \<and> (\<forall>l. k \<le> l \<longrightarrow> l < m \<longrightarrow> nst s' (anc t c l) = pd ! l) \<and>
     (\<forall>a. a \<notin> anc t c ` {k..<m} \<longrightarrow> nst s' a = nst s a)"
  using assms(1,3)
proof (induction "m - k" arbitrary: k s)
  case 0
  then show ?case by auto
next
  case (Suc d)
  then have km: "k < m" and lv: "1 \<le> k" "k \<le> PLAT_MAX_PWR_LVL K" using assms(4) by auto
  note a = wf_psci_anc [OF Suc.prems(1) assms(2) lv]
  let ?s = "set_node_state (anc t c k) (pd ! k) s"
  have d: "d = m - Suc k" and one: "1 \<le> Suc k" using Suc.hyps(2) by simp_all
  have w: "wf_psci K t ?s" using Suc.prems(1) by simp
  obtain s' where s': "set_target_loop [Suc k..<m] (parent_at t c k) pd ?s = Some s'" "wf_psci K t s'" "frame ?s s'"
     "req_states s' = req_states s" "\<And>l. Suc k \<le> l \<Longrightarrow> l < m \<Longrightarrow> nst s' (anc t c l) = pd ! l"
     "\<And>a. a \<notin> anc t c ` {Suc k..<m} \<Longrightarrow> nst s' a = nst ?s a"
    using Suc.hyps(1) [of "Suc k" ?s, OF d w one] by (elim exE conjE) simp
  have "set_target_loop [k..<m] (parent_at t c (k - 1)) pd s = Some s'"
    using a s'(1) assms(5) lv by (simp add: upt_step [OF km] nth_opt_def)
  moreover have "frame s s'" by (rule frame_trans [OF _ s'(3)]) simp
  moreover have "anc t c k \<notin> anc t c ` {Suc k..<m}"
  proof
    assume "anc t c k \<in> anc t c ` {Suc k..<m}"
    then obtain j where j: "Suc k \<le> j" "j < m" "anc t c k = anc t c j" by auto
    have "k = j" by (rule anc_inj [of K t c c k j]) (use Suc.prems assms lv j in \<open>auto simp: wf_psci_def\<close>)
    then show False using j by simp
  qed
  then have "nst s' (anc t c k) = pd ! k" using s'(6) nst_set_node_state [OF a(2)] by simp
  then have "nst s' (anc t c l) = pd ! l" if "k \<le> l" "l < m" for l
    using s'(5) that by (cases "l = k") auto
  moreover have "nst s' b = nst s b" if "b \<notin> anc t c ` {k..<m}" for b
  proof -
    have "b \<notin> anc t c ` {Suc k..<m}" "b \<noteq> anc t c k" using that km by auto
    then show ?thesis using s'(6) nst_set_node_state [OF a(2)] by simp
  qed
  ultimately show ?case using s'(2,4) by blast
qed

lemma get_target_loop:
  assumes "wf_psci K t s" "c < PLATFORM_CORE_COUNT K" "1 \<le> k" "m \<le> PLAT_MAX_PWR_LVL K + 1"
    "length pd = PLAT_MAX_PWR_LVL K + 1"
  shows "\<exists>r. get_target_loop (non_cpu_nodes s) [k..<m] (parent_at t c (k - 1)) pd = Some r \<and> length r = length pd \<and>
     (\<forall>l. r ! l = (if k \<le> l \<and> l < m then nst s (anc t c l) else pd ! l))"
  using assms(3,5)
proof (induction "m - k" arbitrary: k pd)
  case 0
  then show ?case by auto
next
  case (Suc d)
  then have km: "k < m" and lv: "1 \<le> k" "k \<le> PLAT_MAX_PWR_LVL K" using assms(4) by auto
  note a = wf_psci_anc [OF assms(1,2) lv]
  have d: "d = m - Suc k" and one: "1 \<le> Suc k" using Suc.hyps(2) by simp_all
  have pl: "length (pd[k := nst s (anc t c k)]) = PLAT_MAX_PWR_LVL K + 1" using Suc.prems(2) by simp
  obtain r where r: "get_target_loop (non_cpu_nodes s) [Suc k..<m] (parent_at t c k) (pd[k := nst s (anc t c k)]) = Some r"
    "length r = length pd"
    "\<And>l. r ! l = (if Suc k \<le> l \<and> l < m then nst s (anc t c l) else pd[k := nst s (anc t c k)] ! l)"
    using Suc.hyps(1) [of "Suc k" "pd[k := nst s (anc t c k)]", OF d one pl] by (elim exE conjE) simp
  have "get_target_loop (non_cpu_nodes s) [k..<m] (parent_at t c (k - 1)) pd = Some r"
    using a r(1) by (simp add: upt_step [OF km] nth_opt_def nst_def)
  moreover have "r ! l = (if k \<le> l \<and> l < m then nst s (anc t c l) else pd ! l)" for l
    using r(3) [of l] Suc.prems(2) lv km by (cases "l = k") auto
  ultimately show ?case using r(2) by blast
qed

lemma parent_nodes_loop:
  assumes "wf_psci K t s" "c < PLATFORM_CORE_COUNT K" "1 \<le> k" "k + n \<le> PLAT_MAX_PWR_LVL K + 1"
  shows "parent_nodes_loop (non_cpu_nodes s) n (parent_at t c (k - 1)) = Some (map (anc t c) [k..<k + n])"
  using assms(3,4)
proof (induction n arbitrary: k)
  case (Suc n)
  then have lv: "1 \<le> k" "k \<le> PLAT_MAX_PWR_LVL K" by auto
  have "[k..<Suc (k + n)] = k # [Suc k..<Suc (k + n)]" by (rule upt_step) simp
  then show ?case using wf_psci_anc [OF assms(1,2) lv] Suc.IH [of "Suc k"] Suc.prems
    by (simp add: nth_opt_def del: upt_Suc)
qed simp

section \<open>Coordination\<close>

lemma target_min_Min: "target_min x xs = Min (insert x (set xs))"
proof (induction xs arbitrary: x)
  case (Cons y ys)
  have "Min (insert x (set (y # ys))) = min y (Min (insert x (set ys)))"
    by (subst Min_insert [symmetric]) (simp_all add: insert_commute)
  moreover have "Min (insert (min y x) (set ys)) = min y (Min (insert x (set ys)))"
    by (cases "set ys = {}") (simp_all add: min.assoc)
  moreover have "(if y < x then y else x) = min y x" by (auto simp: min_def)
  ultimately show ?case using Cons.IH by (simp only: target_min.simps)
qed simp

text \<open>
  The reference: the requests after processor \<open>c\<close> has asked for \<open>pd\<close> up to level \<open>e\<close>, the
  shallowest request in the domain above \<open>c\<close> at a level, and the state the domain gets: to run when
  a domain below it runs.
\<close>

definition new_req :: "psci_state \<Rightarrow> nat \<Rightarrow> nat \<Rightarrow> nat \<Rightarrow> u8 list \<Rightarrow> nat \<Rightarrow> nat \<Rightarrow> u8" where
  "new_req s c k m pd l c' = (if k \<le> l \<and> l < m \<and> c' = c then pd ! l else req s l c')"

definition shallowest :: "psci_config \<Rightarrow> psci_topo \<Rightarrow> nat \<Rightarrow> (nat \<Rightarrow> nat \<Rightarrow> u8) \<Rightarrow> nat \<Rightarrow> u8" where
  "shallowest K t c R l = Min (insert (PLAT_MAX_OFF_STATE K) (R l ` dom_cpus t (anc t c l)))"

definition coordinated :: "psci_config \<Rightarrow> psci_topo \<Rightarrow> nat \<Rightarrow> (nat \<Rightarrow> nat \<Rightarrow> u8) \<Rightarrow> nat \<Rightarrow> nat \<Rightarrow> u8" where
  "coordinated K t c R k l =
     (if \<exists>j\<in>{k..<l}. shallowest K t c R j = 0 then 0 else shallowest K t c R l)"

lemma get_reqs:
  assumes "wf_psci K t s" "c < PLATFORM_CORE_COUNT K" "1 \<le> l" "l \<le> PLAT_MAX_PWR_LVL K"
  shows "psci_get_req_local_pwr_states l (unat (cpu_start_idx (fst t ! anc t c l))) (unat (ncpus (fst t ! anc t c l))) s
           = Some (map (req s l) [unat (cpu_start_idx (fst t ! anc t c l))..<
                        unat (cpu_start_idx (fst t ! anc t c l)) + unat (ncpus (fst t ! anc t c l))])"
    (is "psci_get_req_local_pwr_states l ?b ?n s = _")
    and "unat (ncpus (fst t ! anc t c l)) \<noteq> 0"
proof -
  have w: "wf_topo K t" and s: "shape K s" using assms(1) by (auto simp: wf_psci_def)
  have c: "c \<in> {?b..<?b + ?n}" and sub: "{?b..<?b + ?n} \<subseteq> {..<PLATFORM_CORE_COUNT K}"
    using wf_topo_anc(4,5) [OF w assms(2-4)] by (simp_all add: dom_cpus_def)
  then show n: "?n \<noteq> 0" by auto
  have "?b + ?n - 1 \<in> {..<PLATFORM_CORE_COUNT K}" by (rule subsetD [OF sub]) (use n in auto)
  then have bn: "?b + ?n \<le> PLATFORM_CORE_COUNT K" using n by auto
  have row: "l - 1 < length (req_states s)" "length (req_states s ! (l - 1)) = PLATFORM_CORE_COUNT K"
    using s assms(3,4) by (auto simp: shape_def)
  have "take ?n (drop ?b (req_states s ! (l - 1))) = map (req s l) [?b..<?b + ?n]"
    by (rule nth_equalityI) (use row bn in \<open>auto simp: req_def\<close>)
  then show "psci_get_req_local_pwr_states l ?b ?n s = Some (map (req s l) [?b..<?b + ?n])"
    using assms(3) row bn by (simp add: psci_get_req_local_pwr_states_def nth_opt_def)
qed

lemma coord_rest_loop:
  assumes "wf_psci K t s" "c < PLATFORM_CORE_COUNT K" "1 \<le> k" "m \<le> PLAT_MAX_PWR_LVL K + 1"
    "length pd = PLAT_MAX_PWR_LVL K + 1"
  shows "\<exists>pd' s'. coord_rest_loop [k..<m] c pd s = Some (pd', s') \<and> wf_psci K t s' \<and> frame s s' \<and>
     non_cpu_nodes s' = non_cpu_nodes s \<and> length pd' = length pd \<and>
     (\<forall>l. pd' ! l = (if k \<le> l \<and> l < m then 0 else pd ! l)) \<and>
     (\<forall>l c'. 1 \<le> l \<longrightarrow> req s' l c' = new_req s c k m pd l c')"
  using assms(1,3,5)
proof (induction "m - k" arbitrary: k s pd)
  case 0
  then show ?case by (auto simp: new_req_def)
next
  case (Suc d)
  then have km: "k < m" and lv: "1 \<le> k" "k \<le> PLAT_MAX_PWR_LVL K" using assms(4) by auto
  have d: "d = m - Suc k" and one: "1 \<le> Suc k" using Suc.hyps(2) by simp_all
  obtain s1 where s1: "psci_set_req_local_pwr_state k c (pd ! k) s = Some s1" "wf_psci K t s1" "frame s s1"
      "non_cpu_nodes s1 = non_cpu_nodes s"
      "\<And>l' c'. 1 \<le> l' \<Longrightarrow> req s1 l' c' = (if l' = k \<and> c' = c then pd ! k else req s l' c')"
    by (rule set_req [of K t s c k "pd ! k"]) (use Suc.prems assms lv in simp_all)
  let ?pd = "pd[k := PSCI_LOCAL_STATE_RUN]"
  have pl: "length ?pd = PLAT_MAX_PWR_LVL K + 1" using Suc.prems(3) by simp
  obtain pd' s' where s': "coord_rest_loop [Suc k..<m] c ?pd s1 = Some (pd', s')" "wf_psci K t s'" "frame s1 s'"
     "non_cpu_nodes s' = non_cpu_nodes s1" "length pd' = length pd"
     "\<And>l. pd' ! l = (if Suc k \<le> l \<and> l < m then 0 else ?pd ! l)"
     "\<And>l c'. 1 \<le> l \<Longrightarrow> req s' l c' = new_req s1 c (Suc k) m ?pd l c'"
    using Suc.hyps(1) [of "Suc k" s1 ?pd, OF d s1(2) one pl] by (elim exE conjE) simp
  have "coord_rest_loop [k..<m] c pd s = Some (pd', s')"
    using s1(1) s'(1) Suc.prems(3) lv by (simp add: upt_step [OF km] nth_opt_def)
  moreover have "frame s s'" by (rule frame_trans [OF s1(3) s'(3)])
  moreover have "pd' ! l = (if k \<le> l \<and> l < m then 0 else pd ! l)" for l
    using s'(6) [of l] Suc.prems(3) lv km by (cases "l = k") (auto simp: PSCI_LOCAL_STATE_RUN_def)
  moreover have "req s' l c' = new_req s c k m pd l c'" if "1 \<le> l" for l c'
    using s'(7) [OF that] s1(5) [OF that] km by (auto simp: new_req_def nth_list_update)
  ultimately show ?case using s'(2,4,5) s1(4) by auto
qed

lemma shallowest_step:
  assumes "wf_psci K t s" "c < PLATFORM_CORE_COUNT K" "1 \<le> l" "l \<le> PLAT_MAX_PWR_LVL K"
  shows "do { reqs \<leftarrow> psci_get_req_local_pwr_states l (unat (cpu_start_idx (fst t ! anc t c l)))
                        (unat (ncpus (fst t ! anc t c l))) s;
              plat_get_target_pwr_state K reqs } = Some (shallowest K t c (req s) l)"
  using get_reqs [OF assms]
  by (simp add: plat_get_target_pwr_state_def target_min_Min shallowest_def dom_cpus_def)

lemma shallowest_cong: "(\<And>c'. R l c' = R' l c') \<Longrightarrow> shallowest K t c R l = shallowest K t c R' l"
  by (simp add: shallowest_def)

lemma coordinated_first: "coordinated K t c R k k = shallowest K t c R k"
  by (simp add: coordinated_def)

lemma coordinated_run: "shallowest K t c R k = 0 \<Longrightarrow> k < l \<Longrightarrow> coordinated K t c R k l = 0"
  by (auto simp: coordinated_def)

lemma coordinated_Suc:
  "shallowest K t c R k \<noteq> 0 \<Longrightarrow> k < l \<Longrightarrow> coordinated K t c R k l = coordinated K t c R (Suc k) l"
proof -
  assume a: "shallowest K t c R k \<noteq> 0" "k < l"
  then have "{k..<l} = insert k {Suc k..<l}" by auto
  then show ?thesis using a(1) by (simp add: coordinated_def)
qed

lemma coordinated_cong:
  assumes "\<And>j c'. k \<le> j \<Longrightarrow> j \<le> l \<Longrightarrow> R j c' = R' j c'" "k \<le> l"
  shows "coordinated K t c R k l = coordinated K t c R' k l"
proof -
  have "shallowest K t c R j = shallowest K t c R' j" if "k \<le> j" "j \<le> l" for j
    by (rule shallowest_cong) (use assms(1) that in blast)
  then show ?thesis using assms(2) by (simp add: coordinated_def)
qed

lemma coord_loop:
  assumes "wf_psci K t s" "c < PLATFORM_CORE_COUNT K" "1 \<le> k" "m \<le> PLAT_MAX_PWR_LVL K + 1"
    "length pd = PLAT_MAX_PWR_LVL K + 1"
  shows "\<exists>pd' s'. coord_loop K [k..<m] (parent_at t c (k - 1)) c pd s = Some (pd', s') \<and> wf_psci K t s' \<and> frame s s' \<and>
     non_cpu_nodes s' = non_cpu_nodes s \<and> length pd' = length pd \<and>
     (\<forall>l. pd' ! l = (if k \<le> l \<and> l < m then coordinated K t c (new_req s c k m pd) k l else pd ! l)) \<and>
     (\<forall>l c'. 1 \<le> l \<longrightarrow> req s' l c' = new_req s c k m pd l c')"
  using assms(1,3,5)
proof (induction "m - k" arbitrary: k s pd)
  case 0
  then show ?case by (auto simp: new_req_def)
next
  case (Suc d)
  then have km: "k < m" and lv: "1 \<le> k" "k \<le> PLAT_MAX_PWR_LVL K" using assms(4) by auto
  have d: "d = m - Suc k" and one: "1 \<le> Suc k" using Suc.hyps(2) by simp_all
  obtain s1 where s1: "psci_set_req_local_pwr_state k c (pd ! k) s = Some s1" "wf_psci K t s1" "frame s s1"
      "non_cpu_nodes s1 = non_cpu_nodes s"
      "\<And>l' c'. 1 \<le> l' \<Longrightarrow> req s1 l' c' = (if l' = k \<and> c' = c then pd ! k else req s l' c')"
    by (rule set_req [of K t s c k "pd ! k"]) (use Suc.prems assms lv in simp_all)
  note a = wf_psci_anc [OF s1(2) assms(2) lv]
  let ?R = "new_req s c k m pd" and ?x = "shallowest K t c (req s1) k"
  let ?pd = "pd[k := ?x]" and ?L = "[Suc k..<m]"
  have x: "?x = shallowest K t c ?R k" by (rule shallowest_cong) (use s1(5) lv km in \<open>simp add: new_req_def\<close>)
  have R: "new_req s1 c (Suc k) m ?pd l c' = ?R l c'" if "1 \<le> l" for l c'
    using s1(5) [OF that] km by (auto simp: new_req_def nth_list_update)
  have pl: "length ?pd = PLAT_MAX_PWR_LVL K + 1" and pk: "?pd ! k = ?x" using Suc.prems(3) lv by simp_all
  have step: "coord_loop K [k..<m] (parent_at t c (k - 1)) c pd s =
      (if ?x = 0 then coord_rest_loop ?L c ?pd s1 else coord_loop K ?L (parent_at t c k) c ?pd s1)"
    using a s1(1) Suc.prems(3) lv get_reqs [OF s1(2) assms(2) lv] shallowest_step [OF s1(2) assms(2) lv]
    by (simp add: upt_step [OF km] nth_opt_def is_local_state_run_def PSCI_LOCAL_STATE_RUN_def)
  have res: "\<exists>pd' s'. coord_loop K [k..<m] (parent_at t c (k - 1)) c pd s = Some (pd', s') \<and> wf_psci K t s' \<and> frame s1 s' \<and>
     non_cpu_nodes s' = non_cpu_nodes s1 \<and> length pd' = length ?pd \<and>
     (\<forall>l. pd' ! l = (if Suc k \<le> l \<and> l < m then coordinated K t c ?R k l else ?pd ! l)) \<and>
     (\<forall>l c'. 1 \<le> l \<longrightarrow> req s' l c' = new_req s1 c (Suc k) m ?pd l c')"
  proof (cases "?x = 0")
    case True
    then have "(if Suc k \<le> l \<and> l < m then coordinated K t c ?R k l else ?pd ! l) =
        (if Suc k \<le> l \<and> l < m then 0 else ?pd ! l)" for l
      using coordinated_run [of K t c ?R k l] x by simp
    then show ?thesis unfolding step if_P [OF True] using coord_rest_loop [OF s1(2) assms(2) one assms(4) pl] by (simp only:)
  next
    case False
    then have "(if Suc k \<le> l \<and> l < m then coordinated K t c ?R k l else ?pd ! l) =
        (if Suc k \<le> l \<and> l < m then coordinated K t c (new_req s1 c (Suc k) m ?pd) (Suc k) l else ?pd ! l)" for l
      using coordinated_Suc [of K t c ?R k l] coordinated_cong [of "Suc k" l "new_req s1 c (Suc k) m ?pd" ?R K t c] x R
      by simp
    moreover have "parent_at t c k = parent_at t c (Suc k - 1)" by simp
    ultimately show ?thesis unfolding step if_not_P [OF False]
      using Suc.hyps(1) [of "Suc k" s1 ?pd, OF d s1(2) one pl] by (simp only:)
  qed
  then obtain pd' s' where s': "coord_loop K [k..<m] (parent_at t c (k - 1)) c pd s = Some (pd', s')" "wf_psci K t s'"
     "frame s1 s'" "non_cpu_nodes s' = non_cpu_nodes s1" "length pd' = length ?pd"
     "\<And>l. pd' ! l = (if Suc k \<le> l \<and> l < m then coordinated K t c ?R k l else ?pd ! l)"
     "\<And>l c'. 1 \<le> l \<Longrightarrow> req s' l c' = new_req s1 c (Suc k) m ?pd l c'"
    by (elim exE conjE) simp
  have "pd' ! l = (if k \<le> l \<and> l < m then coordinated K t c ?R k l else pd ! l)" for l
    using s'(6) [of l] pk x km by (cases "l = k") (auto simp: coordinated_first)
  moreover have "frame s s'" by (rule frame_trans [OF s1(3) s'(3)])
  ultimately show ?case using s'(1,2,4,5,7) s1(4) R by auto
qed

lemma do_state_coordination:
  assumes "wf_psci K t s" "c < PLATFORM_CORE_COUNT K" "e \<le> PLAT_MAX_PWR_LVL K" "length pd = PLAT_MAX_PWR_LVL K + 1"
  shows "\<exists>pd' s'. psci_do_state_coordination K c e pd s = Some (pd', s') \<and> wf_psci K t s' \<and>
     frame (psci_set_cpu_local_state c (pd ! 0) s) s' \<and> length pd' = length pd \<and>
     (\<forall>l. pd' ! l = (if 1 \<le> l \<and> l \<le> e then coordinated K t c (new_req s c 1 (e + 1) pd) 1 l else pd ! l)) \<and>
     (\<forall>l c'. 1 \<le> l \<longrightarrow> req s' l c' = new_req s c 1 (e + 1) pd l c') \<and>
     (\<forall>l. 1 \<le> l \<longrightarrow> l \<le> e \<longrightarrow> nst s' (anc t c l) = pd' ! l) \<and>
     (\<forall>a. a \<notin> anc t c ` {1..e} \<longrightarrow> nst s' a = nst s a)"
proof -
  note p = wf_psci_parent [OF assms(1,2)]
  have m: "e + 1 \<le> PLAT_MAX_PWR_LVL K + 1" and one: "(1::nat) \<le> 1" using assms(3) by simp_all
  obtain pd' s1 where s1: "coord_loop K [1..<e + 1] (parent_at t c (1 - 1)) c pd s = Some (pd', s1)" "wf_psci K t s1"
     "frame s s1" "non_cpu_nodes s1 = non_cpu_nodes s" "length pd' = length pd"
     "\<And>l. pd' ! l = (if 1 \<le> l \<and> l < e + 1 then coordinated K t c (new_req s c 1 (e + 1) pd) 1 l else pd ! l)"
     "\<And>l c'. 1 \<le> l \<Longrightarrow> req s1 l c' = new_req s c 1 (e + 1) pd l c'"
    using coord_loop [OF assms(1,2) one m assms(4)] by (elim exE conjE) simp
  let ?s = "psci_set_cpu_local_state c (pd ! 0) s1"
  have w: "wf_psci K t ?s" using s1(2)
    by (simp add: wf_psci_def shape_def topo_def psci_set_cpu_local_state_def)
  have pl: "length pd' = PLAT_MAX_PWR_LVL K + 1" using s1(5) assms(4) by simp
  obtain s' where s': "set_target_loop [1..<e + 1] (parent_at t c (1 - 1)) pd' ?s = Some s'" "wf_psci K t s'" "frame ?s s'"
     "req_states s' = req_states ?s" "\<And>l. 1 \<le> l \<Longrightarrow> l < e + 1 \<Longrightarrow> nst s' (anc t c l) = pd' ! l"
     "\<And>a. a \<notin> anc t c ` {1..<e + 1} \<Longrightarrow> nst s' a = nst ?s a"
    using set_target_loop [OF w assms(2) one m pl] by (elim exE conjE) simp
  have c: "c < length (cpu_data s1)" "nth_opt (cpu_nodes s1) c = Some (cpu_nodes s ! c)"
    using s1(2,3) p assms(2) by (auto simp: wf_psci_def shape_def frame_def)
  have "pd' ! 0 = pd ! 0" "pd' \<noteq> []" using s1(6) [of 0] pl by auto
  then have "psci_do_state_coordination K c e pd s = Some (pd', s')"
    using s1(1) s'(1) p c pl assms(3)
    by (simp add: psci_do_state_coordination_def psci_set_target_local_pwr_states_def nth_opt_def del: upt_Suc)
  moreover have "frame (psci_set_cpu_local_state c (pd ! 0) s) s'"
    using s1(3) s'(3) by (simp add: frame_def psci_set_cpu_local_state_def)
  moreover have "nst s' a = nst s a" if "a \<notin> anc t c ` {1..e}" for a
    using s'(6) [of a] s1(4) that by (simp add: nst_def psci_set_cpu_local_state_def atLeastLessThanSuc_atLeastAtMost)
  moreover have "req s' l c' = req s1 l c'" for l c' using s'(4) by (simp add: req_def psci_set_cpu_local_state_def)
  ultimately show ?thesis using s1(5,6,7) s'(2,5) by (intro exI [of _ pd'] exI [of _ s']) auto
qed

section \<open>Locks\<close>

definition lock_set :: "nat set \<Rightarrow> nat option \<Rightarrow> nat option list \<Rightarrow> nat option list" where
  "lock_set A v L = map (\<lambda>i. if i \<in> A then v else L ! i) [0..<length L]"

lemma length_lock_set [simp]: "length (lock_set A v L) = length L"
  by (simp add: lock_set_def)

lemma nth_lock_set [simp]: "i < length L \<Longrightarrow> lock_set A v L ! i = (if i \<in> A then v else L ! i)"
  by (simp add: lock_set_def)

lemma lock_set_empty [simp]: "lock_set {} v L = L"
  by (rule nth_equalityI) simp_all

lemma lock_set_update: "lock_set A v (L[i := v]) = lock_set (insert i A) v L"
  by (rule nth_equalityI) (auto simp: nth_list_update)

lemma lock_set_release: "set L \<subseteq> {None} \<Longrightarrow> lock_set A None (lock_set A v L) = L"
  by (rule nth_equalityI) (auto simp: subset_iff in_set_conv_nth)

lemma wf_psci_lock [simp]: "length L = length (lock_holder s) \<Longrightarrow> wf_psci K t (s\<lparr>lock_holder := L\<rparr>) = wf_psci K t s"
  by (simp add: wf_psci_def shape_def topo_def)

lemma acquire_loop:
  assumes "wf_psci K t s" "c < PLATFORM_CORE_COUNT K" "1 \<le> k" "k + n \<le> PLAT_MAX_PWR_LVL K + 1"
    "\<And>l. k \<le> l \<Longrightarrow> l < k + n \<Longrightarrow> lock_holder s ! anc t c l = None"
  shows "acquire_loop n (parent_at t c (k - 1)) c s =
    Some (s\<lparr>lock_holder := lock_set (anc t c ` {k..<k + n}) (Some c) (lock_holder s)\<rparr>)"
  using assms(1,3-5)
proof (induction n arbitrary: k s)
  case (Suc n)
  then have lv: "1 \<le> k" "k \<le> PLAT_MAX_PWR_LVL K" by auto
  note a = wf_psci_anc [OF Suc.prems(1) assms(2) lv]
  let ?L = "(lock_holder s)[anc t c k := Some c]" and ?A = "anc t c ` {Suc k..<Suc k + n}"
  have len: "anc t c k < length (lock_holder s)" using Suc.prems(1) a(2) by (simp add: wf_psci_def shape_def)
  have free: "lock_holder s ! anc t c k = None" using Suc.prems(4) [of k] by simp
  have "?L ! anc t c l = None" if "Suc k \<le> l" "l < Suc k + n" for l
  proof -
    have "k = l" if "anc t c k = anc t c l"
      by (rule anc_inj [of K t c c]) (use Suc.prems assms(2) lv that \<open>Suc k \<le> l\<close> \<open>l < Suc k + n\<close> in \<open>auto simp: wf_psci_def\<close>)
    then show ?thesis using Suc.prems(4) [of l] that by (cases "anc t c k = anc t c l") simp_all
  qed
  then have "acquire_loop n (parent_at t c (Suc k - 1)) c (s\<lparr>lock_holder := ?L\<rparr>) =
      Some (s\<lparr>lock_holder := lock_set ?A (Some c) ?L\<rparr>)"
    using Suc.IH [of "s\<lparr>lock_holder := ?L\<rparr>" "Suc k"] Suc.prems by simp
  moreover have "insert (anc t c k) ?A = anc t c ` {k..<k + Suc n}"
  proof -
    have "{k..<k + Suc n} = insert k {Suc k..<Suc k + n}" by auto
    then show ?thesis by simp
  qed
  ultimately show ?case using a len free
    by (simp add: psci_lock_get_def nth_opt_def lock_set_update)
qed simp

lemma release_loop:
  assumes "distinct ps" "\<And>p. p \<in> set ps \<Longrightarrow> p < length (non_cpu_nodes s) \<and>
      unat (lock_index (non_cpu_nodes s ! p)) = p \<and> p < length (lock_holder s) \<and> lock_holder s ! p = Some c"
  shows "release_loop ps c s = Some (s\<lparr>lock_holder := lock_set (set ps) None (lock_holder s)\<rparr>)"
  using assms
proof (induction ps arbitrary: s)
  case (Cons p ps)
  let ?s = "s\<lparr>lock_holder := (lock_holder s)[p := None]\<rparr>"
  have p: "p < length (non_cpu_nodes s)" "unat (lock_index (non_cpu_nodes s ! p)) = p" "p < length (lock_holder s)"
    "lock_holder s ! p = Some c"
    using Cons.prems(2) [of p] by simp_all
  have "release_loop ps c ?s = Some (?s\<lparr>lock_holder := lock_set (set ps) None (lock_holder ?s)\<rparr>)"
  proof (rule Cons.IH)
    show "distinct ps" using Cons.prems(1) by simp
    show "q < length (non_cpu_nodes ?s) \<and> unat (lock_index (non_cpu_nodes ?s ! q)) = q \<and> q < length (lock_holder ?s) \<and>
        lock_holder ?s ! q = Some c" if "q \<in> set ps" for q
      using Cons.prems(1) Cons.prems(2) [of q] that by (cases "q = p") simp_all
  qed
  then show ?case using p by (simp add: psci_lock_release_def nth_opt_def lock_set_update)
qed simp

lemma anc_distinct:
  assumes "wf_topo K t" "c < PLATFORM_CORE_COUNT K" "e \<le> PLAT_MAX_PWR_LVL K"
  shows "distinct (map (anc t c) [1..<1 + e])"
  using anc_inj [OF assms(1,2,2)] assms(3) by (auto simp: distinct_map inj_on_def)

text \<open>The ancestors a processor locks for an operation up to level \<open>e\<close>.\<close>

definition lock_range :: "psci_topo \<Rightarrow> nat \<Rightarrow> nat \<Rightarrow> nat set" where
  "lock_range t c e = anc t c ` {1..<1 + e}"

lemma psci_acquire:
  assumes "wf_psci K t s" "c < PLATFORM_CORE_COUNT K" "e \<le> PLAT_MAX_PWR_LVL K" "set (lock_holder s) \<subseteq> {None}"
  shows "psci_acquire_pwr_domain_locks e c s =
    Some (s\<lparr>lock_holder := lock_set (lock_range t c e) (Some c) (lock_holder s)\<rparr>)"
proof -
  have "lock_holder s ! anc t c l = None" if "1 \<le> l" "l < 1 + e" for l
  proof -
    have "anc t c l < length (lock_holder s)"
      using wf_psci_anc(2) [OF assms(1,2), of l] that assms(1,3) by (simp add: wf_psci_def shape_def)
    then show ?thesis using assms(4) nth_mem by blast
  qed
  then show ?thesis using acquire_loop [OF assms(1,2), of 1 e] wf_psci_parent [OF assms(1,2)] assms(3)
    by (simp add: psci_acquire_pwr_domain_locks_def lock_range_def)
qed

lemma psci_release:
  assumes "wf_psci K t s" "c < PLATFORM_CORE_COUNT K" "e \<le> PLAT_MAX_PWR_LVL K"
    "lock_holder s = lock_set (lock_range t c e) (Some c) L" "set L \<subseteq> {None}"
  shows "psci_release_pwr_domain_locks e c s = Some (s\<lparr>lock_holder := L\<rparr>)"
proof -
  have w: "wf_topo K t" using assms(1) by (simp add: wf_psci_def)
  have ps: "psci_get_parent_pwr_domain_nodes c e s = Some (map (anc t c) [1..<1 + e])"
    using parent_nodes_loop [OF assms(1,2), of 1 e] wf_psci_parent [OF assms(1,2)] assms(3)
    by (simp add: psci_get_parent_pwr_domain_nodes_def)
  have "release_loop (rev (map (anc t c) [1..<1 + e])) c s =
      Some (s\<lparr>lock_holder := lock_set (set (rev (map (anc t c) [1..<1 + e]))) None (lock_holder s)\<rparr>)"
  proof (rule release_loop)
    show "distinct (rev (map (anc t c) [1..<1 + e]))" using anc_distinct [OF w assms(2,3)] by (simp only: distinct_rev)
    fix p assume "p \<in> set (rev (map (anc t c) [1..<1 + e]))"
    then obtain l where l: "1 \<le> l" "l \<le> e" "p = anc t c l" by auto
    then have r: "p \<in> lock_range t c e" by (auto simp: lock_range_def)
    have lm: "l \<le> PLAT_MAX_PWR_LVL K" using l assms(3) by simp
    have "length L = length (non_cpu_nodes s)" using assms(1) by (simp add: wf_psci_def shape_def assms(4))
    then show "p < length (non_cpu_nodes s) \<and> unat (lock_index (non_cpu_nodes s ! p)) = p \<and> p < length (lock_holder s) \<and>
        lock_holder s ! p = Some c"
      using wf_psci_anc [OF assms(1,2) l(1) lm] r unfolding l(3) assms(4) by simp
  qed
  moreover have "set (rev (map (anc t c) [1..<1 + e])) = lock_range t c e" by (simp add: lock_range_def del: upt_Suc)
  ultimately show ?thesis using ps lock_set_release [OF assms(5)] assms(4)
    by (simp add: psci_release_pwr_domain_locks_def del: upt_Suc)
qed

end
