(* ===== verification/Psci_Inv.thy ===== *)
theory Psci_Inv
  imports Psci_Tree
begin

text \<open>
  The processors of a system under the power state coordination library: which of them run, wait or
  are powered down, the steps they take (a call, a wake-up, a warm boot), and the invariant that all
  steps keep: a domain runs whenever one of its processors does, the locks are free between the
  steps, and a processor that is not running finds on its return what the finishers expect. What the
  library needs of a platform port is the locale at the end.
\<close>

section \<open>The system\<close>

text \<open>
  What a processor is doing between calls: running, waiting for an interrupt in a standby state up to
  a level, or powered down (turned off, being turned on, or suspended).
\<close>

datatype cpu_mode = Running | Waiting nat | Powered_Down

fun mode_after :: "'a psci_result \<Rightarrow> cpu_mode option" where
  "mode_after (Ret x) = Some Running"
| "mode_after (Standby l) = Some (Waiting l)"
| "mode_after Down = Some Powered_Down"
| "mode_after System_Off = None"
| "mode_after System_Reset = None"

text \<open>
  A running processor makes a call with any arguments; a waiting one is woken by an interrupt; one
  that is powered down enters the firmware at the warm boot entry.
\<close>

inductive psci_step ::
  "psci_config \<Rightarrow> plat_psci_ops \<Rightarrow> spd_pm_ops option \<Rightarrow> psci_state \<times> cpu_mode list \<Rightarrow> psci_state \<times> cpu_mode list \<Rightarrow> bool"
  for K ops spd
where
  smc: "c < length ms \<Longrightarrow> ms ! c = Running \<Longrightarrow> env_spd env = spd \<Longrightarrow>
        length (env_stack env) = PLAT_MAX_PWR_LVL K + 1 \<Longrightarrow>
        psci_smc_handler K ops env c fid x1 x2 x3 flags s = Some (r, s') \<Longrightarrow> mode_after r = Some m \<Longrightarrow>
        psci_step K ops spd (s, ms) (s', ms[c := m])"
| wake: "c < length ms \<Longrightarrow> ms ! c = Waiting e \<Longrightarrow> psci_suspend_to_standby_finisher K c e s = Some s' \<Longrightarrow>
        psci_step K ops spd (s, ms) (s', ms[c := Running])"
| boot: "c < length ms \<Longrightarrow> ms ! c = Powered_Down \<Longrightarrow> psci_warmboot_entrypoint K spd c s = Some s' \<Longrightarrow>
        psci_step K ops spd (s, ms) (s', ms[c := Running])"

section \<open>The invariant\<close>

text \<open>A domain runs whenever one of its processors requests it to.\<close>

definition dom_ok :: "psci_config \<Rightarrow> psci_topo \<Rightarrow> psci_state \<Rightarrow> bool" where
  "dom_ok K t s \<longleftrightarrow>
     (\<forall>c l. c < PLATFORM_CORE_COUNT K \<longrightarrow> 1 \<le> l \<longrightarrow> l \<le> PLAT_MAX_PWR_LVL K \<longrightarrow> req s l c = 0 \<longrightarrow> nst s (anc t c l) = 0)"

definition ptr_ok :: "psci_state \<Rightarrow> bool" where
  "ptr_ok s \<longleftrightarrow> (\<forall>c\<in>set (cpu_regs s). cpu_context_ptr c NON_SECURE)"

definition base_inv :: "psci_config \<Rightarrow> psci_topo \<Rightarrow> psci_state \<Rightarrow> bool" where
  "base_inv K t s \<longleftrightarrow> wf_psci K t s \<and> set (lock_holder s) \<subseteq> {None} \<and> ptr_ok s \<and> dom_ok K t s"

definition runs_above :: "psci_config \<Rightarrow> psci_state \<Rightarrow> nat \<Rightarrow> nat \<Rightarrow> bool" where
  "runs_above K s c e \<longleftrightarrow> (\<forall>l. e < l \<longrightarrow> l \<le> PLAT_MAX_PWR_LVL K \<longrightarrow> req s l c = 0)"

fun cpu_ok :: "psci_config \<Rightarrow> psci_state \<Rightarrow> nat \<Rightarrow> cpu_mode \<Rightarrow> bool" where
  "cpu_ok K s c Running \<longleftrightarrow> aff_info_state (cpu_data s ! c) = AFF_STATE_ON \<and> local_state (cpu_data s ! c) = 0 \<and>
     unat (target_pwrlvl (cpu_data s ! c)) = PSCI_INVALID_PWR_LVL K \<and> runs_above K s c 0"
| "cpu_ok K s c (Waiting e) \<longleftrightarrow> aff_info_state (cpu_data s ! c) = AFF_STATE_ON \<and>
     unat (target_pwrlvl (cpu_data s ! c)) = PSCI_INVALID_PWR_LVL K \<and> e \<le> PLAT_MAX_PWR_LVL K \<and> runs_above K s c e"
| "cpu_ok K s c Powered_Down \<longleftrightarrow>
     (if aff_info_state (cpu_data s ! c) = AFF_STATE_ON
      then unat (target_pwrlvl (cpu_data s ! c)) \<le> PLAT_MAX_PWR_LVL K \<and> is_local_state_off K (local_state (cpu_data s ! c)) \<and>
           runs_above K s c (unat (target_pwrlvl (cpu_data s ! c)))
      else unat (target_pwrlvl (cpu_data s ! c)) = PSCI_INVALID_PWR_LVL K)"

definition psci_inv :: "psci_config \<Rightarrow> psci_topo \<Rightarrow> psci_state \<times> cpu_mode list \<Rightarrow> bool" where
  "psci_inv K t x \<longleftrightarrow> base_inv K t (fst x) \<and> length (snd x) = PLATFORM_CORE_COUNT K \<and>
     (\<forall>c<PLATFORM_CORE_COUNT K. cpu_ok K (fst x) c (snd x ! c))"

lemma cpu_ok_cong: "cpu_data s' ! c = cpu_data s ! c \<Longrightarrow> (\<And>l. 1 \<le> l \<Longrightarrow> req s' l c = req s l c) \<Longrightarrow> cpu_ok K s' c m = cpu_ok K s c m"
  by (cases m) (auto simp: runs_above_def)

lemma psci_inv_update:
  assumes "psci_inv K t (s, ms)" "base_inv K t s'" "c < PLATFORM_CORE_COUNT K" "cpu_ok K s' c m"
    "\<And>i. i < PLATFORM_CORE_COUNT K \<Longrightarrow> i \<noteq> c \<Longrightarrow> cpu_data s' ! i = cpu_data s ! i"
    "\<And>l i. 1 \<le> l \<Longrightarrow> i \<noteq> c \<Longrightarrow> req s' l i = req s l i"
  shows "psci_inv K t (s', ms[c := m])"
proof -
  have "cpu_ok K s' i (ms[c := m] ! i)" if "i < PLATFORM_CORE_COUNT K" for i
  proof (cases "i = c")
    case False
    then have "cpu_ok K s' i (ms ! i) = cpu_ok K s i (ms ! i)" using assms(5,6) that by (intro cpu_ok_cong) simp_all
    then show ?thesis using False assms(1) that by (simp add: psci_inv_def)
  qed (use assms in \<open>simp add: psci_inv_def\<close>)
  then show ?thesis using assms(1,2) by (simp add: psci_inv_def)
qed

lemma base_inv_frame:
  assumes "base_inv K t s" "req_states s' = req_states s" "non_cpu_nodes s' = non_cpu_nodes s"
    "lock_holder s' = lock_holder s" "map parent_node (cpu_nodes s') = map parent_node (cpu_nodes s)"
    "length (cpu_data s') = length (cpu_data s)" "length (cpu_regs s') = length (cpu_regs s)" "ptr_ok s'"
  shows "base_inv K t s'"
proof -
  have "length (cpu_nodes s') = length (cpu_nodes s)" using assms(5) map_eq_imp_length_eq by blast
  then have "shape K s' = shape K s" "topo s' = topo s" using assms by (simp_all add: shape_def topo_def)
  then show ?thesis using assms by (simp add: base_inv_def wf_psci_def dom_ok_def req_def nst_def)
qed

lemma psci_inv_len: "psci_inv K t (s, ms) \<Longrightarrow> length (cpu_data s) = PLATFORM_CORE_COUNT K \<and>
  length (cpu_regs s) = PLATFORM_CORE_COUNT K \<and> length (cpu_nodes s) = PLATFORM_CORE_COUNT K"
  by (simp add: psci_inv_def base_inv_def wf_psci_def shape_def)

section \<open>Going down\<close>

lemma coordination_dom_ok:
  assumes "wf_psci K t s" "dom_ok K t s" "c < PLATFORM_CORE_COUNT K" "e \<le> PLAT_MAX_PWR_LVL K"
    "\<And>l. 1 \<le> l \<Longrightarrow> l \<le> e \<Longrightarrow> nst s' (anc t c l) = coordinated K t c (req s') 1 l"
    "\<And>l i. 1 \<le> l \<Longrightarrow> req s' l i = new_req s c 1 (e + 1) pd l i"
    "\<And>a. a \<notin> anc t c ` {1..e} \<Longrightarrow> nst s' a = nst s a"
  shows "dom_ok K t s'"
  unfolding dom_ok_def
proof (intro allI impI)
  fix i l assume i: "i < PLATFORM_CORE_COUNT K" and l: "1 \<le> l" "l \<le> PLAT_MAX_PWR_LVL K" and r: "req s' l i = 0"
  have w: "wf_topo K t" using assms(1) by (simp add: wf_psci_def)
  show "nst s' (anc t i l) = 0"
  proof (cases "anc t i l \<in> anc t c ` {1..e}")
    case True
    then obtain l' where l': "1 \<le> l'" "l' \<le> e" "anc t i l = anc t c l'" by auto
    have "l = l'" by (rule anc_inj [OF w i assms(3) l l'(1) _ l'(3)]) (use l' assms(4) in simp)
    then have a: "anc t c l = anc t i l" "l \<le> e" using l' by simp_all
    have fin: "finite (insert (PLAT_MAX_OFF_STATE K) (req s' l ` dom_cpus t (anc t c l)))" by (simp add: dom_cpus_def)
    have "i \<in> dom_cpus t (anc t c l)" using wf_topo_anc(4) [OF w i l] a(1) by simp
    then have "shallowest K t c (req s') l \<le> 0" unfolding shallowest_def
      using Min_le [OF fin, of 0] r by (metis image_eqI insertI2)
    then show ?thesis using assms(5) [OF l(1) a(2)] a(1) by (simp add: coordinated_def)
  next
    case False
    then have "\<not> (i = c \<and> l \<le> e)" using l by auto
    then have "req s l i = 0" using assms(6) [OF l(1), of i] r by (auto simp: new_req_def)
    then show ?thesis using assms(2,7) False i l by (simp add: dom_ok_def)
  qed
qed

lemma coordinate_locked:
  assumes "base_inv K t s" "c < PLATFORM_CORE_COUNT K" "e \<le> PLAT_MAX_PWR_LVL K" "length pd = PLAT_MAX_PWR_LVL K + 1"
  defines "L \<equiv> lock_set (lock_range t c e) (Some c) (lock_holder s)"
  shows "\<exists>pd' s'. psci_do_state_coordination K c e pd (s\<lparr>lock_holder := L\<rparr>) = Some (pd', s') \<and> length pd' = length pd \<and>
     lock_holder s' = L \<and> base_inv K t (s'\<lparr>lock_holder := lock_holder s\<rparr>) \<and>
     cpu_data s' = (cpu_data s)[c := (cpu_data s ! c)\<lparr>local_state := pd ! 0\<rparr>] \<and> cpu_regs s' = cpu_regs s \<and>
     (\<forall>l i. 1 \<le> l \<longrightarrow> req s' l i = new_req s c 1 (e + 1) pd l i)"
proof -
  let ?s = "s\<lparr>lock_holder := L\<rparr>"
  have w: "wf_psci K t ?s" using assms(1) by (simp add: base_inv_def L_def)
  have rq: "new_req ?s = new_req s" by (intro ext) (simp add: new_req_def req_def)
  obtain pd' s' where s': "psci_do_state_coordination K c e pd ?s = Some (pd', s')" "wf_psci K t s'"
     "frame (psci_set_cpu_local_state c (pd ! 0) ?s) s'" "length pd' = length pd"
     "\<And>l. pd' ! l = (if 1 \<le> l \<and> l \<le> e then coordinated K t c (new_req s c 1 (e + 1) pd) 1 l else pd ! l)"
     "\<And>l i. 1 \<le> l \<Longrightarrow> req s' l i = new_req s c 1 (e + 1) pd l i"
     "\<And>l. 1 \<le> l \<Longrightarrow> l \<le> e \<Longrightarrow> nst s' (anc t c l) = pd' ! l"
     "\<And>a. a \<notin> anc t c ` {1..e} \<Longrightarrow> nst s' a = nst ?s a"
    using do_state_coordination [OF w assms(2-4)] unfolding rq by (elim exE conjE) simp
  have "coordinated K t c (req s') 1 l = coordinated K t c (new_req s c 1 (e + 1) pd) 1 l" if "1 \<le> l" for l
    by (rule coordinated_cong) (use s'(6) that in simp_all)
  then have "dom_ok K t s'"
    using assms(1-3) s' by (intro coordination_dom_ok [of K t s c e s' pd]) (simp_all add: base_inv_def nst_def)
  then have "dom_ok K t (s'\<lparr>lock_holder := lock_holder s\<rparr>)" by (simp add: dom_ok_def req_def nst_def)
  moreover have fr: "cpu_data s' = (cpu_data s)[c := (cpu_data s ! c)\<lparr>local_state := pd ! 0\<rparr>]" "cpu_regs s' = cpu_regs s"
      "lock_holder s' = L"
    using s'(3) by (simp_all add: frame_def psci_set_cpu_local_state_def)
  ultimately show ?thesis using assms(1) s'(1,2,4,6)
    by (simp add: base_inv_def ptr_ok_def L_def)
qed

text \<open>What a call must leave behind, by its outcome.\<close>

definition post :: "psci_config \<Rightarrow> psci_topo \<Rightarrow> cpu_mode list \<Rightarrow> nat \<Rightarrow> 'a psci_result \<Rightarrow> psci_state \<Rightarrow> bool" where
  "post K t ms c r s' \<longleftrightarrow> (\<forall>m. mode_after r = Some m \<longrightarrow> psci_inv K t (s', ms[c := m]))"

lemma mode_after_map [simp]: "mode_after (map_psci_result f r) = mode_after r"
  by (cases r) simp_all

lemma post_map [simp]: "post K t ms c (map_psci_result f r) s' = post K t ms c r s'"
  by (simp add: post_def)

lemma post_same: "psci_inv K t (s, ms) \<Longrightarrow> ms ! c = Running \<Longrightarrow> post K t ms c (Ret x) s"
  by (metis list_update_id mode_after.simps(1) option.inject post_def)

lemma release_locked:
  assumes "base_inv K t s" "c < PLATFORM_CORE_COUNT K" "e \<le> PLAT_MAX_PWR_LVL K" "wf_psci K t s'"
    "lock_holder s' = lock_set (lock_range t c e) (Some c) (lock_holder s)"
  shows "psci_release_pwr_domain_locks e c s' = Some (s'\<lparr>lock_holder := lock_holder s\<rparr>)"
  by (rule psci_release [OF assms(4,2,3,5)]) (use assms(1) in \<open>simp add: base_inv_def\<close>)

lemma locked_wf:
  assumes "base_inv K t (s'\<lparr>lock_holder := L\<rparr>)" "length (lock_holder s') = length L"
  shows "wf_psci K t s'"
  using assms wf_psci_lock [of L s' K t] by (simp add: base_inv_def)

lemma psci_do_cpu_off_inv:
  assumes "psci_inv K t (s, ms)" "c < PLATFORM_CORE_COUNT K" "ms ! c = Running"
    "psci_do_cpu_off K ops spd scp c (PLAT_MAX_PWR_LVL K) s = Some (r, si, s')"
  shows "post K t ms c r s'"
proof -
  let ?e = "PLAT_MAX_PWR_LVL K" and ?pd = "psci_set_power_off_state K"
  let ?L = "lock_set (lock_range t c ?e) (Some c) (lock_holder s)"
  have b: "base_inv K t s" and ok: "cpu_ok K s c Running" using assms(1-3) by (auto simp: psci_inv_def)
  have w: "wf_psci K t s" "set (lock_holder s) \<subseteq> {None}" using b by (simp_all add: base_inv_def)
  have acq: "psci_acquire_pwr_domain_locks ?e c s = Some (s\<lparr>lock_holder := ?L\<rparr>)"
    by (rule psci_acquire [OF w(1) assms(2) _ w(2)]) simp
  have rel: "psci_release_pwr_domain_locks ?e c (s\<lparr>lock_holder := ?L\<rparr>) = Some s"
    using release_locked [OF b assms(2), of ?e "s\<lparr>lock_holder := ?L\<rparr>"] w by simp
  have pl: "length ?pd = ?e + 1" by (simp add: psci_set_power_off_state_def)
  obtain pd' s1 where s1: "psci_do_state_coordination K c ?e ?pd (s\<lparr>lock_holder := ?L\<rparr>) = Some (pd', s1)"
     "lock_holder s1 = ?L" "base_inv K t (s1\<lparr>lock_holder := lock_holder s\<rparr>)"
     "cpu_data s1 = (cpu_data s)[c := (cpu_data s ! c)\<lparr>local_state := ?pd ! 0\<rparr>]"
     "\<And>l i. 1 \<le> l \<Longrightarrow> req s1 l i = new_req s c 1 (?e + 1) ?pd l i"
    using coordinate_locked [OF b assms(2) order_refl pl] by (elim exE conjE) simp
  have rel1: "psci_release_pwr_domain_locks ?e c s1 = Some (s1\<lparr>lock_holder := lock_holder s\<rparr>)"
    by (rule release_locked [OF b assms(2) _ _ s1(2)]) (use locked_wf [OF s1(3)] s1(2) in simp_all)
  let ?s = "psci_set_aff_info_state_by_idx c AFF_STATE_OFF (s1\<lparr>lock_holder := lock_holder s\<rparr>)"
  consider rc where "r = Ret rc" "s' = s" | "r = Down" "s' = ?s"
    using assms(4) acq rel s1(1) rel1 by (auto simp: psci_do_cpu_off_def Let_def split: if_splits option.splits)
  then show ?thesis
  proof cases
    case 1
    then show ?thesis using post_same assms(1,3) by simp
  next
    case 2
    have len: "c < length (cpu_data s)" using psci_inv_len assms(1,2) by simp
    have "base_inv K t ?s"
      by (rule base_inv_frame [OF s1(3)]) (use s1(3) in \<open>simp_all add: psci_set_aff_info_state_by_idx_def base_inv_def ptr_ok_def\<close>)
    then have "psci_inv K t (?s, ms[c := Powered_Down])"
      by (rule psci_inv_update [OF assms(1) _ assms(2)])
         (use s1(4,5) ok len in \<open>simp_all add: psci_set_aff_info_state_by_idx_def new_req_def req_def\<close>)
    then show ?thesis using 2 by (simp add: post_def)
  qed
qed

lemma ptr_ok_update:
  "ptr_ok s \<Longrightarrow> cpu_context_ptr c NON_SECURE \<Longrightarrow> ptr_ok (s\<lparr>cpu_regs := (cpu_regs s)[i := c]\<rparr>)"
  using set_update_subset_insert [of "cpu_regs s" i c] by (auto simp: ptr_ok_def)

lemma cm_init_by_index:
  assumes "cm_init_context_by_index ops my i ep s = Some s'" "ptr_ok s"
  shows "\<exists>c. s' = s\<lparr>cpu_regs := (cpu_regs s)[i := c]\<rparr> \<and> ptr_ok s'"
proof -
  obtain c where c: "s' = s\<lparr>cpu_regs := (cpu_regs s)[i := c]\<rparr>" "i < length (cpu_regs s)"
      "cpu_context_ptr c = cpu_context_ptr (cpu_regs s ! i)"
    using assms(1) by (auto simp: cm_init_context_by_index_def bind_eq_Some_conv nth_opt_eq_Some)
  then have "cpu_context_ptr c NON_SECURE" using assms(2) by (simp add: ptr_ok_def)
  then show ?thesis using c(1) ptr_ok_update [OF assms(2)] by blast
qed

lemma find_level_down_le: "find_level_down P pd x n \<noteq> x \<Longrightarrow> find_level_down P pd x n < n"
  by (induction n) (auto split: if_splits)

lemma psci_cpu_suspend_start_inv:
  assumes "psci_inv K t (s, ms)" "c < PLATFORM_CORE_COUNT K" "ms ! c = Running" "e \<le> PLAT_MAX_PWR_LVL K"
    "length pd = PLAT_MAX_PWR_LVL K + 1" "down \<Longrightarrow> is_local_state_off K (pd ! 0)"
    "psci_cpu_suspend_start K ops isr c ep e pd down s = Some (r, si, s')"
  shows "post K t ms c r s'"
proof -
  let ?L = "lock_set (lock_range t c e) (Some c) (lock_holder s)"
  have b: "base_inv K t s" and ok: "cpu_ok K s c Running" using assms(1-3) by (auto simp: psci_inv_def)
  have w: "wf_psci K t s" "set (lock_holder s) \<subseteq> {None}" using b by (simp_all add: base_inv_def)
  have acq: "psci_acquire_pwr_domain_locks e c s = Some (s\<lparr>lock_holder := ?L\<rparr>)"
    by (rule psci_acquire [OF w(1) assms(2,4) w(2)])
  have rel: "psci_release_pwr_domain_locks e c (s\<lparr>lock_holder := ?L\<rparr>) = Some s"
    using release_locked [OF b assms(2,4), of "s\<lparr>lock_holder := ?L\<rparr>"] w by simp
  obtain pd' s1 where s1: "psci_do_state_coordination K c e pd (s\<lparr>lock_holder := ?L\<rparr>) = Some (pd', s1)"
     "lock_holder s1 = ?L" "base_inv K t (s1\<lparr>lock_holder := lock_holder s\<rparr>)"
     "cpu_data s1 = (cpu_data s)[c := (cpu_data s ! c)\<lparr>local_state := pd ! 0\<rparr>]"
     "\<And>l i. 1 \<le> l \<Longrightarrow> req s1 l i = new_req s c 1 (e + 1) pd l i"
    using coordinate_locked [OF b assms(2,4,5)] by (elim exE conjE) simp
  have len: "c < length (cpu_data s)" using psci_inv_len assms(1,2) by simp
  have wf1: "wf_psci K t s1" by (rule locked_wf [OF s1(3)]) (simp add: s1(2))
  have runs: "runs_above K (s1\<lparr>lock_holder := lock_holder s\<rparr>) c e"
    using ok s1(5) by (auto simp: runs_above_def new_req_def req_def)
  consider "r = Ret ()" "s' = s"
    | s2 where "down" "r = Down" "(\<exists>x. psci_suspend_to_pwrdown_start ops c e x s1 = Some s2)"
        "psci_release_pwr_domain_locks e c s2 = Some s'"
    | "\<not> down" "r = Standby e" "psci_release_pwr_domain_locks e c s1 = Some s'"
    using assms(7) acq rel s1(1)
    by (auto simp: psci_cpu_suspend_start_def bind_eq_Some_conv split: if_splits)
  then show ?thesis
  proof cases
    case 1
    then show ?thesis using post_same assms(1,3) by simp
  next
    case 2
    have ptr: "ptr_ok (psci_set_suspend_pwrlvl c e s1)"
      using s1(3) by (simp add: base_inv_def ptr_ok_def psci_set_suspend_pwrlvl_def)
    obtain y where y: "cm_init_context_by_index ops c c y (psci_set_suspend_pwrlvl c e s1) = Some s2"
      using 2(3) by (auto simp: psci_suspend_to_pwrdown_start_def)
    obtain z where z: "s2 = (psci_set_suspend_pwrlvl c e s1)\<lparr>cpu_regs := (cpu_regs (psci_set_suspend_pwrlvl c e s1))[c := z]\<rparr>"
        "ptr_ok s2"
      using cm_init_by_index [OF y ptr] by blast
    define x where "x = (cpu_regs s1)[c := z]"
    have x: "s2 = (psci_set_suspend_pwrlvl c e s1)\<lparr>cpu_regs := x\<rparr>" "length x = length (cpu_regs s1)" "ptr_ok s2"
      using z by (simp_all add: x_def psci_set_suspend_pwrlvl_def)
    let ?s = "s2\<lparr>lock_holder := lock_holder s\<rparr>"
    have bs: "base_inv K t ?s"
      by (rule base_inv_frame [OF s1(3)]) (use x in \<open>simp_all add: psci_set_suspend_pwrlvl_def ptr_ok_def\<close>)
    have l2: "lock_holder s2 = ?L" using x(1) s1(2) by (simp add: psci_set_suspend_pwrlvl_def)
    have "s' = ?s" using release_locked [OF b assms(2,4) locked_wf [OF bs] l2] l2 2(4) by simp
    moreover have "e \<le> 3" using w(1) assms(4) by (simp add: wf_psci_def wf_topo_def)
    then have "unat (of_nat e :: u8) = e" by (simp add: unat_of_nat)
    then have "psci_inv K t (?s, ms[c := Powered_Down])"
      by (intro psci_inv_update [OF assms(1) bs assms(2)])
         (use s1(4,5) ok len x(1) runs assms(4,6) 2(1) in
           \<open>simp_all add: psci_set_suspend_pwrlvl_def new_req_def req_def runs_above_def\<close>)
    ultimately show ?thesis using 2(2) by (simp add: post_def)
  next
    case 3
    have "s' = s1\<lparr>lock_holder := lock_holder s\<rparr>" using release_locked [OF b assms(2,4) wf1 s1(2)] 3(3) by simp
    moreover have "psci_inv K t (s1\<lparr>lock_holder := lock_holder s\<rparr>, ms[c := Waiting e])"
      by (rule psci_inv_update [OF assms(1) s1(3) assms(2)])
         (use s1(4,5) ok len runs assms(4) in \<open>simp_all add: new_req_def req_def\<close>)
    ultimately show ?thesis using 3(2) by (simp add: post_def)
  qed
qed

section \<open>Coming back\<close>

lemma to_run:
  assumes "wf_psci K t s" "c < PLATFORM_CORE_COUNT K" "e \<le> PLAT_MAX_PWR_LVL K"
  shows "\<exists>s'. psci_set_pwr_domains_to_run c e s = Some s' \<and> wf_psci K t s' \<and> lock_holder s' = lock_holder s \<and>
     cpu_regs s' = cpu_regs s \<and> cpu_nodes s' = cpu_nodes s \<and> psci_caps s' = psci_caps s \<and>
     cpu_data s' = (cpu_data s)[c := (cpu_data s ! c)\<lparr>aff_info_state := AFF_STATE_ON, local_state := 0\<rparr>] \<and>
     (\<forall>l i. 1 \<le> l \<longrightarrow> req s' l i = (if l \<le> e \<and> i = c then 0 else req s l i)) \<and>
     (\<forall>a. nst s' a = (if a \<in> anc t c ` {1..e} then 0 else nst s a))"
proof -
  have m: "e + 1 \<le> PLAT_MAX_PWR_LVL K + 1" and one: "(1::nat) \<le> 1" using assms(3) by simp_all
  obtain s1 where s1: "to_run_loop [1..<e + 1] (parent_at t c (1 - 1)) c s = Some s1" "wf_psci K t s1" "frame s s1"
     "\<And>l i. 1 \<le> l \<Longrightarrow> req s1 l i = (if 1 \<le> l \<and> l < e + 1 \<and> i = c then 0 else req s l i)"
     "\<And>a. nst s1 a = (if a \<in> anc t c ` {1..<e + 1} then 0 else nst s a)"
    using to_run_loop [OF assms(1,2) one m] by (elim exE conjE) simp
  let ?s = "psci_set_cpu_local_state c PSCI_LOCAL_STATE_RUN (psci_set_aff_info_state_by_idx c AFF_STATE_ON s1)"
  have c: "c < length (cpu_data s1)" using s1(2) assms(2) by (simp add: wf_psci_def shape_def)
  have "psci_set_pwr_domains_to_run c e s = Some ?s"
    using s1(1) c wf_psci_parent [OF assms(1,2)] by (simp add: psci_set_pwr_domains_to_run_def del: upt_Suc)
  moreover have "wf_psci K t ?s" using s1(2)
    by (simp add: wf_psci_def shape_def topo_def psci_set_cpu_local_state_def psci_set_aff_info_state_by_idx_def)
  moreover have "req ?s l i = (if l \<le> e \<and> i = c then 0 else req s l i)" if "1 \<le> l" for l i
    using s1(4) [OF that] that by (auto simp: req_def psci_set_cpu_local_state_def psci_set_aff_info_state_by_idx_def)
  moreover have "nst ?s a = (if a \<in> anc t c ` {1..e} then 0 else nst s a)" for a
    using s1(5) [of a]
    by (simp add: nst_def psci_set_cpu_local_state_def psci_set_aff_info_state_by_idx_def atLeastLessThanSuc_atLeastAtMost)
  ultimately show ?thesis using s1(3) c
    by (intro exI [of _ ?s])
       (simp add: frame_def psci_set_cpu_local_state_def psci_set_aff_info_state_by_idx_def PSCI_LOCAL_STATE_RUN_def)
qed

lemma to_run_dom_ok:
  assumes "wf_topo K t" "dom_ok K t s" "c < PLATFORM_CORE_COUNT K"
    "\<And>l i. 1 \<le> l \<Longrightarrow> req s' l i = (if l \<le> e \<and> i = c then 0 else req s l i)"
    "\<And>a. nst s' a = (if a \<in> anc t c ` {1..e} then 0 else nst s a)"
  shows "dom_ok K t s'"
  using assms(2) unfolding dom_ok_def by (auto simp: assms(4,5))

lemma return_locked:
  assumes "base_inv K t s" "c < PLATFORM_CORE_COUNT K" "e \<le> PLAT_MAX_PWR_LVL K" "wf_psci K t s1"
    "lock_holder s1 = lock_set (lock_range t c e) (Some c) (lock_holder s)" "req_states s1 = req_states s"
    "non_cpu_nodes s1 = non_cpu_nodes s" "ptr_ok s1"
  shows "\<exists>s'. do { s2 \<leftarrow> psci_set_pwr_domains_to_run c e s1; psci_release_pwr_domain_locks e c s2 } = Some s' \<and>
     base_inv K t s' \<and> cpu_data s' = (cpu_data s1)[c := (cpu_data s1 ! c)\<lparr>aff_info_state := AFF_STATE_ON, local_state := 0\<rparr>] \<and>
     (\<forall>l i. 1 \<le> l \<longrightarrow> req s' l i = (if l \<le> e \<and> i = c then 0 else req s l i))"
proof -
  obtain s2 where s2: "psci_set_pwr_domains_to_run c e s1 = Some s2" "wf_psci K t s2" "lock_holder s2 = lock_holder s1"
     "cpu_regs s2 = cpu_regs s1"
     "cpu_data s2 = (cpu_data s1)[c := (cpu_data s1 ! c)\<lparr>aff_info_state := AFF_STATE_ON, local_state := 0\<rparr>]"
     "\<And>l i. 1 \<le> l \<Longrightarrow> req s2 l i = (if l \<le> e \<and> i = c then 0 else req s1 l i)"
     "\<And>a. nst s2 a = (if a \<in> anc t c ` {1..e} then 0 else nst s1 a)"
    using to_run [OF assms(4,2,3)] by (elim exE conjE) simp
  let ?s = "s2\<lparr>lock_holder := lock_holder s\<rparr>"
  have same: "req s1 l i = req s l i" "nst s1 a = nst s a" for l i a using assms(6,7) by (simp_all add: req_def nst_def)
  have rel: "psci_release_pwr_domain_locks e c s2 = Some ?s"
    by (rule release_locked [OF assms(1-3) s2(2)]) (simp add: s2(3) assms(5))
  have "dom_ok K t s2"
    by (rule to_run_dom_ok [of K t s c s2 e]) (use assms(1,2) s2(6,7) same in \<open>simp_all add: base_inv_def wf_psci_def\<close>)
  then have "base_inv K t ?s" using assms(1,8) s2(2,3,4) assms(5)
    by (simp add: base_inv_def dom_ok_def req_def nst_def ptr_ok_def)
  then show ?thesis using s2(1,5,6) rel same by (intro exI [of _ ?s]) (simp add: req_def)
qed

lemma get_target_states:
  assumes "wf_psci K t s" "c < PLATFORM_CORE_COUNT K" "e \<le> PLAT_MAX_PWR_LVL K"
  shows "\<exists>r. psci_get_target_local_pwr_states K c e s = Some r \<and> length r = PLAT_MAX_PWR_LVL K + 1 \<and>
     r ! 0 = local_state (cpu_data s ! c)"
proof -
  let ?pd = "local_state (cpu_data s ! c) # replicate (PLAT_MAX_PWR_LVL K) PSCI_LOCAL_STATE_RUN"
  have pl: "length ?pd = PLAT_MAX_PWR_LVL K + 1" and m: "e + 1 \<le> PLAT_MAX_PWR_LVL K + 1" and one: "(1::nat) \<le> 1"
    using assms(3) by simp_all
  obtain r where r: "get_target_loop (non_cpu_nodes s) [1..<e + 1] (parent_at t c (1 - 1)) ?pd = Some r"
      "length r = length ?pd" "\<And>l. r ! l = (if 1 \<le> l \<and> l < e + 1 then nst s (anc t c l) else ?pd ! l)"
    using get_target_loop [OF assms(1,2) one m pl] by (elim exE conjE) simp
  have "c < length (cpu_data s)" using assms(1,2) by (simp add: wf_psci_def shape_def)
  then have "psci_get_target_local_pwr_states K c e s = Some r"
    using r(1) wf_psci_parent [OF assms(1,2)]
    by (simp add: psci_get_target_local_pwr_states_def nth_opt_def del: upt_Suc)
  then show ?thesis using r(2) r(3) [of 0] pl by simp
qed

lemma wake_inv:
  assumes "psci_inv K t (s, ms)" "c < PLATFORM_CORE_COUNT K" "ms ! c = Waiting e"
  shows "\<exists>s'. psci_suspend_to_standby_finisher K c e s = Some s' \<and> psci_inv K t (s', ms[c := Running])"
proof -
  let ?s = "s\<lparr>lock_holder := lock_set (lock_range t c e) (Some c) (lock_holder s)\<rparr>"
  have b: "base_inv K t s" and ok: "cpu_ok K s c (Waiting e)" using assms by (metis fst_conv psci_inv_def snd_conv)+
  then have e: "e \<le> PLAT_MAX_PWR_LVL K" by simp
  have w: "wf_psci K t s" "set (lock_holder s) \<subseteq> {None}" "ptr_ok s" using b by (simp_all add: base_inv_def)
  have w1: "wf_psci K t ?s" and p1: "ptr_ok ?s" using w by (simp_all add: ptr_ok_def)
  obtain r where r: "psci_get_target_local_pwr_states K c e ?s = Some r" using get_target_states [OF w1 assms(2) e] by blast
  obtain s' where s': "do { s2 \<leftarrow> psci_set_pwr_domains_to_run c e ?s; psci_release_pwr_domain_locks e c s2 } = Some s'"
     "base_inv K t s'" "cpu_data s' = (cpu_data s)[c := (cpu_data s ! c)\<lparr>aff_info_state := AFF_STATE_ON, local_state := 0\<rparr>]"
     "\<And>l i. 1 \<le> l \<Longrightarrow> req s' l i = (if l \<le> e \<and> i = c then 0 else req s l i)"
    using return_locked [OF b assms(2) e w1 _ _ _ p1] by (elim meta_impE exE conjE) simp_all
  have "psci_suspend_to_standby_finisher K c e s = Some s'"
    using psci_acquire [OF w(1) assms(2) e w(2)] r s'(1) by (simp add: psci_suspend_to_standby_finisher_def)
  moreover have "psci_inv K t (s', ms[c := Running])"
    by (rule psci_inv_update [OF assms(1) s'(2) assms(2)])
       (use s'(3,4) ok psci_inv_len [OF assms(1)] assms(2) in \<open>auto simp: runs_above_def\<close>)
  ultimately show ?thesis by blast
qed

definition spd_ok :: "spd_pm_ops option \<Rightarrow> bool" where
  "spd_ok spd \<longleftrightarrow> (\<forall>p. spd = Some p \<longrightarrow> svc_suspend p \<noteq> None \<longrightarrow> svc_suspend_finish p \<noteq> None)"

lemma prepare_exit:
  assumes "ptr_ok s" "c < length (cpu_regs s)"
  shows "\<exists>x. prepare_exit c s = Some (s\<lparr>cpu_regs := (cpu_regs s)[c := x]\<rparr>) \<and> ptr_ok (s\<lparr>cpu_regs := (cpu_regs s)[c := x]\<rparr>)"
proof -
  have p: "cpu_context_ptr (cpu_regs s ! c) NON_SECURE" using assms by (simp add: ptr_ok_def)
  then obtain x where x: "cm_prepare_el3_exit (cpu_regs s ! c) NON_SECURE = Some x" "cpu_context_ptr x = cpu_context_ptr (cpu_regs s ! c)"
    by (simp add: cm_prepare_el3_exit_def cm_ctx_def cm_get_context_def)
  then show ?thesis using assms p ptr_ok_update [OF assms(1), of x c] by (intro exI [of _ x]) (simp add: prepare_exit_def nth_opt_def)
qed

lemma max_off_valid:
  assumes "is_local_state_off K (pd ! 0)"
  shows "psci_find_max_off_lvl K pd \<noteq> PSCI_INVALID_PWR_LVL K"
proof -
  have "is_local_state_off K (pd ! 0) \<Longrightarrow> find_level_down (is_local_state_off K) pd x (Suc n) \<le> n" for x n
    by (induction n) auto
  then show ?thesis using assms by (simp add: psci_find_max_off_lvl_def PSCI_INVALID_PWR_LVL_def le_imp_less_Suc less_imp_neq)
qed

text \<open>The two finishers of the warm boot touch only the data of their own processor.\<close>

definition own_data :: "psci_state \<Rightarrow> nat \<Rightarrow> psci_state \<Rightarrow> bool" where
  "own_data s c s' \<longleftrightarrow> req_states s' = req_states s \<and> non_cpu_nodes s' = non_cpu_nodes s \<and> lock_holder s' = lock_holder s \<and>
     map parent_node (cpu_nodes s') = map parent_node (cpu_nodes s) \<and> length (cpu_data s') = length (cpu_data s) \<and>
     length (cpu_regs s') = length (cpu_regs s) \<and> (\<forall>i. i \<noteq> c \<longrightarrow> cpu_data s' ! i = cpu_data s ! i)"

lemma own_data_wf: "own_data s c s' \<Longrightarrow> wf_psci K t s \<Longrightarrow> wf_psci K t s'"
  using map_eq_imp_length_eq [of parent_node "cpu_nodes s'" parent_node "cpu_nodes s"]
  by (simp add: own_data_def wf_psci_def shape_def topo_def)

lemma on_finish:
  assumes "wf_psci K t s" "ptr_ok s" "c < PLATFORM_CORE_COUNT K" "aff_info_state (cpu_data s ! c) = AFF_STATE_ON_PENDING"
  shows "\<exists>s'. psci_cpu_on_finish c s = Some s' \<and> own_data s c s' \<and> ptr_ok s' \<and> cpu_data s' = cpu_data s"
proof -
  have len: "c < length (cpu_data s)" "c < length (cpu_regs s)" "c < length (cpu_nodes s)"
    using assms(1,3) by (simp_all add: wf_psci_def shape_def)
  let ?s = "s\<lparr>cpu_nodes := (cpu_nodes s)[c := (cpu_nodes s ! c)\<lparr>mpidr := cpu_mpidr (cpu_regs s ! c) AND MPIDR_AFFINITY_MASK\<rparr>]\<rparr>"
  have "map parent_node ((cpu_nodes s)[c := (cpu_nodes s ! c)\<lparr>mpidr := m\<rparr>]) = map parent_node (cpu_nodes s)" for m
    using len(3) by (simp add: map_update list_update_same_conv)
  moreover obtain x where "prepare_exit c ?s = Some (?s\<lparr>cpu_regs := (cpu_regs ?s)[c := x]\<rparr>)"
      "ptr_ok (?s\<lparr>cpu_regs := (cpu_regs ?s)[c := x]\<rparr>)"
    using prepare_exit [of ?s c] assms(2) len(2) by (auto simp: ptr_ok_def)
  ultimately show ?thesis using len assms(4)
    by (intro exI [of _ "?s\<lparr>cpu_regs := (cpu_regs ?s)[c := x]\<rparr>"]) (simp add: psci_cpu_on_finish_def nth_opt_def own_data_def)
qed

lemma suspend_finish:
  assumes "wf_psci K t s" "ptr_ok s" "c < PLATFORM_CORE_COUNT K" "aff_info_state (cpu_data s ! c) = AFF_STATE_ON"
    "length pd = PLAT_MAX_PWR_LVL K + 1" "is_local_state_off K (pd ! 0)" "spd_ok spd"
  shows "\<exists>s'. psci_cpu_suspend_finish K spd c pd s = Some s' \<and> own_data s c s' \<and> ptr_ok s' \<and>
     unat (target_pwrlvl (cpu_data s' ! c)) = PSCI_INVALID_PWR_LVL K"
proof -
  have len: "c < length (cpu_data s)" "c < length (cpu_regs s)" using assms(1,3) by (simp_all add: wf_psci_def shape_def)
  let ?s = "psci_set_suspend_pwrlvl c (PSCI_INVALID_PWR_LVL K) s"
  obtain x where x: "prepare_exit c ?s = Some (?s\<lparr>cpu_regs := (cpu_regs ?s)[c := x]\<rparr>)"
      "ptr_ok (?s\<lparr>cpu_regs := (cpu_regs ?s)[c := x]\<rparr>)"
    using prepare_exit [of ?s c] assms(2) len(2) by (auto simp: ptr_ok_def psci_set_suspend_pwrlvl_def)
  have "PSCI_INVALID_PWR_LVL K \<le> 4" using assms(1) by (simp add: wf_psci_def wf_topo_def PSCI_INVALID_PWR_LVL_def)
  then have "unat (of_nat (PSCI_INVALID_PWR_LVL K) :: u8) = PSCI_INVALID_PWR_LVL K" by (simp add: unat_of_nat)
  moreover have "(case spd of Some p \<Rightarrow> if svc_suspend p \<noteq> None
        then do { assert_c (psci_find_max_off_lvl K pd \<noteq> PSCI_INVALID_PWR_LVL K); svc_suspend_finish p }
        else Some () | None \<Rightarrow> Some ()) = Some ()"
    using assms(7) max_off_valid [OF assms(6)] by (auto simp: spd_ok_def split: option.splits)
  ultimately show ?thesis using len assms(4-6) x
    by (intro exI [of _ "?s\<lparr>cpu_regs := (cpu_regs ?s)[c := x]\<rparr>"])
       (simp add: psci_cpu_suspend_finish_def nth_opt_def own_data_def psci_set_suspend_pwrlvl_def)
qed

lemma boot_inv:
  assumes "psci_inv K t (s, ms)" "c < PLATFORM_CORE_COUNT K" "ms ! c = Powered_Down" "spd_ok spd"
    "aff_info_state (cpu_data s ! c) \<noteq> AFF_STATE_OFF"
  shows "\<exists>s'. psci_warmboot_entrypoint K spd c s = Some s' \<and> psci_inv K t (s', ms[c := Running])"
proof -
  define e where "e = get_power_on_target_pwrlvl K (cpu_data s ! c)"
  let ?s = "s\<lparr>lock_holder := lock_set (lock_range t c e) (Some c) (lock_holder s)\<rparr>"
  have b: "base_inv K t s" and ok: "cpu_ok K s c Powered_Down" using assms by (metis fst_conv psci_inv_def snd_conv)+
  have e: "e \<le> PLAT_MAX_PWR_LVL K" using ok by (auto simp: e_def get_power_on_target_pwrlvl_def split: if_splits)
  have runs: "runs_above K s c e"
    using ok by (auto simp: e_def get_power_on_target_pwrlvl_def runs_above_def PSCI_INVALID_PWR_LVL_def split: if_splits)
  have w: "wf_psci K t s" "set (lock_holder s) \<subseteq> {None}" "ptr_ok s" using b by (simp_all add: base_inv_def)
  have w1: "wf_psci K t ?s" and p1: "ptr_ok ?s" using w by (simp_all add: ptr_ok_def)
  obtain r where r: "psci_get_target_local_pwr_states K c e ?s = Some r" "length r = PLAT_MAX_PWR_LVL K + 1"
      "r ! 0 = local_state (cpu_data s ! c)"
    using get_target_states [OF w1 assms(2) e] by auto
  have "\<exists>s1. (if aff_info_state (cpu_data s ! c) = AFF_STATE_ON_PENDING then psci_cpu_on_finish c ?s
              else psci_cpu_suspend_finish K spd c r ?s) = Some s1 \<and> own_data ?s c s1 \<and> ptr_ok s1 \<and>
          unat (target_pwrlvl (cpu_data s1 ! c)) = PSCI_INVALID_PWR_LVL K"
  proof (cases "aff_info_state (cpu_data s ! c) = AFF_STATE_ON_PENDING")
    case True
    then show ?thesis using on_finish [OF w1 p1 assms(2)] ok by auto
  next
    case False
    then have "aff_info_state (cpu_data s ! c) = AFF_STATE_ON" using assms(5) by (cases "aff_info_state (cpu_data s ! c)") auto
    then show ?thesis using suspend_finish [OF w1 p1 assms(2) _ r(2) _ assms(4)] ok r(3) by simp
  qed
  then obtain s1 where s1: "(if aff_info_state (cpu_data s ! c) = AFF_STATE_ON_PENDING then psci_cpu_on_finish c ?s
              else psci_cpu_suspend_finish K spd c r ?s) = Some s1" "own_data ?s c s1" "ptr_ok s1"
          "unat (target_pwrlvl (cpu_data s1 ! c)) = PSCI_INVALID_PWR_LVL K" by blast
  have l1: "lock_holder s1 = lock_set (lock_range t c e) (Some c) (lock_holder s)" "req_states s1 = req_states s"
      "non_cpu_nodes s1 = non_cpu_nodes s" "length (cpu_data s1) = length (cpu_data s)"
      "\<And>i. i \<noteq> c \<Longrightarrow> cpu_data s1 ! i = cpu_data s ! i"
    using s1(2) by (simp_all add: own_data_def)
  obtain s' where s': "do { s2 \<leftarrow> psci_set_pwr_domains_to_run c e s1; psci_release_pwr_domain_locks e c s2 } = Some s'"
     "base_inv K t s'" "cpu_data s' = (cpu_data s1)[c := (cpu_data s1 ! c)\<lparr>aff_info_state := AFF_STATE_ON, local_state := 0\<rparr>]"
     "\<And>l i. 1 \<le> l \<Longrightarrow> req s' l i = (if l \<le> e \<and> i = c then 0 else req s l i)"
    using return_locked [OF b assms(2) e own_data_wf [OF s1(2) w1] l1(1-3) s1(3)] by (elim exE conjE) simp
  have len: "c < length (cpu_data s)" using psci_inv_len [OF assms(1)] assms(2) by simp
  have "psci_warmboot_entrypoint K spd c s = Some s'"
    using psci_acquire [OF w(1) assms(2) e w(2)] r(1) s1(1) s'(1) len assms(5)
    by (simp add: psci_warmboot_entrypoint_def nth_opt_def e_def [symmetric])
  moreover have "psci_inv K t (s', ms[c := Running])"
    by (rule psci_inv_update [OF assms(1) s'(2) assms(2)])
       (use s'(3,4) s1(4) l1 runs len in \<open>auto simp: runs_above_def\<close>)
  ultimately show ?thesis by blast
qed

section \<open>Calls\<close>

lemma sum_case_eq_Some: "(case r of Inl a \<Rightarrow> f a | Inr b \<Rightarrow> g b) = Some y \<longleftrightarrow>
  (\<exists>a. r = Inl a \<and> f a = Some y) \<or> (\<exists>b. r = Inr b \<and> g b = Some y)"
  by (cases r) auto

lemma set_aff_inv:
  assumes "psci_inv K t (s, ms)" "i < PLATFORM_CORE_COUNT K" "aff_info_state (cpu_data s ! i) \<noteq> AFF_STATE_ON" "a \<noteq> AFF_STATE_ON"
  shows "psci_inv K t (psci_set_aff_info_state_by_idx i a s, ms)"
proof -
  let ?s = "psci_set_aff_info_state_by_idx i a s"
  have b: "base_inv K t s" and ok: "cpu_ok K s i (ms ! i)" using assms(1,2) by (auto simp: psci_inv_def)
  then have m: "ms ! i = Powered_Down" using assms(3) by (cases "ms ! i") auto
  have len: "i < length (cpu_data s)" using psci_inv_len [OF assms(1)] assms(2) by simp
  have "base_inv K t ?s"
    by (rule base_inv_frame [OF b]) (use b in \<open>simp_all add: psci_set_aff_info_state_by_idx_def base_inv_def ptr_ok_def\<close>)
  then have "psci_inv K t (?s, ms[i := ms ! i])"
    by (rule psci_inv_update [OF assms(1) _ assms(2)])
       (use ok m len assms(3,4) in \<open>simp_all add: psci_set_aff_info_state_by_idx_def req_def\<close>)
  then show ?thesis by simp
qed

lemma init_context_inv:
  assumes "psci_inv K t (s, ms)" "cm_init_context_by_index ops my i ep s = Some s'"
  shows "psci_inv K t (s', ms)"
proof -
  have b: "base_inv K t s" using assms(1) by (simp add: psci_inv_def)
  then obtain c where c: "s' = s\<lparr>cpu_regs := (cpu_regs s)[i := c]\<rparr>" "ptr_ok s'"
    using cm_init_by_index [OF assms(2)] by (auto simp: base_inv_def)
  have "base_inv K t s'" by (rule base_inv_frame [OF b]) (use c in simp_all)
  moreover have "cpu_ok K s' j m = cpu_ok K s j m" for j m by (rule cpu_ok_cong) (use c in \<open>simp_all add: req_def\<close>)
  ultimately show ?thesis using assms(1) by (simp add: psci_inv_def)
qed

lemma psci_cpu_on_inv:
  assumes "psci_inv K t (s, ms)" "psci_cpu_on ops c target entry ctx s = Some (rc, s')"
  shows "psci_inv K t (s', ms)"
proof -
  have "psci_inv K t (s', ms)" if on: "psci_cpu_on_start ops c target ep s = Some (rc, s')" for ep
  proof -
    define i where "i = nat (plat_core_pos_by_mpidr ops target)"
    let ?p = "psci_set_aff_info_state_by_idx i AFF_STATE_ON_PENDING s"
    have i: "i < length (cpu_data s)" using on by (auto simp: psci_cpu_on_start_def Let_def bind_eq_Some_conv nth_opt_eq_Some i_def)
    then have pend: "aff_info_state (cpu_data ?p ! i) = AFF_STATE_ON_PENDING" "i < length (cpu_data ?p)"
      by (simp_all add: psci_set_aff_info_state_by_idx_def)
    have n: "i < PLATFORM_CORE_COUNT K" using i psci_inv_len [OF assms(1)] by simp
    consider "s' = s" | "aff_info_state (cpu_data s ! i) = AFF_STATE_OFF" "cm_init_context_by_index ops c i ep ?p = Some s'"
      | "aff_info_state (cpu_data s ! i) = AFF_STATE_OFF" "s' = psci_set_aff_info_state_by_idx i AFF_STATE_OFF ?p"
    proof (cases "aff_info_state (cpu_data s ! i)")
      case AFF_STATE_OFF
      have "nth_opt (cpu_data s) i = Some (cpu_data s ! i)" "nth_opt (cpu_data ?p) i = Some (cpu_data ?p ! i)"
        using i pend(2) by (simp_all add: nth_opt_def)
      then have "cm_init_context_by_index ops c i ep ?p = Some s' \<or> s' = psci_set_aff_info_state_by_idx i AFF_STATE_OFF ?p"
        using on AFF_STATE_OFF pend(1) unfolding psci_cpu_on_start_def Let_def i_def [symmetric]
        by (simp add: bind_eq_Some_conv cpu_on_validate_state_def split: if_split_asm) auto
      then show ?thesis using that(2,3) AFF_STATE_OFF by blast
    qed (use on i that(1) in \<open>auto simp: psci_cpu_on_start_def Let_def i_def [symmetric] nth_opt_def cpu_on_validate_state_def psci_errors\<close>)
    then show ?thesis
    proof cases
      case 2
      then have "psci_inv K t (?p, ms)" using assms(1) n by (intro set_aff_inv) simp_all
      then show ?thesis using init_context_inv 2(2) by blast
    next
      case 3
      then have "psci_inv K t (?p, ms)" using assms(1) n by (intro set_aff_inv) simp_all
      then show ?thesis unfolding 3(2) by (rule set_aff_inv) (use n pend in simp_all)
    qed (use assms in simp)
  qed
  then show ?thesis using assms
    by (auto simp: psci_cpu_on_def bind_eq_Some_conv sum_case_eq_Some split: if_split_asm)
qed

lemma standby_path:
  assumes "psci_inv K t (s, ms)" "c < PLATFORM_CORE_COUNT K" "ms ! c = Running"
  shows "psci_set_cpu_local_state c PSCI_LOCAL_STATE_RUN (psci_set_cpu_local_state c st s) = s"
proof -
  have "local_state (cpu_data s ! c) = 0" "c < length (cpu_data s)"
    using assms psci_inv_len [OF assms(1)] by (force simp: psci_inv_def)+
  moreover from this(1) have "(cpu_data s ! c)\<lparr>local_state := 0\<rparr> = cpu_data s ! c" by (cases "cpu_data s ! c") simp
  ultimately have "(cpu_data s)[c := (cpu_data s ! c)\<lparr>local_state := 0\<rparr>] = cpu_data s" by (metis list_update_id)
  then show ?thesis using \<open>c < length (cpu_data s)\<close> by (simp add: psci_set_cpu_local_state_def PSCI_LOCAL_STATE_RUN_def)
qed

text \<open>
  What the library relies on in a platform port: the states it accepts for a power down request and
  the states of a system suspend fill the array, and power the processor itself off.
\<close>

locale psci_platform =
  fixes K :: psci_config and ops :: plat_psci_ops
  assumes power_state: "validate_power_state ops = Some f \<Longrightarrow>
      f p (replicate (PLAT_MAX_PWR_LVL K + 1) PSCI_LOCAL_STATE_RUN) = Some (PSCI_E_SUCCESS, pd) \<Longrightarrow>
      length pd = PLAT_MAX_PWR_LVL K + 1 \<and> (psci_get_pstate_type p \<noteq> 0 \<longrightarrow> is_local_state_off K (pd ! 0))"
    and sys_suspend: "get_sys_suspend_power_state ops = Some g \<Longrightarrow> length stack = PLAT_MAX_PWR_LVL K + 1 \<Longrightarrow>
      length (g stack) = PLAT_MAX_PWR_LVL K + 1 \<and> is_local_state_off K (g stack ! 0)"
begin

lemma cpu_suspend_inv:
  assumes "psci_inv K t (s, ms)" "c < PLATFORM_CORE_COUNT K" "ms ! c = Running"
    "psci_cpu_suspend K ops isr c p ep ctx s = Some (r, s')"
  shows "post K t ms c r s'"
proof -
  obtain rc pd where v: "psci_validate_power_state ops p (replicate (PLAT_MAX_PWR_LVL K + 1) PSCI_LOCAL_STATE_RUN) = Some (rc, pd)"
    using assms(4) by (auto simp: psci_cpu_suspend_def bind_eq_Some_conv)
  let ?e = "psci_find_target_suspend_lvl K pd" and ?d = "psci_get_pstate_type p \<noteq> 0"
  consider rc' where "r = Ret rc'" "s' = s"
    | st where "r = Ret PSCI_E_SUCCESS" "s' = psci_set_cpu_local_state c PSCI_LOCAL_STATE_RUN (psci_set_cpu_local_state c st s)"
    | x r' si where "rc = PSCI_E_SUCCESS" "?e \<noteq> PSCI_INVALID_PWR_LVL K"
        "psci_cpu_suspend_start K ops isr c x ?e pd ?d s = Some (r', si, s')" "r = map_psci_result (\<lambda>_. PSCI_E_SUCCESS) r'"
    using assms(4) v
    by (auto simp: psci_cpu_suspend_def bind_eq_Some_conv Let_def sum_case_eq_Some split: if_split_asm option.split_asm)
  then show ?thesis
  proof cases
    case 3
    have "length pd = PLAT_MAX_PWR_LVL K + 1 \<and> (?d \<longrightarrow> is_local_state_off K (pd ! 0))"
      using v 3(1) power_state by (auto simp: psci_validate_power_state_def bind_eq_Some_conv psci_errors split: if_splits)
    moreover have "?e \<le> PLAT_MAX_PWR_LVL K"
      using 3(2) find_level_down_le unfolding psci_find_target_suspend_lvl_def by (metis Suc_eq_plus1 less_Suc_eq_le)
    ultimately have "post K t ms c r' s'" using psci_cpu_suspend_start_inv [OF assms(1-3) _ _ _ 3(3)] by blast
    then show ?thesis using 3(4) by simp
  qed (simp_all add: standby_path [OF assms(1-3)] post_same [OF assms(1,3)])
qed

lemma system_suspend_inv:
  assumes "psci_inv K t (s, ms)" "c < PLATFORM_CORE_COUNT K" "ms ! c = Running" "length stack = PLAT_MAX_PWR_LVL K + 1"
    "psci_system_suspend K ops isr stack c ep ctx s = Some (r, s')"
  shows "post K t ms c r s'"
proof -
  consider rc where "r = Ret rc" "s' = s"
    | g x r' si where "get_sys_suspend_power_state ops = Some g"
        "psci_cpu_suspend_start K ops isr c (Some x) (PLAT_MAX_PWR_LVL K) (g stack) True s = Some (r', si, s')"
        "r = map_psci_result (\<lambda>_. PSCI_E_SUCCESS) r'"
    using assms(5)
    by (auto simp: psci_system_suspend_def bind_eq_Some_conv psci_query_sys_suspend_pwrstate_def sum_case_eq_Some split: if_split_asm)
  then show ?thesis
  proof cases
    case 2
    then have "post K t ms c r' s'"
      using psci_cpu_suspend_start_inv [OF assms(1-3) order_refl _ _ 2(2)] sys_suspend [OF 2(1) assms(4)] by blast
    then show ?thesis using 2(3) by simp
  qed (simp add: post_same [OF assms(1,3)])
qed

lemma handler_inv:
  assumes "psci_inv K t (s, ms)" "c < PLATFORM_CORE_COUNT K" "ms ! c = Running"
    "length (env_stack env) = PLAT_MAX_PWR_LVL K + 1"
    "psci_smc_handler K ops env c fid x1 x2 x3 flags s = Some (r, s')"
  shows "post K t ms c r s'"
proof -
  note same = post_same [OF assms(1,3)]
  have off: "post K t ms c r s'" if "psci_cpu_off K ops spd scp c s = Some (r, s')" for spd scp and r :: "int psci_result" and s'
    using that psci_do_cpu_off_inv [OF assms(1-3)] by (auto simp: psci_cpu_off_def bind_eq_Some_conv)
  have on: "post K t ms c (Ret x) s'" if "psci_cpu_on ops c y1 y2 y3 s = Some (rc, s')" for y1 y2 y3 rc s' and x :: u64
    by (rule post_same [OF psci_cpu_on_inv [OF assms(1) that] assms(3)])
  note calls = off cpu_suspend_inv [OF assms(1-3)] system_suspend_inv [OF assms(1-4)]
  have same': "post K t ms c (Ret x) q" if "s = q" for x :: u64 and q using same that by simp
  have off': "post K t ms c System_Off q" "post K t ms c System_Reset q" for q by (simp_all add: post_def)
  have s32: "post K t ms c r s'" if "psci_smc32 K ops env c fid y1 y2 y3 s = Some (r, s')" for y1 y2 y3
    using that unfolding psci_smc32_def
    by (auto split: if_split_asm simp: bind_eq_Some_conv off' res_int_def ret_int_def intro: same' calls on)
  have s64: "post K t ms c r s'" if "psci_smc64 K ops env c fid y1 y2 y3 s = Some (r, s')" for y1 y2 y3
    using that unfolding psci_smc64_def
    by (auto split: if_split_asm simp: bind_eq_Some_conv res_int_def ret_int_def intro: same' calls on)
  show ?thesis using assms(5) s32 s64 by (auto simp: psci_smc_handler_def split: if_split_asm intro: same')
qed

lemma step_inv:
  assumes "spd_ok spd" "psci_inv K t x" "psci_step K ops spd x y"
  shows "psci_inv K t y"
  using assms(3,2)
proof (cases rule: psci_step.cases)
  case (smc c ms env fid x1 x2 x3 flags s r s' m)
  have c: "c < PLATFORM_CORE_COUNT K" using smc assms(2) by (simp add: psci_inv_def)
  then have "post K t ms c r s'" using handler_inv smc assms(2) by blast
  then show ?thesis using smc by (simp add: post_def)
next
  case (wake c ms e s s')
  have c: "c < PLATFORM_CORE_COUNT K" using wake assms(2) by (simp add: psci_inv_def)
  show ?thesis using wake_inv [OF _ c] wake assms(2) by fastforce
next
  case (boot c ms s s')
  have c: "c < PLATFORM_CORE_COUNT K" using boot assms(2) by (simp add: psci_inv_def)
  have "aff_info_state (cpu_data s ! c) \<noteq> AFF_STATE_OFF"
    using boot(5) by (auto simp: psci_warmboot_entrypoint_def bind_eq_Some_conv nth_opt_eq_Some)
  then show ?thesis using boot_inv [OF _ c _ assms(1)] boot assms(2) by fastforce
qed

lemma steps_inv: "spd_ok spd \<Longrightarrow> psci_inv K t x \<Longrightarrow> (psci_step K ops spd)\<^sup>*\<^sup>* x y \<Longrightarrow> psci_inv K t y"
  by (rotate_tac 2, induction rule: rtranclp_induct) (auto intro: step_inv)

end

end
