(* ===== verification/Marvell_Pm.thy ===== *)
theory Marvell_Pm
  imports Psci_Inv
begin

text \<open>
  The Marvell ports of the power state coordination library: the topology and the numbering of the
  processors (\<open>plat/marvell/common/marvell_topology.c\<close>, \<open>aarch64/marvell_helpers.S\<close>) and the tables
  of handlers of the Armada 7K/8K and 3700 (\<open>plat_pm.c\<close> of each). Both ports meet the interface of
  the library, so its invariant holds for the systems they build; the properties of the Armada 8K
  follow from it.
\<close>

section \<open>Topology\<close>

text \<open>The descriptor of the tree: the clusters at the highest level, then the processors of each.\<close>

definition plat_get_power_domain_tree_desc :: "nat \<Rightarrow> nat \<Rightarrow> u8 list" where
  "plat_get_power_domain_tree_desc cluster_count cluster_core_count =
     of_nat cluster_count # replicate cluster_count (of_nat cluster_core_count)"

definition marvell_check_mpidr :: "nat \<Rightarrow> nat \<Rightarrow> u64 \<Rightarrow> int" where
  "marvell_check_mpidr cluster_count cluster_core_count m =
     (let m = m AND MPIDR_AFFINITY_MASK;
          nb_id = drop_bit 32 m AND 0xff;
          cluster_id = drop_bit 8 m AND 0xff;
          cpu_id = m AND 0xff
      in if m AND NOT 0xffffff \<noteq> 0 then - 1
         else if unat nb_id \<ge> cluster_count then - 1
         else if unat cluster_id \<ge> cluster_count then - 1
         else if unat cpu_id \<ge> cluster_core_count then - 1
         else 0)"

definition plat_marvell_calc_core_pos :: "u64 \<Rightarrow> u64" where
  "plat_marvell_calc_core_pos m = (m AND 0xff) + drop_bit 7 (m AND 0xff00)"

definition marvell_core_pos_by_mpidr :: "nat \<Rightarrow> nat \<Rightarrow> u64 \<Rightarrow> int" where
  "marvell_core_pos_by_mpidr cluster_count cluster_core_count m =
     (if marvell_check_mpidr cluster_count cluster_core_count m = - 1 then - 1
      else uint (plat_marvell_calc_core_pos m))"

section \<open>Armada 7K and 8K\<close>

definition a8k_config :: psci_config where
  "a8k_config = \<lparr>PLAT_MAX_PWR_LVL = 1, PLATFORM_CORE_COUNT = 4, PSCI_NUM_NON_CPU_PWR_DOMAINS = 2,
                 PLAT_MAX_RET_STATE = 1, PLAT_MAX_OFF_STATE = 2\<rparr>"

definition a8k_validate_power_state :: "u32 \<Rightarrow> u8 list \<Rightarrow> int \<times> u8 list" where
  "a8k_validate_power_state power_state req_state =
     (let pstate = psci_get_pstate_type power_state;
          pwr_lvl = unat (psci_get_pstate_pwrlvl power_state)
      in if pwr_lvl > PLAT_MAX_PWR_LVL a8k_config then (PSCI_E_INVALID_PARAMS, req_state)
         else if pstate = 0 \<and> pwr_lvl \<noteq> 0 then (PSCI_E_INVALID_PARAMS, req_state)
         else
           let req_state = (if pstate = 0 then req_state[0 := 1]
                            else replicate (pwr_lvl + 1) 2 @ drop (pwr_lvl + 1) req_state)
           in if psci_get_pstate_id power_state \<noteq> 0 then (PSCI_E_INVALID_PARAMS, req_state)
              else (PSCI_E_SUCCESS, req_state))"

definition marvell_get_sys_suspend_power_state :: "psci_config \<Rightarrow> u8 list \<Rightarrow> u8 list" where
  "marvell_get_sys_suspend_power_state K req_state =
     replicate (PLAT_MAX_PWR_LVL K + 1) (PLAT_MAX_OFF_STATE K) @ drop (PLAT_MAX_PWR_LVL K + 1) req_state"

text \<open>
  The table of handlers. The handlers that only drive hardware return nothing to the library; the
  handlers for standby and for turning the system off panic. \<open>routing\<close> is the interrupt routing
  model that the rest of the runtime firmware has set.
\<close>

definition a8k_psci_pm_ops :: "u32 \<Rightarrow> plat_psci_ops" where
  "a8k_psci_pm_ops routing =
     \<lparr>cpu_standby = Some (\<lambda>cpu_state. None),
      pwr_domain_on = Some (\<lambda>m. 0),
      pwr_domain_on_finish = Some (),
      pwr_domain_off = Some (),
      pwr_domain_suspend = Some (),
      pwr_domain_suspend_finish = Some (),
      system_off = Some None,
      system_reset = Some (Some ()),
      validate_power_state = Some (\<lambda>p req. Some (a8k_validate_power_state p req)),
      validate_ns_entrypoint = Some (\<lambda>entrypoint. PSCI_E_SUCCESS),
      get_sys_suspend_power_state = Some (marvell_get_sys_suspend_power_state a8k_config),
      get_node_hw_state = None,
      plat_core_pos_by_mpidr = marvell_core_pos_by_mpidr 2 2,
      scr_routing_model = routing\<rparr>"

section \<open>Armada 3700\<close>

definition a3700_config :: psci_config where
  "a3700_config = \<lparr>PLAT_MAX_PWR_LVL = 1, PLATFORM_CORE_COUNT = 2, PSCI_NUM_NON_CPU_PWR_DOMAINS = 2,
                   PLAT_MAX_RET_STATE = 1, PLAT_MAX_OFF_STATE = 2\<rparr>"

definition a3700_psci_pm_ops :: "u32 \<Rightarrow> plat_psci_ops" where
  "a3700_psci_pm_ops routing =
     \<lparr>cpu_standby = Some (\<lambda>cpu_state. None),
      pwr_domain_on = Some (\<lambda>m. 0),
      pwr_domain_on_finish = Some (),
      pwr_domain_off = Some (),
      pwr_domain_suspend = Some (),
      pwr_domain_suspend_finish = Some (),
      system_off = Some None,
      system_reset = Some (Some ()),
      validate_power_state = Some (\<lambda>p req. None),
      validate_ns_entrypoint = Some (\<lambda>entrypoint. PSCI_E_SUCCESS),
      get_sys_suspend_power_state = Some (marvell_get_sys_suspend_power_state a3700_config),
      get_node_hw_state = None,
      plat_core_pos_by_mpidr = marvell_core_pos_by_mpidr 1 2,
      scr_routing_model = routing\<rparr>"

section \<open>The ports meet the interface of the library\<close>

lemma sys_suspend_states:
  assumes "0 < PLAT_MAX_OFF_STATE K" "PLAT_MAX_RET_STATE K < PLAT_MAX_OFF_STATE K" "length st = PLAT_MAX_PWR_LVL K + 1"
  shows "length (marvell_get_sys_suspend_power_state K st) = PLAT_MAX_PWR_LVL K + 1 \<and>
    is_local_state_off K (marvell_get_sys_suspend_power_state K st ! 0)"
  using assms by (simp add: marvell_get_sys_suspend_power_state_def is_local_state_off_def nth_append)

lemma a8k_power_state:
  assumes "a8k_validate_power_state p (replicate 2 PSCI_LOCAL_STATE_RUN) = (PSCI_E_SUCCESS, pd)"
  shows "length pd = 2 \<and> (psci_get_pstate_type p \<noteq> 0 \<longrightarrow> is_local_state_off a8k_config (pd ! 0))"
  using assms
  by (auto simp: a8k_validate_power_state_def Let_def a8k_config_def psci_errors is_local_state_off_def nth_append split: if_split_asm)

interpretation a8k: psci_platform a8k_config "a8k_psci_pm_ops routing" for routing
proof unfold_locales
  fix f p pd
  assume "validate_power_state (a8k_psci_pm_ops routing) = Some f"
    and "f p (replicate (PLAT_MAX_PWR_LVL a8k_config + 1) PSCI_LOCAL_STATE_RUN) = Some (PSCI_E_SUCCESS, pd)"
  then have "a8k_validate_power_state p (replicate 2 PSCI_LOCAL_STATE_RUN) = (PSCI_E_SUCCESS, pd)"
    by (auto simp: a8k_psci_pm_ops_def a8k_config_def numeral_2_eq_2)
  then show "length pd = PLAT_MAX_PWR_LVL a8k_config + 1 \<and> (psci_get_pstate_type p \<noteq> 0 \<longrightarrow> is_local_state_off a8k_config (pd ! 0))"
    using a8k_power_state by (simp add: a8k_config_def)
next
  fix g and stack :: "u8 list"
  assume "get_sys_suspend_power_state (a8k_psci_pm_ops routing) = Some g" "length stack = PLAT_MAX_PWR_LVL a8k_config + 1"
  then show "length (g stack) = PLAT_MAX_PWR_LVL a8k_config + 1 \<and> is_local_state_off a8k_config (g stack ! 0)"
    using sys_suspend_states [of a8k_config stack] by (auto simp: a8k_psci_pm_ops_def a8k_config_def)
qed

interpretation a3700: psci_platform a3700_config "a3700_psci_pm_ops routing" for routing
proof unfold_locales
  fix g and stack :: "u8 list"
  assume "get_sys_suspend_power_state (a3700_psci_pm_ops routing) = Some g" "length stack = PLAT_MAX_PWR_LVL a3700_config + 1"
  then show "length (g stack) = PLAT_MAX_PWR_LVL a3700_config + 1 \<and> is_local_state_off a3700_config (g stack ! 0)"
    using sys_suspend_states [of a3700_config stack] by (auto simp: a3700_psci_pm_ops_def a3700_config_def)
qed (auto simp: a3700_psci_pm_ops_def)

section \<open>Setup\<close>

text \<open>What the two loops over the tree give, before the processor that boots is set to run.\<close>

definition fresh_cpu :: "psci_config \<Rightarrow> psci_cpu_data" where
  "fresh_cpu K = \<lparr>aff_info_state = AFF_STATE_OFF, target_pwrlvl = of_nat (PSCI_INVALID_PWR_LVL K),
                  local_state = PLAT_MAX_OFF_STATE K\<rparr>"

definition start_modes :: "psci_config \<Rightarrow> nat \<Rightarrow> cpu_mode list" where
  "start_modes K my = (replicate (PLATFORM_CORE_COUNT K) Powered_Down)[my := Running]"

lemma setup_inv:
  assumes "do { s \<leftarrow> populate_power_domain_tree K desc s; psci_update_pwrlvl_limits K s } = Some s0"
    "wf_psci K t s0" "set (lock_holder s0) \<subseteq> {None}" "ptr_ok s0" "my < PLATFORM_CORE_COUNT K"
    "cpu_data s0 = replicate (PLATFORM_CORE_COUNT K) (fresh_cpu K)"
  shows "\<exists>s'. psci_setup K ops desc my s = Some s' \<and> psci_inv K t (s', start_modes K my) \<and> psci_caps s' = setup_caps ops \<and>
     (\<forall>c. c < PLATFORM_CORE_COUNT K \<longrightarrow> c \<noteq> my \<longrightarrow> aff_info_state (cpu_data s' ! c) = AFF_STATE_OFF)"
proof -
  have len: "my < length (cpu_regs s0)" "my < length (cpu_nodes s0)" using assms(2,5) by (simp_all add: wf_psci_def shape_def)
  define m where "m = cpu_mpidr (cpu_regs s0 ! my) AND MPIDR_AFFINITY_MASK"
  define s1 where "s1 = psci_init_req_local_pwr_states K (s0\<lparr>cpu_nodes := (cpu_nodes s0)[my := (cpu_nodes s0 ! my)\<lparr>mpidr := m\<rparr>]\<rparr>)"
  have "map parent_node ((cpu_nodes s0)[my := (cpu_nodes s0 ! my)\<lparr>mpidr := m\<rparr>]) = map parent_node (cpu_nodes s0)"
    using len(2) by (simp add: map_update list_update_same_conv)
  then have w1: "wf_psci K t s1" using assms(2)
    by (simp add: s1_def psci_init_req_local_pwr_states_def wf_psci_def shape_def topo_def)
  have off: "PLAT_MAX_OFF_STATE K \<noteq> 0" using assms(2) by (auto simp: wf_psci_def wf_topo_def)
  have "req s1 l c = PLAT_MAX_OFF_STATE K" if "c < PLATFORM_CORE_COUNT K" "l \<le> PLAT_MAX_PWR_LVL K" for l c
    using that by (simp add: s1_def psci_init_req_local_pwr_states_def req_def del: replicate.simps)
  then have d1: "dom_ok K t s1" using off by (auto simp: dom_ok_def)
  obtain s' where s': "psci_set_pwr_domains_to_run my (PLAT_MAX_PWR_LVL K) s1 = Some s'" "wf_psci K t s'"
     "lock_holder s' = lock_holder s1" "cpu_regs s' = cpu_regs s1"
     "cpu_data s' = (cpu_data s1)[my := (cpu_data s1 ! my)\<lparr>aff_info_state := AFF_STATE_ON, local_state := 0\<rparr>]"
     "\<And>l i. 1 \<le> l \<Longrightarrow> req s' l i = (if l \<le> PLAT_MAX_PWR_LVL K \<and> i = my then 0 else req s1 l i)"
     "\<And>a. nst s' a = (if a \<in> anc t my ` {1..PLAT_MAX_PWR_LVL K} then 0 else nst s1 a)"
    using to_run [OF w1 assms(5) order_refl] by (elim exE conjE) simp
  let ?s = "s'\<lparr>psci_caps := setup_caps ops\<rparr>"
  have d: "cpu_data s1 = replicate (PLATFORM_CORE_COUNT K) (fresh_cpu K)" "lock_holder s1 = lock_holder s0" "cpu_regs s1 = cpu_regs s0"
    using assms(6) by (simp_all add: s1_def psci_init_req_local_pwr_states_def)
  have "wf_topo K t" using assms(2) by (simp add: wf_psci_def)
  then have "dom_ok K t s'" using to_run_dom_ok [OF _ d1 assms(5) s'(6,7)] by blast
  then have b: "base_inv K t ?s" using s'(2,3,4) d assms(3,4)
    by (simp add: base_inv_def dom_ok_def wf_psci_def shape_def topo_def req_def nst_def ptr_ok_def)
  have "PSCI_INVALID_PWR_LVL K \<le> 4" using assms(2) by (simp add: wf_psci_def wf_topo_def PSCI_INVALID_PWR_LVL_def)
  then have u: "unat (of_nat (PSCI_INVALID_PWR_LVL K) :: u8) = PSCI_INVALID_PWR_LVL K" by (simp add: unat_of_nat)
  have "cpu_ok K ?s c (start_modes K my ! c)" if "c < PLATFORM_CORE_COUNT K" for c
    using that s'(5,6) d(1) u assms(5)
    by (cases "c = my") (auto simp: start_modes_def fresh_cpu_def runs_above_def req_def)
  then have "psci_inv K t (?s, start_modes K my)" using b by (simp add: psci_inv_def start_modes_def)
  moreover have "psci_setup K ops desc my s = Some ?s"
    using assms(1) s'(1) len by (auto simp: psci_setup_def bind_eq_Some_conv nth_opt_def s1_def m_def)
  moreover have "aff_info_state (cpu_data ?s ! c) = AFF_STATE_OFF" if "c < PLATFORM_CORE_COUNT K" "c \<noteq> my" for c
    using that s'(5) d(1) by (simp add: fresh_cpu_def)
  ultimately show ?thesis by (intro exI [of _ ?s]) simp
qed

text \<open>The tree of the Armada 8K: two clusters of two processors.\<close>

definition a8k_topo :: psci_topo where
  "a8k_topo =
     ([\<lparr>cpu_start_idx = 0, ncpus = 2, nc_parent_node = - 1, nc_local_state = 0, level = 1, lock_index = 0\<rparr>,
       \<lparr>cpu_start_idx = 2, ncpus = 2, nc_parent_node = - 1, nc_local_state = 0, level = 1, lock_index = 1\<rparr>],
      [0, 0, 1, 1])"

lemma a8k_sel [simp]:
  "PLAT_MAX_PWR_LVL a8k_config = 1" "PLATFORM_CORE_COUNT a8k_config = 4" "PSCI_NUM_NON_CPU_PWR_DOMAINS a8k_config = 2"
  "PLAT_MAX_RET_STATE a8k_config = 1" "PLAT_MAX_OFF_STATE a8k_config = 2" "PSCI_INVALID_PWR_LVL a8k_config = 2"
  by (simp_all add: a8k_config_def PSCI_INVALID_PWR_LVL_def)

text \<open>Evaluation of the setup on lists of known length.\<close>

lemma upt_num: "[0..<2] = [0, 1 :: nat]" "[2..<4] = [2, 3 :: nat]" "[0..<4] = [0, 1, 2, 3 :: nat]"
  by (simp_all add: upt_rec)

lemma replicate_num: "replicate 2 x = [x, x]" "replicate 4 x = [x, x, x, x]"
  by (simp_all add: numeral_eq_Suc)

lemma list_update_num: "(x # xs)[numeral v := y] = x # xs[pred_numeral v := y]"
  by (simp add: numeral_eq_Suc)

lemmas populate_two = populate_level.simps(2) [where i = "Suc 0", folded numeral_2_eq_2]

lemmas setup_eval = populate_power_domain_tree_def psci_update_pwrlvl_limits_def plat_get_power_domain_tree_desc_def
  psci_bss_def nth_opt_def psci_init_pwr_domain_node_def cm_set_context_def upt_num replicate_num list_update_num
  populate_two zero_node_def Let_def psci_get_parent_pwr_domain_nodes_def

lemma num_sets: "{0..<2::nat} = {0, 1}" "{2..<4::nat} = {2, 3}" "{..<4::nat} = {0, 1, 2, 3}" "{1..1::nat} = {1}"
  by auto

lemma a8k_wf_topo: "wf_topo a8k_config a8k_topo"
proof -
  have a: "anc a8k_topo 0 1 = 0" "anc a8k_topo 1 1 = 0" "anc a8k_topo 2 1 = 1" "anc a8k_topo 3 1 = 1"
    by (simp_all add: anc_def a8k_topo_def)
  have d: "dom_cpus a8k_topo 0 = {0, 1}" "dom_cpus a8k_topo 1 = {2, 3}"
    by (auto simp: dom_cpus_def a8k_topo_def)
  have l: "length (fst a8k_topo) = 2" "length (snd a8k_topo) = 4" "level (fst a8k_topo ! 0) = 1" "level (fst a8k_topo ! 1) = 1"
      "lock_index (fst a8k_topo ! 0) = 0" "lock_index (fst a8k_topo ! 1) = 1"
    by (simp_all add: a8k_topo_def)
  show ?thesis using a d l by (simp add: wf_topo_def num_sets)
qed

lemma a8k_tree:
  assumes "length regs = 4"
  shows "\<exists>s0. do { s \<leftarrow> populate_power_domain_tree a8k_config (plat_get_power_domain_tree_desc 2 2) (psci_bss a8k_config regs);
                   psci_update_pwrlvl_limits a8k_config s } = Some s0 \<and>
     wf_psci a8k_config a8k_topo s0 \<and> set (lock_holder s0) \<subseteq> {None} \<and> ptr_ok s0 \<and>
     cpu_data s0 = replicate (PLATFORM_CORE_COUNT a8k_config) (fresh_cpu a8k_config)"
proof -
  obtain r0 r1 r2 r3 where r: "regs = [r0, r1, r2, r3]"
    using assms by (auto simp: numeral_eq_Suc length_Suc_conv)
  have w: "wf_psci a8k_config a8k_topo s0 \<longleftrightarrow> shape a8k_config s0 \<and> topo s0 = a8k_topo" for s0
    using a8k_wf_topo by (simp add: wf_psci_def)
  show ?thesis
    unfolding r w
    by (simp add: setup_eval shape_def topo_def a8k_topo_def erase_state_def ptr_ok_def fresh_cpu_def)
qed

lemma a8k_anc: "c < 4 \<Longrightarrow> anc a8k_topo c 1 = c div 2"
proof -
  assume "c < 4"
  then have "c = 0 \<or> c = 1 \<or> c = 2 \<or> c = 3" by auto
  then show ?thesis by (elim disjE) (simp_all add: anc_def a8k_topo_def)
qed

lemma a8k_setup:
  assumes "length regs = 4" "my < 4"
  shows "\<exists>s. psci_setup a8k_config ops (plat_get_power_domain_tree_desc 2 2) my (psci_bss a8k_config regs) = Some s \<and>
     psci_inv a8k_config a8k_topo (s, start_modes a8k_config my) \<and> psci_caps s = setup_caps ops \<and>
     (\<forall>c. c < 4 \<longrightarrow> c \<noteq> my \<longrightarrow> aff_info_state (cpu_data s ! c) = AFF_STATE_OFF)"
proof -
  obtain s0 where s0: "do { s \<leftarrow> populate_power_domain_tree a8k_config (plat_get_power_domain_tree_desc 2 2) (psci_bss a8k_config regs);
                   psci_update_pwrlvl_limits a8k_config s } = Some s0" "wf_psci a8k_config a8k_topo s0"
     "set (lock_holder s0) \<subseteq> {None}" "ptr_ok s0"
     "cpu_data s0 = replicate (PLATFORM_CORE_COUNT a8k_config) (fresh_cpu a8k_config)"
    using a8k_tree [OF assms(1)] by blast
  have my: "my < PLATFORM_CORE_COUNT a8k_config" using assms(2) by simp
  show ?thesis using setup_inv [OF s0(1-4) my s0(5), of ops] unfolding a8k_sel(2) .
qed

text \<open>The states that a system reaches after the setup on the processor that boots.\<close>

definition psci_reachable ::
  "psci_config \<Rightarrow> plat_psci_ops \<Rightarrow> spd_pm_ops option \<Rightarrow> u8 list \<Rightarrow> psci_state \<times> cpu_mode list \<Rightarrow> bool"
where
  "psci_reachable K ops spd desc x \<longleftrightarrow>
     (\<exists>regs my s. length regs = PLATFORM_CORE_COUNT K \<and> my < PLATFORM_CORE_COUNT K \<and>
        psci_setup K ops desc my (psci_bss K regs) = Some s \<and> (psci_step K ops spd)\<^sup>*\<^sup>* (s, start_modes K my) x)"

lemma a8k_reachable_inv:
  assumes "spd_ok spd" "psci_reachable a8k_config (a8k_psci_pm_ops routing) spd (plat_get_power_domain_tree_desc 2 2) x"
  shows "psci_inv a8k_config a8k_topo x"
proof -
  obtain regs my s where r: "length regs = 4" "my < 4"
      "psci_setup a8k_config (a8k_psci_pm_ops routing) (plat_get_power_domain_tree_desc 2 2) my (psci_bss a8k_config regs) = Some s"
      "(psci_step a8k_config (a8k_psci_pm_ops routing) spd)\<^sup>*\<^sup>* (s, start_modes a8k_config my) x"
    using assms(2) by (auto simp: psci_reachable_def)
  have "psci_inv a8k_config a8k_topo (s, start_modes a8k_config my)"
    using a8k_setup [OF r(1,2), of "a8k_psci_pm_ops routing"] r(3) by auto
  then show ?thesis by (rule a8k.steps_inv [OF assms(1) _ r(4)])
qed

section \<open>Turning a processor on\<close>

lemma ns_ep_attr: "psci_get_ns_ep_info c entry ctx = Inr ep \<Longrightarrow>
  GET_SECURITY_STATE (ep_attr ep) = NON_SECURE \<and> ep_pc ep = entry \<and> ep_args ep = ctx # replicate 7 0"
  by (auto simp: psci_get_ns_ep_info_def Let_def GET_SECURITY_STATE_def cm_consts split: if_split_asm)

lemma cpu_on_start_off:
  assumes "psci_inv K t (s, ms)" "c < PLATFORM_CORE_COUNT K" "plat_core_pos_by_mpidr ops target = int i" "i < PLATFORM_CORE_COUNT K"
    "pwr_domain_on ops = Some (\<lambda>_. 0)" "pwr_domain_on_finish ops \<noteq> None" "GET_SECURITY_STATE (ep_attr ep) = NON_SECURE"
    "aff_info_state (cpu_data s ! i) = AFF_STATE_OFF"
  shows "psci_cpu_on_start ops c target ep s = Some (PSCI_E_SUCCESS,
     (psci_set_aff_info_state_by_idx i AFF_STATE_ON_PENDING s)\<lparr>cpu_regs := (cpu_regs s)[i :=
        cm_put_ctx (cpu_regs s ! i) NON_SECURE
          (cm_init_context_common (cpu_scr_el3 (cpu_regs s ! c)) (scr_routing_model ops) ep)]\<rparr>)"
proof -
  have len: "i < length (cpu_data s)" "i < length (cpu_regs s)" "c < length (cpu_regs s)"
    using psci_inv_len [OF assms(1)] assms(2,4) by simp_all
  have "cpu_context_ptr (cpu_regs s ! i) NON_SECURE"
    using assms(1) len(2) by (simp add: psci_inv_def base_inv_def ptr_ok_def)
  then show ?thesis using assms(3,5-8) len
    by (simp add: psci_cpu_on_start_def Let_def nth_opt_def cpu_on_validate_state_def psci_errors
        psci_set_aff_info_state_by_idx_def cm_init_context_by_index_def cm_ctx_def cm_get_context_def)
qed

lemma cpu_on_start_not_off:
  assumes "psci_inv K t (s, ms)" "plat_core_pos_by_mpidr ops target = int i" "i < PLATFORM_CORE_COUNT K"
    "pwr_domain_on ops \<noteq> None" "pwr_domain_on_finish ops \<noteq> None" "aff_info_state (cpu_data s ! i) \<noteq> AFF_STATE_OFF"
  shows "psci_cpu_on_start ops c target ep s =
     Some (if aff_info_state (cpu_data s ! i) = AFF_STATE_ON then PSCI_E_ALREADY_ON else PSCI_E_ON_PENDING, s)"
  using assms(2-6) psci_inv_len [OF assms(1)]
  by (cases "aff_info_state (cpu_data s ! i)")
     (simp_all add: psci_cpu_on_start_def Let_def nth_opt_def cpu_on_validate_state_def psci_errors)

lemma cluster_bits: "drop_bit 7 (m AND 0xff00) = push_bit 1 (drop_bit 8 m AND (0xff :: u64))"
proof -
  have n: "(0xff00 :: u64) = push_bit 8 (mask 8)" "(0xff :: u64) = mask 8"
    by (simp_all add: push_bit_eq_mult mask_eq_exp_minus_1)
  show ?thesis unfolding n
  proof (rule bit_word_eqI)
    fix k assume "k < LENGTH(64)"
    then have k: "k < 64" by simp
    have 1: "bit (push_bit 1 (drop_bit 8 m AND mask 8 :: u64)) k \<longleftrightarrow> 1 \<le> k \<and> bit m (8 + (k - 1)) \<and> k - 1 < 8"
      unfolding bit_push_bit_iff bit_and_iff bit_drop_bit_eq o_apply bit_mask_iff using k by auto
    have 2: "bit (drop_bit 7 (m AND push_bit 8 (mask 8))) k \<longleftrightarrow> bit m (7 + k) \<and> 8 \<le> 7 + k \<and> 7 + k - 8 < 8"
      unfolding bit_push_bit_iff bit_and_iff bit_drop_bit_eq o_apply bit_mask_iff by (auto dest: bit_imp_le_length)
    show "bit (drop_bit 7 (m AND push_bit 8 (mask 8))) k \<longleftrightarrow> bit (push_bit 1 (drop_bit 8 m AND mask 8)) k"
      unfolding 1 2 by (cases k) auto
  qed
qed

lemma a8k_core_pos: "marvell_core_pos_by_mpidr 2 2 m = - 1 \<or> (\<exists>i<4. marvell_core_pos_by_mpidr 2 2 m = int i)"
proof (cases "marvell_check_mpidr 2 2 m = - 1")
  case False
  define cl cp where "cl = drop_bit 8 m AND 0xff" and "cp = m AND 0xff"
  have "(m AND MPIDR_AFFINITY_MASK) AND 0xff = cp" by (simp add: cp_def MPIDR_AFFINITY_MASK_def and.assoc)
  moreover have "drop_bit 8 (m AND MPIDR_AFFINITY_MASK) AND 0xff = cl"
    by (simp add: cl_def MPIDR_AFFINITY_MASK_def drop_bit_and and.assoc)
  ultimately have b: "unat cl < 2" "unat cp < 2"
    using False by (auto simp: marvell_check_mpidr_def Let_def split: if_split_asm)
  have "unat (push_bit 1 cl) = 2 * unat cl"
    using b(1) by (simp add: push_bit_eq_mult unat_word_ariths(2))
  then have "unat (cp + push_bit 1 cl) = unat cp + 2 * unat cl"
    using b by (simp add: unat_word_ariths(1))
  then have "uint (plat_marvell_calc_core_pos m) = int (unat cp + 2 * unat cl)"
    unfolding plat_marvell_calc_core_pos_def cluster_bits cl_def [symmetric] cp_def [symmetric] by (metis uint_nat)
  then show ?thesis using b False by (intro disjI2 exI [of _ "unat cp + 2 * unat cl"]) (simp add: marvell_core_pos_by_mpidr_def)
qed (simp add: marvell_core_pos_by_mpidr_def)

section \<open>Suspend requests\<close>

lemma depth_loop_iff:
  "depth_loop K pd d n \<longleftrightarrow> (\<forall>i<n. d \<le> find_local_state_type K (pd ! i)) \<and>
     (\<forall>i j. i \<le> j \<longrightarrow> j < n \<longrightarrow> find_local_state_type K (pd ! j) \<le> find_local_state_type K (pd ! i))"
proof (induction n arbitrary: d)
  case (Suc n)
  let ?f = "\<lambda>i. find_local_state_type K (pd ! i)"
  have "depth_loop K pd d (Suc n) \<longleftrightarrow> d \<le> ?f n \<and> (\<forall>i<n. ?f n \<le> ?f i) \<and> (\<forall>i j. i \<le> j \<longrightarrow> j < n \<longrightarrow> ?f j \<le> ?f i)"
    using Suc.IH [of "?f n"] by (auto simp: Let_def not_less)
  also have "\<dots> \<longleftrightarrow> (\<forall>i<Suc n. d \<le> ?f i) \<and> (\<forall>i j. i \<le> j \<longrightarrow> j < Suc n \<longrightarrow> ?f j \<le> ?f i)"
    by (auto simp: less_Suc_eq intro: order_trans) (metis le_less order_trans)+
  finally show ?case .
qed simp

lemma find_level_down_iff:
  "n \<le> x \<Longrightarrow> (find_level_down P pd x n = x \<longleftrightarrow> (\<forall>i<n. \<not> P (pd ! i)))"
  "find_level_down P pd x n \<noteq> x \<Longrightarrow> P (pd ! find_level_down P pd x n) \<and>
     (\<forall>i. find_level_down P pd x n < i \<longrightarrow> i < n \<longrightarrow> \<not> P (pd ! i))"
  by (induction n) (auto simp: less_Suc_eq split: if_splits)

lemma target_invalid_iff:
  "psci_find_target_suspend_lvl K pd = PSCI_INVALID_PWR_LVL K \<longleftrightarrow> (\<forall>l\<le>PLAT_MAX_PWR_LVL K. pd ! l = PSCI_LOCAL_STATE_RUN)"
  using find_level_down_iff(1) [of "PLAT_MAX_PWR_LVL K + 1" "PSCI_INVALID_PWR_LVL K" "\<lambda>st. \<not> is_local_state_run st" pd]
  by (simp only: psci_find_target_suspend_lvl_def PSCI_INVALID_PWR_LVL_def is_local_state_run_def) (simp add: less_Suc_eq_le)

lemma max_off_invalid_iff:
  assumes "\<forall>l\<le>PLAT_MAX_PWR_LVL K. pd ! l \<le> PLAT_MAX_OFF_STATE K"
  shows "psci_find_max_off_lvl K pd = PSCI_INVALID_PWR_LVL K \<longleftrightarrow> (\<forall>l\<le>PLAT_MAX_PWR_LVL K. pd ! l \<le> PLAT_MAX_RET_STATE K)"
proof -
  have "is_local_state_off K (pd ! l) \<longleftrightarrow> \<not> pd ! l \<le> PLAT_MAX_RET_STATE K" if "l < PLAT_MAX_PWR_LVL K + 1" for l
    using assms that by (simp add: is_local_state_off_def not_le less_Suc_eq_le)
  moreover have "l < PLAT_MAX_PWR_LVL K + 1 \<longleftrightarrow> l \<le> PLAT_MAX_PWR_LVL K" for l by (simp add: less_Suc_eq_le)
  ultimately show ?thesis
    using find_level_down_iff(1) [of "PLAT_MAX_PWR_LVL K + 1" "PSCI_INVALID_PWR_LVL K" "is_local_state_off K" pd]
    unfolding psci_find_max_off_lvl_def PSCI_INVALID_PWR_LVL_def by blast
qed

lemma target_depth_iff:
  assumes "psci_find_target_suspend_lvl K pd \<noteq> PSCI_INVALID_PWR_LVL K" (is "?t \<noteq> ?x")
  shows "depth_loop K pd 0 (?t + 1) \<longleftrightarrow>
    (\<forall>i j. i \<le> j \<longrightarrow> j \<le> PLAT_MAX_PWR_LVL K \<longrightarrow> find_local_state_type K (pd ! j) \<le> find_local_state_type K (pd ! i))"
proof -
  let ?f = "\<lambda>i. find_local_state_type K (pd ! i)" and ?M = "PLAT_MAX_PWR_LVL K"
  note found = assms [unfolded psci_find_target_suspend_lvl_def]
  have run: "is_local_state_run (pd ! i)" if "?t < i" "i < ?M + 1" for i
    using find_level_down_iff(2) [OF found] that unfolding psci_find_target_suspend_lvl_def by blast
  have above: "?f i = 0" if "?t < i" "i \<le> ?M" for i
    using run [of i] that by (simp add: find_local_state_type_def is_local_state_run_def PSCI_LOCAL_STATE_RUN_def)
  have "?t < ?M + 1" using find_level_down_le [OF found] unfolding psci_find_target_suspend_lvl_def .
  then have le: "j \<le> ?M" if "j < ?t + 1" for j using that by linarith
  have low: "?f j \<le> ?f i" if "\<forall>i j. i \<le> j \<longrightarrow> j < ?t + 1 \<longrightarrow> ?f j \<le> ?f i" "i \<le> j" "j \<le> ?M" for i j
  proof (cases "?t < j")
    case True
    show ?thesis unfolding above [OF True that(3)] by (rule le0)
  next
    case False
    then have "j < ?t + 1" by linarith
    then show ?thesis using that(1,2) by blast
  qed
  show ?thesis unfolding depth_loop_iff
    by (rule iffI) (use low le in blast)+
qed

text \<open>
  C22. A suspend request is accepted exactly when some level leaves the run state, no level is in a
  shallower kind of state (run, retention, off) than a level above it, and a standby request turns no
  level off.
\<close>

theorem psci_validate_suspend_req_iff:
  assumes "\<forall>l\<le>PLAT_MAX_PWR_LVL K. pd ! l \<le> PLAT_MAX_OFF_STATE K"
  shows "psci_validate_suspend_req K pd down = PSCI_E_SUCCESS \<longleftrightarrow>
    (\<exists>l\<le>PLAT_MAX_PWR_LVL K. pd ! l \<noteq> PSCI_LOCAL_STATE_RUN) \<and>
    (\<forall>i j. i \<le> j \<longrightarrow> j \<le> PLAT_MAX_PWR_LVL K \<longrightarrow> find_local_state_type K (pd ! j) \<le> find_local_state_type K (pd ! i)) \<and>
    (down \<or> (\<forall>l\<le>PLAT_MAX_PWR_LVL K. pd ! l \<le> PLAT_MAX_RET_STATE K))"
proof (cases "psci_find_target_suspend_lvl K pd = PSCI_INVALID_PWR_LVL K")
  case True
  then have "psci_validate_suspend_req K pd down \<noteq> PSCI_E_SUCCESS" by (simp add: psci_validate_suspend_req_def psci_errors)
  then show ?thesis using True target_invalid_iff [of K pd] by blast
next
  case False
  then have t: "\<exists>l\<le>PLAT_MAX_PWR_LVL K. pd ! l \<noteq> PSCI_LOCAL_STATE_RUN" using target_invalid_iff [of K pd] by blast
  have "psci_validate_suspend_req K pd down = PSCI_E_SUCCESS \<longleftrightarrow>
      depth_loop K pd 0 (psci_find_target_suspend_lvl K pd + 1) \<and> (down \<or> psci_find_max_off_lvl K pd = PSCI_INVALID_PWR_LVL K)"
    using False by (auto simp: psci_validate_suspend_req_def Let_def psci_errors simp del: depth_loop.simps)
  then show ?thesis unfolding target_depth_iff [OF False] max_off_invalid_iff [OF assms] using t by blast
qed

theorem psci_validate_suspend_req_iff_witness:
  "psci_validate_suspend_req a8k_config [2, 0] True = PSCI_E_SUCCESS \<and>
   psci_validate_suspend_req a8k_config [0, 2] True \<noteq> PSCI_E_SUCCESS"
proof -
  have le1: "(\<forall>l\<le>Suc 0. P l) \<longleftrightarrow> P 0 \<and> P (Suc 0)" for P by (auto simp: le_Suc_eq)
  have "\<forall>l\<le>PLAT_MAX_PWR_LVL a8k_config. [2, 0 :: u8] ! l \<le> PLAT_MAX_OFF_STATE a8k_config"
    "\<forall>l\<le>PLAT_MAX_PWR_LVL a8k_config. [0, 2 :: u8] ! l \<le> PLAT_MAX_OFF_STATE a8k_config" by (simp_all add: le1)
  note * = this [THEN psci_validate_suspend_req_iff, of True]
  have "psci_validate_suspend_req a8k_config [2, 0] True = PSCI_E_SUCCESS"
    unfolding *(1)
  proof (intro conjI allI impI)
    show "\<exists>l\<le>PLAT_MAX_PWR_LVL a8k_config. [2, 0 :: u8] ! l \<noteq> PSCI_LOCAL_STATE_RUN"
      by (rule exI [of _ 0]) (simp add: PSCI_LOCAL_STATE_RUN_def)
    fix i j :: nat assume "i \<le> j" "j \<le> PLAT_MAX_PWR_LVL a8k_config"
    then have "i = j \<or> i = 0 \<and> j = 1" by auto
    then show "find_local_state_type a8k_config ([2, 0 :: u8] ! j) \<le> find_local_state_type a8k_config ([2, 0] ! i)"
      by (elim disjE) (simp_all add: find_local_state_type_def)
  qed simp
  moreover have "\<not> find_local_state_type a8k_config ([0, 2 :: u8] ! 1) \<le> find_local_state_type a8k_config ([0, 2] ! 0)"
    by (simp add: find_local_state_type_def)
  then have "psci_validate_suspend_req a8k_config [0, 2] True \<noteq> PSCI_E_SUCCESS"
    unfolding *(2) by (metis a8k_sel(1) order_refl zero_le)
  ultimately show ?thesis by blast
qed

section \<open>Properties of the Armada 8K\<close>

text \<open>A processor at the boot of the runtime firmware, for the concrete instances below.\<close>

definition boot_cpu :: cpu_state where
  "boot_cpu = \<lparr>cpu_scr_el3 = SCR_RW_BIT, cpu_el1 = (\<lambda>_. 0),
     cpu_el2 = \<lparr>r_sctlr_el2 = 0, r_hcr_el2 = 0, r_cptr_el2 = 0, r_cnthctl_el2 = 0, r_cntvoff_el2 = 0,
                r_vpidr_el2 = 0, r_vmpidr_el2 = 0, r_vttbr_el2 = 0\<rparr>,
     cpu_id_aa64pfr0 = 0, cpu_midr = 0, cpu_mpidr = 0, cpu_context = (\<lambda>_. zero_context),
     cpu_context_ptr = (\<lambda>_. False), cpu_next = 1\<rparr>"

abbreviation a8k_boots :: "u32 \<Rightarrow> cpu_state list \<Rightarrow> nat \<Rightarrow> psci_state option" where
  "a8k_boots routing regs my \<equiv> psci_setup a8k_config (a8k_psci_pm_ops routing) (plat_get_power_domain_tree_desc 2 2) my
     (psci_bss a8k_config regs)"

abbreviation a8k_reachable :: "u32 \<Rightarrow> spd_pm_ops option \<Rightarrow> psci_state \<times> cpu_mode list \<Rightarrow> bool" where
  "a8k_reachable routing spd \<equiv>
     psci_reachable a8k_config (a8k_psci_pm_ops routing) spd (plat_get_power_domain_tree_desc 2 2)"

lemma spd_ok_None [simp]: "spd_ok None"
  by (simp add: spd_ok_def)

lemma a8k_dom_cpus: "c < 4 \<Longrightarrow> dom_cpus a8k_topo (c div 2) = {2 * (c div 2), 2 * (c div 2) + 1}"
proof -
  assume "c < 4"
  then have "c div 2 = 0 \<or> c div 2 = 1" by presburger
  then show ?thesis by (elim disjE) (auto simp: dom_cpus_def a8k_topo_def)
qed

lemma a8k_reachable_start:
  assumes "length regs = 4" "my < 4" "a8k_boots routing regs my = Some s"
  shows "a8k_reachable routing spd (s, start_modes a8k_config my)"
  using assms by (auto simp: psci_reachable_def)

lemma shallowest_zero: "R l i = 0 \<Longrightarrow> i \<in> dom_cpus t (anc t c l) \<Longrightarrow> shallowest K t c R l = 0"
proof -
  assume a: "R l i = 0" "i \<in> dom_cpus t (anc t c l)"
  have "finite (insert (PLAT_MAX_OFF_STATE K) (R l ` dom_cpus t (anc t c l)))" by (simp add: dom_cpus_def)
  moreover have "0 \<in> insert (PLAT_MAX_OFF_STATE K) (R l ` dom_cpus t (anc t c l))" using a by force
  ultimately have "shallowest K t c R l \<le> 0" unfolding shallowest_def by (rule Min_le)
  then show ?thesis by simp
qed

lemma psci_inv_topo: "psci_inv K t (s, ms) \<Longrightarrow> topo s = t"
  by (simp add: psci_inv_def base_inv_def wf_psci_def)

lemma a8k_ops_sel [simp]:
  "cpu_standby (a8k_psci_pm_ops r) = Some (\<lambda>_. None)" "pwr_domain_on (a8k_psci_pm_ops r) = Some (\<lambda>_. 0)"
  "pwr_domain_on_finish (a8k_psci_pm_ops r) = Some ()" "pwr_domain_off (a8k_psci_pm_ops r) = Some ()"
  "validate_power_state (a8k_psci_pm_ops r) = Some (\<lambda>p q. Some (a8k_validate_power_state p q))"
  "validate_ns_entrypoint (a8k_psci_pm_ops r) = Some (\<lambda>_. PSCI_E_SUCCESS)"
  "plat_core_pos_by_mpidr (a8k_psci_pm_ops r) = marvell_core_pos_by_mpidr 2 2" "scr_routing_model (a8k_psci_pm_ops r) = r"
  by (simp_all add: a8k_psci_pm_ops_def)

lemma a8k_caps: "setup_caps (a8k_psci_pm_ops r) = 0x471f"
  by (simp add: setup_caps_def a8k_psci_pm_ops_def PSCI_GENERIC_CAP_def define_psci_cap_def psci_fids push_bit_eq_mult)

lemma even_entry: "\<exists>ep. psci_get_ns_ep_info c 0 ctx = Inr ep"
  by (simp add: psci_get_ns_ep_info_def Let_def)

lemma a8k_reachable_step: "a8k_reachable r spd x \<Longrightarrow> psci_step a8k_config (a8k_psci_pm_ops r) spd x y \<Longrightarrow> a8k_reachable r spd y"
  unfolding psci_reachable_def by (meson rtranclp.rtrancl_into_rtrancl)

lemma ns_ep_error: "psci_get_ns_ep_info c entry ctx = Inl rc \<Longrightarrow> rc \<noteq> PSCI_E_SUCCESS"
  by (auto simp: psci_get_ns_ep_info_def Let_def psci_errors split: if_split_asm)

lemma running_inv:
  assumes "psci_inv a8k_config a8k_topo (s, ms)" "c < 4" "ms ! c = Running"
  shows "nc_local_state (non_cpu_nodes s ! (c div 2)) = PSCI_LOCAL_STATE_RUN \<and>
    local_state (cpu_data s ! c) = PSCI_LOCAL_STATE_RUN \<and> aff_info_state (cpu_data s ! c) = AFF_STATE_ON"
proof -
  have ok: "cpu_ok a8k_config s c Running" using assms by (auto simp: psci_inv_def)
  then have "req s 1 c = 0" by (simp add: runs_above_def)
  then have "nst s (anc a8k_topo c 1) = 0" using assms(1,2) by (simp add: psci_inv_def base_inv_def dom_ok_def)
  then show ?thesis using ok a8k_anc [OF assms(2)] by (simp add: nst_def PSCI_LOCAL_STATE_RUN_def)
qed

text \<open>A state in which one processor has turned another of its cluster on, and one in which both run.\<close>

lemma a8k_one_pending:
  "\<exists>s ms. a8k_reachable 0 None (s, ms) \<and> ms ! 0 = Running \<and> ms ! 1 = Powered_Down \<and> length ms = 4 \<and>
     aff_info_state (cpu_data s ! 1) \<noteq> AFF_STATE_OFF"
proof -
  let ?ops = "a8k_psci_pm_ops 0" and ?ms = "start_modes a8k_config 0"
  let ?env = "\<lparr>env_spd = None, env_scp = False, env_isr = False, env_stack = [0, 0]\<rparr>"
  obtain s where s: "a8k_boots 0 (replicate 4 boot_cpu) 0 = Some s" "psci_inv a8k_config a8k_topo (s, ?ms)"
      "psci_caps s = setup_caps ?ops" "\<forall>c. c < 4 \<longrightarrow> c \<noteq> 0 \<longrightarrow> aff_info_state (cpu_data s ! c) = AFF_STATE_OFF"
    using a8k_setup [of "replicate 4 boot_cpu" 0 ?ops] by auto
  have m: "?ms = [Running, Powered_Down, Powered_Down, Powered_Down]" by (simp add: start_modes_def replicate_num)
  have r: "a8k_reachable 0 None (s, ?ms)" by (rule a8k_reachable_start [OF _ _ s(1)]) simp_all
  obtain ep where ep: "psci_get_ns_ep_info (cpu_regs s ! 0) 0 0 = Inr ep" using even_entry by blast
  have aff: "aff_info_state (cpu_data s ! 1) = AFF_STATE_OFF" using s(4) by simp
  let ?s = "(psci_set_aff_info_state_by_idx 1 AFF_STATE_ON_PENDING s)\<lparr>cpu_regs := (cpu_regs s)[1 :=
        cm_put_ctx (cpu_regs s ! 1) NON_SECURE (cm_init_context_common (cpu_scr_el3 (cpu_regs s ! 0)) 0 ep)]\<rparr>"
  have pos: "marvell_core_pos_by_mpidr 2 2 1 = int 1"
    by (simp add: marvell_core_pos_by_mpidr_def marvell_check_mpidr_def plat_marvell_calc_core_pos_def MPIDR_AFFINITY_MASK_def)
  have "psci_cpu_on_start ?ops 0 1 ep s = Some (PSCI_E_SUCCESS, ?s)"
    using cpu_on_start_off [OF s(2), of 0 ?ops 1 1 ep] pos aff ns_ep_attr [OF ep] by simp
  then have on: "psci_cpu_on ?ops 0 1 0 0 s = Some (PSCI_E_SUCCESS, ?s)"
    using ep pos psci_inv_len [OF s(2)]
    by (simp add: psci_cpu_on_def psci_validate_mpidr_def psci_validate_entry_point_def nth_opt_def psci_errors)
  have "psci_smc_handler a8k_config ?ops ?env 0 PSCI_CPU_ON_AARCH64 1 0 0 1 s = Some (Ret 0, ?s)"
    by (simp add: psci_smc_handler_def is_caller_secure_def s(3) a8k_caps define_psci_cap_def psci_fids GET_SMC_CC_def
        psci_smc64_def res_int_def on psci_errors push_bit_eq_mult)
  then have "psci_step a8k_config ?ops None (s, ?ms) (?s, ?ms[0 := Running])"
    by (rule psci_step.smc [rotated 4]) (simp_all add: m)
  then have st1: "psci_step a8k_config ?ops None (s, ?ms) (?s, ?ms)" by (simp add: m)
  have "aff_info_state (cpu_data ?s ! 1) \<noteq> AFF_STATE_OFF"
    using psci_inv_len [OF s(2)] by (simp add: psci_set_aff_info_state_by_idx_def)
  moreover have "a8k_reachable 0 None (?s, ?ms)" by (rule a8k_reachable_step [OF r st1])
  ultimately show ?thesis using m by (intro exI [of _ ?s] exI [of _ ?ms]) simp
qed

lemma a8k_two_running:
  "\<exists>s ms. a8k_reachable 0 None (s, ms) \<and> psci_inv a8k_config a8k_topo (s, ms) \<and> ms ! 0 = Running \<and> ms ! 1 = Running"
proof -
  obtain s ms where s: "a8k_reachable 0 None (s, ms)" "ms ! 0 = Running" "ms ! 1 = Powered_Down" "length ms = 4"
      "aff_info_state (cpu_data s ! 1) \<noteq> AFF_STATE_OFF"
    using a8k_one_pending by blast
  have inv: "psci_inv a8k_config a8k_topo (s, ms)" by (rule a8k_reachable_inv [OF spd_ok_None s(1)])
  obtain s2 where s2: "psci_warmboot_entrypoint a8k_config None 1 s = Some s2"
      "psci_inv a8k_config a8k_topo (s2, ms[1 := Running])"
    using boot_inv [OF inv _ s(3) spd_ok_None s(5)] by auto
  have "psci_step a8k_config (a8k_psci_pm_ops 0) None (s, ms) (s2, ms[1 := Running])"
    by (rule psci_step.boot [OF _ s(3) s2(1)]) (simp add: s(4))
  then have "a8k_reachable 0 None (s2, ms[1 := Running])" by (rule a8k_reachable_step [OF s(1)])
  then show ?thesis using s2(2) s(2,4) by (intro exI [of _ s2] exI [of _ "ms[1 := Running]"]) simp
qed

lemma cpu_off_goes_down:
  assumes "psci_inv K t (s, ms)" "c < PLATFORM_CORE_COUNT K" "pwr_domain_off ops \<noteq> None" "1 \<le> PLAT_MAX_PWR_LVL K"
  shows "\<exists>si s'. psci_do_cpu_off K ops None scp c (PLAT_MAX_PWR_LVL K) s = Some (Down, si, s')"
proof -
  let ?e = "PLAT_MAX_PWR_LVL K" and ?pd = "psci_set_power_off_state K"
  let ?L = "lock_set (lock_range t c ?e) (Some c) (lock_holder s)"
  have b: "base_inv K t s" using assms(1) by (simp add: psci_inv_def)
  have w: "wf_psci K t s" "set (lock_holder s) \<subseteq> {None}" using b by (simp_all add: base_inv_def)
  have pl: "length ?pd = ?e + 1" by (simp add: psci_set_power_off_state_def)
  obtain pd' s1 where s1: "psci_do_state_coordination K c ?e ?pd (s\<lparr>lock_holder := ?L\<rparr>) = Some (pd', s1)" "length pd' = length ?pd"
     "lock_holder s1 = ?L" "base_inv K t (s1\<lparr>lock_holder := lock_holder s\<rparr>)"
    using coordinate_locked [OF b assms(2) order_refl pl] by (elim exE conjE) simp
  have "psci_release_pwr_domain_locks ?e c s1 = Some (s1\<lparr>lock_holder := lock_holder s\<rparr>)"
    by (rule release_locked [OF b assms(2) order_refl locked_wf [OF s1(4)] s1(3)]) (simp add: s1(3))
  then show ?thesis using assms(3,4) psci_acquire [OF w(1) assms(2) order_refl w(2)] s1(1,2) pl
    by (auto simp: psci_do_cpu_off_def psci_errors)
qed

text \<open>
  C16. The setup of the library on an Armada 8K stops at no assertion, whichever processor boots: it
  builds the tree of two clusters with two processors each, and a state that satisfies the invariant
  in which the booting processor runs and the others are off.
\<close>

theorem a8k_psci_setup:
  assumes "length regs = 4" "my < 4"
  shows "\<exists>s. a8k_boots routing regs my = Some s \<and> topo s = a8k_topo \<and>
    (\<forall>c. c < 4 \<longrightarrow> anc (topo s) c 1 = c div 2 \<and> dom_cpus (topo s) (c div 2) = {2 * (c div 2), 2 * (c div 2) + 1}) \<and>
    psci_inv a8k_config (topo s) (s, start_modes a8k_config my)"
proof -
  obtain s where s: "a8k_boots routing regs my = Some s" "psci_inv a8k_config a8k_topo (s, start_modes a8k_config my)"
    using a8k_setup [OF assms] by blast
  have t: "topo s = a8k_topo" by (rule psci_inv_topo [OF s(2)])
  show ?thesis
    by (rule exI [of _ s], unfold t, intro conjI allI impI)
       (rule s(1) refl s(2) a8k_anc a8k_dom_cpus, assumption?)+
qed

theorem a8k_psci_setup_witness:
  "\<exists>s. a8k_boots 0 (replicate 4 boot_cpu) 2 = Some s \<and> anc (topo s) 3 1 = 1"
proof -
  obtain s where "a8k_boots 0 (replicate 4 boot_cpu) 2 = Some s" "\<forall>c. c < 4 \<longrightarrow> anc (topo s) c 1 = c div 2"
    using a8k_psci_setup [of "replicate 4 boot_cpu" 2 0] by auto
  then show ?thesis by (intro exI [of _ s]) simp
qed

text \<open>
  C4. In every state that an Armada 8K reaches, a running processor is reported on, its own local
  state is to run, and so is the state of its cluster: no sequence of calls, wake-ups and warm boots
  of the other processors marks the cluster of a running processor as retained or off.
\<close>

theorem a8k_running_domains_on:
  assumes "spd_ok spd" "a8k_reachable routing spd (s, ms)" "c < 4" "ms ! c = Running"
  shows "nc_local_state (non_cpu_nodes s ! (c div 2)) = PSCI_LOCAL_STATE_RUN \<and>
    local_state (cpu_data s ! c) = PSCI_LOCAL_STATE_RUN \<and> aff_info_state (cpu_data s ! c) = AFF_STATE_ON"
  by (rule running_inv [OF a8k_reachable_inv [OF assms(1,2)] assms(3,4)])

theorem a8k_running_domains_on_witness:
  "\<exists>s. a8k_reachable 0 None (s, start_modes a8k_config 2) \<and> nc_local_state (non_cpu_nodes s ! 1) = PSCI_LOCAL_STATE_RUN"
proof -
  obtain s where "a8k_boots 0 (replicate 4 boot_cpu) 2 = Some s" using a8k_setup [of "replicate 4 boot_cpu" 2] by auto
  then have r: "a8k_reachable 0 None (s, start_modes a8k_config 2)"
    by (intro a8k_reachable_start [of "replicate 4 boot_cpu"]) simp_all
  have "start_modes a8k_config 2 ! 2 = Running" by (simp add: start_modes_def)
  then show ?thesis using a8k_running_domains_on [OF _ r, of 2] r by auto
qed

text \<open>
  C6. On an Armada 8K a processor that turns itself off tells the platform to power its cluster down
  only when the other processor of the cluster is not running.
\<close>

theorem a8k_cluster_off_only_when_idle:
  assumes "spd_ok spd" "a8k_reachable routing spd (s, ms)" "c < 4" "ms ! c = Running"
    "i div 2 = c div 2" "i \<noteq> c" "ms ! i = Running"
    "psci_do_cpu_off a8k_config ops spd scp c 1 s = Some (Down, state_info, s')"
  shows "state_info ! 1 = PSCI_LOCAL_STATE_RUN"
proof -
  have inv: "psci_inv a8k_config a8k_topo (s, ms)" by (rule a8k_reachable_inv [OF assms(1,2)])
  have i: "i < 4" using assms(3,5) by presburger
  have b: "base_inv a8k_config a8k_topo s" using inv by (simp add: psci_inv_def)
  let ?L = "lock_set (lock_range a8k_topo c 1) (Some c) (lock_holder s)" and ?pd = "psci_set_power_off_state a8k_config"
  let ?s = "s\<lparr>lock_holder := ?L\<rparr>"
  have w: "wf_psci a8k_config a8k_topo s" "set (lock_holder s) \<subseteq> {None}" using b by (simp_all add: base_inv_def)
  have w1: "wf_psci a8k_config a8k_topo ?s" using w by simp
  have c: "c < PLATFORM_CORE_COUNT a8k_config" and e: "1 \<le> PLAT_MAX_PWR_LVL a8k_config" using assms(3) by simp_all
  have pl: "length ?pd = PLAT_MAX_PWR_LVL a8k_config + 1" by (simp add: psci_set_power_off_state_def)
  obtain pd' s1 where co: "psci_do_state_coordination a8k_config c 1 ?pd ?s = Some (pd', s1)" "length pd' = length ?pd"
      "\<And>l. pd' ! l = (if 1 \<le> l \<and> l \<le> 1 then coordinated a8k_config a8k_topo c (new_req ?s c 1 (1 + 1) ?pd) 1 l else ?pd ! l)"
    using do_state_coordination [OF w1 c e pl] by (elim exE conjE) simp
  have "cpu_ok a8k_config s i Running" using inv i assms(7) by (metis a8k_sel(2) fst_conv psci_inv_def snd_conv)
  then have "req s 1 i = 0" by (simp add: runs_above_def)
  then have "new_req ?s c 1 (1 + 1) ?pd 1 i = 0" using assms(6) by (simp add: new_req_def req_def)
  moreover have "i \<in> dom_cpus a8k_topo (anc a8k_topo c 1)"
    unfolding a8k_anc [OF assms(3)] a8k_dom_cpus [OF assms(3)] unfolding assms(5) [symmetric] insert_iff empty_iff by presburger
  ultimately have "shallowest a8k_config a8k_topo c (new_req ?s c 1 (1 + 1) ?pd) 1 = 0" by (rule shallowest_zero)
  then have "pd' ! 1 = 0" using co(3) [of 1] by (simp add: coordinated_first)
  have acq: "psci_acquire_pwr_domain_locks 1 c s = Some ?s" by (rule psci_acquire [OF w(1) c e w(2)])
  define rc where "rc = (case spd of Some p \<Rightarrow> (case svc_off p of Some r \<Rightarrow> r | None \<Rightarrow> PSCI_E_SUCCESS) | None \<Rightarrow> PSCI_E_SUCCESS)"
  have "\<exists>s2. state_info = (if scp then pd'[1 := PSCI_LOCAL_STATE_RUN] else pd') \<and> psci_release_pwr_domain_locks 1 c s1 = Some s2"
    using assms(8) acq co(1) unfolding psci_do_cpu_off_def rc_def [symmetric] Let_def
    by (cases "rc = 0") (auto simp: bind_eq_Some_conv)
  then show ?thesis using \<open>pd' ! 1 = 0\<close> co(2) pl by (auto simp: PSCI_LOCAL_STATE_RUN_def)
qed

theorem a8k_cluster_off_only_when_idle_witness:
  "\<exists>s ms state_info s'. a8k_reachable 0 None (s, ms) \<and>
     psci_do_cpu_off a8k_config (a8k_psci_pm_ops 0) None False 0 1 s = Some (Down, state_info, s') \<and>
     state_info ! 1 = PSCI_LOCAL_STATE_RUN"
proof -
  obtain s ms where s: "a8k_reachable 0 None (s, ms)" "psci_inv a8k_config a8k_topo (s, ms)" "ms ! 0 = Running" "ms ! 1 = Running"
    using a8k_two_running by blast
  obtain si s' where d: "psci_do_cpu_off a8k_config (a8k_psci_pm_ops 0) None False 0 1 s = Some (Down, si, s')"
    using cpu_off_goes_down [OF s(2), of 0 "a8k_psci_pm_ops 0" False] by auto
  have "si ! 1 = PSCI_LOCAL_STATE_RUN"
    by (rule a8k_cluster_off_only_when_idle [OF spd_ok_None s(1) _ s(3) _ _ s(4) d]) simp_all
  then show ?thesis using s(1) d by blast
qed

text \<open>
  C5. In every state that an Armada 8K reaches, a processor that comes back is served: the warm boot
  of a processor that is suspended or being turned on, and the wake-up of one in standby, end without
  an assertion or a panic, and leave the processor reported on with its cluster running. The hypothesis
  on a secure payload dispatcher is that one with a suspend hook also has the hook for its end.
\<close>

theorem a8k_resume_never_stops:
  assumes "spd_ok spd" "a8k_reachable routing spd (s, ms)" "c < 4"
  shows "(ms ! c = Powered_Down \<longrightarrow> aff_info_state (cpu_data s ! c) \<noteq> AFF_STATE_OFF \<longrightarrow>
      (\<exists>s'. psci_warmboot_entrypoint a8k_config spd c s = Some s' \<and> aff_info_state (cpu_data s' ! c) = AFF_STATE_ON \<and>
            nc_local_state (non_cpu_nodes s' ! (c div 2)) = PSCI_LOCAL_STATE_RUN)) \<and>
    (\<forall>e. ms ! c = Waiting e \<longrightarrow>
      (\<exists>s'. psci_suspend_to_standby_finisher a8k_config c e s = Some s' \<and> aff_info_state (cpu_data s' ! c) = AFF_STATE_ON \<and>
            nc_local_state (non_cpu_nodes s' ! (c div 2)) = PSCI_LOCAL_STATE_RUN))"
proof -
  have inv: "psci_inv a8k_config a8k_topo (s, ms)" by (rule a8k_reachable_inv [OF assms(1,2)])
  have c: "c < PLATFORM_CORE_COUNT a8k_config" using assms(3) by simp
  have len: "c < length ms" using inv assms(3) by (simp add: psci_inv_def)
  have after: "aff_info_state (cpu_data s' ! c) = AFF_STATE_ON \<and> nc_local_state (non_cpu_nodes s' ! (c div 2)) = PSCI_LOCAL_STATE_RUN"
    if "psci_inv a8k_config a8k_topo (s', ms[c := Running])" for s'
    using running_inv [OF that assms(3)] len by simp
  show ?thesis
  proof (intro conjI allI impI)
    assume "ms ! c = Powered_Down" "aff_info_state (cpu_data s ! c) \<noteq> AFF_STATE_OFF"
    then show "\<exists>s'. psci_warmboot_entrypoint a8k_config spd c s = Some s' \<and> aff_info_state (cpu_data s' ! c) = AFF_STATE_ON \<and>
        nc_local_state (non_cpu_nodes s' ! (c div 2)) = PSCI_LOCAL_STATE_RUN"
      using boot_inv [OF inv c _ assms(1)] after by blast
  next
    fix e assume "ms ! c = Waiting e"
    then show "\<exists>s'. psci_suspend_to_standby_finisher a8k_config c e s = Some s' \<and> aff_info_state (cpu_data s' ! c) = AFF_STATE_ON \<and>
        nc_local_state (non_cpu_nodes s' ! (c div 2)) = PSCI_LOCAL_STATE_RUN"
      using wake_inv [OF inv c] after by blast
  qed
qed

theorem a8k_resume_never_stops_witness:
  "\<exists>s ms s'. a8k_reachable 0 None (s, ms) \<and> ms ! 1 = Powered_Down \<and>
     psci_warmboot_entrypoint a8k_config None 1 s = Some s' \<and> aff_info_state (cpu_data s' ! 1) = AFF_STATE_ON"
proof -
  obtain s ms where s: "a8k_reachable 0 None (s, ms)" "ms ! 1 = Powered_Down" "aff_info_state (cpu_data s ! 1) \<noteq> AFF_STATE_OFF"
    using a8k_one_pending by blast
  have "(1 :: nat) < 4" by simp
  from a8k_resume_never_stops [OF spd_ok_None s(1) this] show ?thesis using s by blast
qed

text \<open>
  C18. Turning a processor on, from any running processor of an Armada 8K in a reachable state, ends
  without an assertion. It succeeds exactly when the processor exists, the entry point suits the
  execution state of the caller and the processor is off; then the processor is being turned on, and
  its context starts at the entry point with the context identifier in its first register. Otherwise
  nothing changes.
\<close>

theorem a8k_cpu_on_outcome:
  assumes "spd_ok spd" "a8k_reachable routing spd (s, ms)" "c < 4" and pos_def: "pos = marvell_core_pos_by_mpidr 2 2 target"
  shows "\<exists>rc s'. psci_cpu_on (a8k_psci_pm_ops routing) c target entry ctx s = Some (rc, s') \<and>
    (rc = PSCI_E_SUCCESS \<longleftrightarrow> pos \<ge> 0 \<and> (\<exists>ep. psci_get_ns_ep_info (cpu_regs s ! c) entry ctx = Inr ep) \<and>
       aff_info_state (cpu_data s ! nat pos) = AFF_STATE_OFF) \<and>
    (rc \<noteq> PSCI_E_SUCCESS \<longrightarrow> s' = s) \<and>
    (rc = PSCI_E_SUCCESS \<longrightarrow> aff_info_state (cpu_data s' ! nat pos) = AFF_STATE_ON_PENDING \<and>
       cc_elr_el3 (cpu_context (cpu_regs s' ! nat pos) NON_SECURE) = entry \<and>
       cc_gpregs (cpu_context (cpu_regs s' ! nat pos) NON_SECURE) ! 0 = ctx)"
proof -
  let ?ops = "a8k_psci_pm_ops routing"
  have inv: "psci_inv a8k_config a8k_topo (s, ms)" by (rule a8k_reachable_inv [OF assms(1,2)])
  note len = psci_inv_len [OF inv]
  have call: "psci_cpu_on ?ops c target entry ctx s = (if pos < 0 then Some (PSCI_E_INVALID_PARAMS, s)
      else case psci_get_ns_ep_info (cpu_regs s ! c) entry ctx of Inl rc \<Rightarrow> Some (rc, s)
        | Inr ep \<Rightarrow> psci_cpu_on_start ?ops c target ep s)"
    using len assms(3)
    by (simp add: psci_cpu_on_def psci_validate_mpidr_def psci_validate_entry_point_def nth_opt_def pos_def psci_errors)
  consider "pos < 0" | rc where "pos \<ge> 0" "psci_get_ns_ep_info (cpu_regs s ! c) entry ctx = Inl rc" "rc \<noteq> PSCI_E_SUCCESS"
    | i ep where "pos = int i" "i < 4" "psci_get_ns_ep_info (cpu_regs s ! c) entry ctx = Inr ep"
  proof (cases "psci_get_ns_ep_info (cpu_regs s ! c) entry ctx")
    case (Inl rc)
    then have "rc \<noteq> PSCI_E_SUCCESS" by (rule ns_ep_error)
    then show ?thesis using Inl that(1,2) by force
  next
    case (Inr ep)
    then show ?thesis using that(1,3) a8k_core_pos [of target] unfolding pos_def by force
  qed
  then show ?thesis
  proof cases
    case 1
    then show ?thesis using call by (simp add: psci_errors)
  next
    case 2
    then show ?thesis using call by simp
  next
    case 3
    have i: "i < PLATFORM_CORE_COUNT a8k_config" and c: "c < PLATFORM_CORE_COUNT a8k_config" using 3(2) assms(3) by simp_all
    have p: "plat_core_pos_by_mpidr ?ops target = int i" using 3(1) by (simp add: pos_def)
    note ep = ns_ep_attr [OF 3(3)]
    show ?thesis
    proof (cases "aff_info_state (cpu_data s ! i) = AFF_STATE_OFF")
      case True
      then show ?thesis using cpu_on_start_off [OF inv c p i, of ep] call 3 ep len
        by (simp add: psci_set_aff_info_state_by_idx_def cm_init_context_common_def Let_def)
    next
      case False
      have "psci_cpu_on_start ?ops c target ep s =
          Some (if aff_info_state (cpu_data s ! i) = AFF_STATE_ON then PSCI_E_ALREADY_ON else PSCI_E_ON_PENDING, s)"
        by (rule cpu_on_start_not_off [OF inv p i]) (use False in simp_all)
      then show ?thesis using call 3 False by (simp add: psci_errors)
    qed
  qed
qed

theorem a8k_cpu_on_outcome_witness:
  "\<exists>s s'. a8k_reachable 0 None (s, start_modes a8k_config 0) \<and>
     psci_cpu_on (a8k_psci_pm_ops 0) 0 1 0x4000000 7 s = Some (PSCI_E_SUCCESS, s') \<and>
     aff_info_state (cpu_data s' ! 1) = AFF_STATE_ON_PENDING \<and>
     cc_elr_el3 (cpu_context (cpu_regs s' ! 1) NON_SECURE) = 0x4000000"
proof -
  obtain s where s: "a8k_boots 0 (replicate 4 boot_cpu) 0 = Some s"
      "\<forall>c. c < 4 \<longrightarrow> c \<noteq> 0 \<longrightarrow> aff_info_state (cpu_data s ! c) = AFF_STATE_OFF"
    using a8k_setup [of "replicate 4 boot_cpu" 0] by auto
  have r: "a8k_reachable 0 None (s, start_modes a8k_config 0)" by (rule a8k_reachable_start [OF _ _ s(1)]) simp_all
  have pos: "1 = marvell_core_pos_by_mpidr 2 2 1"
    by (simp add: marvell_core_pos_by_mpidr_def marvell_check_mpidr_def plat_marvell_calc_core_pos_def MPIDR_AFFINITY_MASK_def)
  have ep: "\<exists>ep. psci_get_ns_ep_info (cpu_regs s ! 0) 0x4000000 7 = Inr ep"
    by (simp add: psci_get_ns_ep_info_def Let_def)
  obtain rc s' where o: "psci_cpu_on (a8k_psci_pm_ops 0) 0 1 0x4000000 7 s = Some (rc, s')"
      "rc = PSCI_E_SUCCESS \<longleftrightarrow> (1 :: int) \<ge> 0 \<and> (\<exists>ep. psci_get_ns_ep_info (cpu_regs s ! 0) 0x4000000 7 = Inr ep) \<and>
         aff_info_state (cpu_data s ! nat 1) = AFF_STATE_OFF"
      "rc = PSCI_E_SUCCESS \<longrightarrow> aff_info_state (cpu_data s' ! nat 1) = AFF_STATE_ON_PENDING \<and>
         cc_elr_el3 (cpu_context (cpu_regs s' ! nat 1) NON_SECURE) = 0x4000000 \<and>
         cc_gpregs (cpu_context (cpu_regs s' ! nat 1) NON_SECURE) ! 0 = 7"
    using a8k_cpu_on_outcome [OF spd_ok_None r _ pos, of 0 "0x4000000" 7] by (elim meta_impE exE conjE) simp_all
  have "rc = PSCI_E_SUCCESS" using o(2) ep s(2) by simp
  then show ?thesis using o(1,3) r by (intro exI [of _ s] exI [of _ s']) simp
qed

text \<open>
  C13. The coordination computes the reference: for a well-formed tree, a processor that asks for
  states up to a level gets, at each of these levels, the shallowest state that any processor of the
  domain requests, or the run state when a domain below it runs; its ancestors are set to these
  states, its requests are recorded, and no other domain changes.
\<close>

theorem psci_coordination_shallowest:
  assumes "wf_psci K t s" "c < PLATFORM_CORE_COUNT K" "e \<le> PLAT_MAX_PWR_LVL K" "length pd = PLAT_MAX_PWR_LVL K + 1"
  shows "\<exists>pd' s'. psci_do_state_coordination K c e pd s = Some (pd', s') \<and> length pd' = length pd \<and> pd' ! 0 = pd ! 0 \<and>
    (\<forall>l. 1 \<le> l \<longrightarrow> l \<le> e \<longrightarrow> pd' ! l = coordinated K t c (new_req s c 1 (e + 1) pd) 1 l \<and> nst s' (anc t c l) = pd' ! l) \<and>
    (\<forall>l i. 1 \<le> l \<longrightarrow> req s' l i = new_req s c 1 (e + 1) pd l i) \<and>
    (\<forall>a. a \<notin> anc t c ` {1..e} \<longrightarrow> nst s' a = nst s a)"
proof -
  obtain pd' s' where r: "psci_do_state_coordination K c e pd s = Some (pd', s')" "length pd' = length pd"
     "\<And>l. pd' ! l = (if 1 \<le> l \<and> l \<le> e then coordinated K t c (new_req s c 1 (e + 1) pd) 1 l else pd ! l)"
     "\<And>l i. 1 \<le> l \<Longrightarrow> req s' l i = new_req s c 1 (e + 1) pd l i"
     "\<And>l. 1 \<le> l \<Longrightarrow> l \<le> e \<Longrightarrow> nst s' (anc t c l) = pd' ! l" "\<And>a. a \<notin> anc t c ` {1..e} \<Longrightarrow> nst s' a = nst s a"
    using do_state_coordination [OF assms] by (elim exE conjE) simp
  show ?thesis by (rule exI [of _ pd'], rule exI [of _ s']) (use r in simp)
qed

theorem psci_coordination_shallowest_witness:
  "\<exists>s pd' s'. a8k_boots 0 (replicate 4 boot_cpu) 0 = Some s \<and>
     psci_do_state_coordination a8k_config 0 1 [2, 2] s = Some (pd', s') \<and> pd' ! 0 = 2"
proof -
  obtain s where s: "a8k_boots 0 (replicate 4 boot_cpu) 0 = Some s" "psci_inv a8k_config a8k_topo (s, start_modes a8k_config 0)"
    using a8k_setup [of "replicate 4 boot_cpu" 0] by auto
  have w: "wf_psci a8k_config a8k_topo s" using s(2) by (simp add: psci_inv_def base_inv_def)
  obtain pd' s' where "psci_do_state_coordination a8k_config 0 1 [2, 2] s = Some (pd', s')" "pd' ! 0 = [2, 2 :: u8] ! 0"
    using psci_coordination_shallowest [OF w, of 0 1 "[2, 2]"] by auto
  then show ?thesis using s(1) by auto
qed

section \<open>Requests that stop the firmware\<close>

text \<open>
  C40. On an Armada 8K a standby request for the processor level (a power state of zero) from the
  normal world does not return: the platform accepts it and its standby handler panics.
\<close>

theorem a8k_standby_stops: "psci_cpu_suspend a8k_config (a8k_psci_pm_ops routing) isr my 0 entry ctx s = None"
proof -
  have v: "psci_validate_power_state (a8k_psci_pm_ops routing) 0 (replicate 2 PSCI_LOCAL_STATE_RUN) = Some (PSCI_E_SUCCESS, [1, 0])"
    by (simp add: psci_validate_power_state_def a8k_validate_power_state_def psci_get_pstate_type_def
        psci_get_pstate_pwrlvl_def psci_get_pstate_id_def PSCI_LOCAL_STATE_RUN_def replicate_num psci_errors)
  have t: "psci_find_target_suspend_lvl a8k_config [1, 0] = 0"
    by (simp add: psci_find_target_suspend_lvl_def is_local_state_run_def PSCI_LOCAL_STATE_RUN_def)
  have "PLAT_MAX_PWR_LVL a8k_config + 1 = 2" by simp
  then show ?thesis unfolding psci_cpu_suspend_def
    by (simp only: v) (simp add: t psci_errors psci_get_pstate_type_def is_cpu_standby_req_def nth_opt_def bind_eq_None_conv)
qed

text \<open>On an Armada 3700 every suspend request with a well-formed power state does the same.\<close>

lemma a3700_suspend_stops:
  "p AND PSTATE_VALID_MASK = 0 \<Longrightarrow> psci_cpu_suspend a3700_config (a3700_psci_pm_ops routing) isr my p entry ctx s = None"
  by (simp add: psci_cpu_suspend_def psci_validate_power_state_def a3700_psci_pm_ops_def)

text \<open>Affinity level 2 of an MPIDR is not looked at: many values name one processor.\<close>

lemma marvell_aff2_aliases:
  "marvell_core_pos_by_mpidr 2 2 0x10001 = marvell_core_pos_by_mpidr 2 2 1 \<and> marvell_core_pos_by_mpidr 2 2 0x10001 = 1"
  by (simp add: marvell_core_pos_by_mpidr_def marvell_check_mpidr_def plat_marvell_calc_core_pos_def MPIDR_AFFINITY_MASK_def)

end
