(* ===== verification/Lmb.thy ===== *)
theory Lmb
imports Prelude
begin

text \<open>
  Logical memory blocks of U-Boot (\<open>lib/lmb.c\<close>, \<open>include/lmb.h\<close>): the tables of memory and of reserved
  regions and the allocator that places the device tree, the ramdisk and the kernel at boot.

  A table is a count, kept at the width of \<open>unsigned long\<close> because \<open>cnt - 1\<close> wraps when it is zero, and
  an array of nine entries; reading or writing outside the array has no result (\<open>None\<close>). The loops over
  the array are recursions on the number of iterations left; the search for a free block is a general
  recursion whose candidate address decreases. \<open>lmb_dump_all\<close> only prints, in debug builds, and the two
  weak \<open>..._lmb_reserve\<close> hooks of the file are empty. \<open>phys_addr_t\<close>, \<open>phys_size_t\<close> and \<open>ulong\<close> have 64 bits on the
  boards of the repository.

  The abstraction is the set of covered addresses. The lemmas on adding, allocating and freeing show
  how each operation changes that set, and which well-formed tables they keep; the last subsection
  evaluates the calls for which the code leaves this contract.
\<close>

unbundle bit_operations_syntax

section \<open>Data\<close>

record lmb_property =
  lp_base :: u64
  lp_size :: u64

text \<open>The array has one entry more than \<open>MAX_LMB_REGIONS\<close>; an access outside it has no result.\<close>

record lmb_region =
  cnt :: u64
  rgn_size :: u64
  region :: "lmb_property list"

record lmb =
  lmb_memory :: lmb_region
  lmb_reserved :: lmb_region

definition MAX_LMB_REGIONS :: u64 where "MAX_LMB_REGIONS = 8"
definition LMB_ALLOC_ANYWHERE :: u64 where "LMB_ALLOC_ANYWHERE = 0"

section \<open>Operations\<close>

definition lmb_addrs_overlap :: "u64 \<Rightarrow> u64 \<Rightarrow> u64 \<Rightarrow> u64 \<Rightarrow> bool" where
  "lmb_addrs_overlap base1 size1 base2 size2 \<longleftrightarrow> base1 < base2 + size2 \<and> base2 < base1 + size1"

definition lmb_addrs_adjacent :: "u64 \<Rightarrow> u64 \<Rightarrow> u64 \<Rightarrow> u64 \<Rightarrow> int" where
  "lmb_addrs_adjacent base1 size1 base2 size2 =
     (if base2 = base1 + size1 then 1 else if base1 = base2 + size2 then - 1 else 0)"

definition lmb_regions_adjacent :: "lmb_property list \<Rightarrow> nat \<Rightarrow> nat \<Rightarrow> int option" where
  "lmb_regions_adjacent regs r1 r2 =
     do { p \<leftarrow> nth_opt regs r1;
          q \<leftarrow> nth_opt regs r2;
          Some (lmb_addrs_adjacent (lp_base p) (lp_size p) (lp_base q) (lp_size q)) }"

function remove_loop :: "nat \<Rightarrow> nat \<Rightarrow> lmb_property list \<Rightarrow> lmb_property list option" where
  "remove_loop n i regs =
     (if i < n then
        (if i + 1 < length regs then remove_loop n (i + 1) (regs[i := regs ! (i + 1)]) else None)
      else Some regs)"
  by auto
termination by (relation "measure (\<lambda>(n, i, regs). length regs - i)") auto

definition lmb_remove_region :: "nat \<Rightarrow> lmb_region \<Rightarrow> lmb_region option" where
  "lmb_remove_region r rgn =
     do { regs \<leftarrow> remove_loop (unat (cnt rgn - 1)) r (region rgn);
          Some (rgn\<lparr>region := regs, cnt := cnt rgn - 1\<rparr>) }"

definition lmb_coalesce_regions :: "nat \<Rightarrow> nat \<Rightarrow> lmb_region \<Rightarrow> lmb_region option" where
  "lmb_coalesce_regions r1 r2 rgn =
     do { p \<leftarrow> nth_opt (region rgn) r1;
          q \<leftarrow> nth_opt (region rgn) r2;
          lmb_remove_region r2 (rgn\<lparr>region := (region rgn)[r1 := p\<lparr>lp_size := lp_size p + lp_size q\<rparr>]\<rparr>) }"

definition empty_region :: "lmb_region \<Rightarrow> lmb_region option" where
  "empty_region rgn =
     do { _ \<leftarrow> nth_opt (region rgn) 0;
          Some \<lparr>cnt = 1, rgn_size = 0, region = (region rgn)[0 := \<lparr>lp_base = 0, lp_size = 0\<rparr>]\<rparr> }"

definition lmb_init :: "lmb \<Rightarrow> lmb option" where
  "lmb_init l =
     do { m \<leftarrow> empty_region (lmb_memory l);
          r \<leftarrow> empty_region (lmb_reserved l);
          Some \<lparr>lmb_memory = m, lmb_reserved = r\<rparr> }"

text \<open>
  The first loop of \<open>lmb_add_region\<close>: the region is there already, it extends the entry at an index,
  or the loop runs to its end. The last argument counts the iterations that are left.
\<close>

datatype add_scan = Known | Extended nat "lmb_property list" | Passed

fun add_loop :: "u64 \<Rightarrow> u64 \<Rightarrow> lmb_property list \<Rightarrow> nat \<Rightarrow> nat \<Rightarrow> add_scan option" where
  "add_loop base sz regs i 0 = Some Passed"
| "add_loop base sz regs i (Suc k) =
     do { p \<leftarrow> nth_opt regs i;
          if lp_base p = base \<and> lp_size p = sz then Some Known
          else
            let adjacent = lmb_addrs_adjacent base sz (lp_base p) (lp_size p)
            in if adjacent > 0 then
                 Some (Extended i (regs[i := p\<lparr>lp_base := lp_base p - sz, lp_size := lp_size p + sz\<rparr>]))
               else if adjacent < 0 then Some (Extended i (regs[i := p\<lparr>lp_size := lp_size p + sz\<rparr>]))
               else add_loop base sz regs (i + 1) k }"

text \<open>The loop from the last entry down that moves the entries above the new one.\<close>

fun insert_loop :: "u64 \<Rightarrow> u64 \<Rightarrow> nat \<Rightarrow> lmb_property list \<Rightarrow> lmb_property list option" where
  "insert_loop base sz 0 regs = Some regs"
| "insert_loop base sz (Suc i) regs =
     do { p \<leftarrow> nth_opt regs i;
          assert_c (i + 1 < length regs);
          if base < lp_base p then insert_loop base sz i (regs[i + 1 := p])
          else Some (regs[i + 1 := \<lparr>lp_base = base, lp_size = sz\<rparr>]) }"

text \<open>What follows the first loop, with the index it stopped at and the number of entries it extended.\<close>

definition try_coalesce :: "nat \<Rightarrow> int \<Rightarrow> lmb_region \<Rightarrow> (int \<times> lmb_region) option" where
  "try_coalesce i coalesced rgn =
     (if of_nat i < cnt rgn - 1 then
        do { adjacent \<leftarrow> lmb_regions_adjacent (region rgn) i (i + 1);
             if adjacent \<noteq> 0 then do { rgn \<leftarrow> lmb_coalesce_regions i (i + 1) rgn; Some (coalesced + 1, rgn) }
             else Some (coalesced, rgn) }
      else Some (coalesced, rgn))"

definition insert_region :: "u64 \<Rightarrow> u64 \<Rightarrow> lmb_region \<Rightarrow> (int \<times> lmb_region) option" where
  "insert_region base sz rgn =
     (if cnt rgn \<ge> MAX_LMB_REGIONS then Some (- 1, rgn)
      else do {
        regs \<leftarrow> insert_loop base sz (unat (cnt rgn)) (region rgn);
        p \<leftarrow> nth_opt regs 0;
        let regs = (if base < lp_base p then regs[0 := \<lparr>lp_base = base, lp_size = sz\<rparr>] else regs);
        Some (0, rgn\<lparr>region := regs, cnt := cnt rgn + 1\<rparr>) })"

definition lmb_add_region :: "lmb_region \<Rightarrow> u64 \<Rightarrow> u64 \<Rightarrow> (int \<times> lmb_region) option" where
  "lmb_add_region rgn base sz =
     do { p \<leftarrow> nth_opt (region rgn) 0;
          if cnt rgn = 1 \<and> lp_size p = 0 then
            Some (0, rgn\<lparr>region := (region rgn)[0 := \<lparr>lp_base = base, lp_size = sz\<rparr>]\<rparr>)
          else do {
            scan \<leftarrow> add_loop base sz (region rgn) 0 (unat (cnt rgn));
            (case scan of
               Known \<Rightarrow> Some (0, rgn)
             | Extended i regs \<Rightarrow> try_coalesce i 1 (rgn\<lparr>region := regs\<rparr>)
             | Passed \<Rightarrow>
                 do { (coalesced, rgn) \<leftarrow> try_coalesce (unat (cnt rgn)) 0 rgn;
                      if coalesced \<noteq> 0 then Some (coalesced, rgn) else insert_region base sz rgn }) } }"

definition lmb_add :: "lmb \<Rightarrow> u64 \<Rightarrow> u64 \<Rightarrow> (int \<times> lmb) option" where
  "lmb_add l base sz =
     do { (r, m) \<leftarrow> lmb_add_region (lmb_memory l) base sz; Some (r, l\<lparr>lmb_memory := m\<rparr>) }"

definition lmb_reserve :: "lmb \<Rightarrow> u64 \<Rightarrow> u64 \<Rightarrow> (int \<times> lmb) option" where
  "lmb_reserve l base sz =
     do { (r, m) \<leftarrow> lmb_add_region (lmb_reserved l) base sz; Some (r, l\<lparr>lmb_reserved := m\<rparr>) }"

fun free_loop :: "u64 \<Rightarrow> u64 \<Rightarrow> lmb_property list \<Rightarrow> nat \<Rightarrow> nat \<Rightarrow> nat option option" where
  "free_loop base hi regs i 0 = Some None"
| "free_loop base hi regs i (Suc k) =
     do { p \<leftarrow> nth_opt regs i;
          if lp_base p \<le> base \<and> hi \<le> lp_base p + lp_size p then Some (Some i)
          else free_loop base hi regs (i + 1) k }"

definition lmb_free :: "lmb \<Rightarrow> u64 \<Rightarrow> u64 \<Rightarrow> (int \<times> lmb) option" where
  "lmb_free l base sz =
     (let rgn = lmb_reserved l; hi = base + sz
      in do {
        found \<leftarrow> free_loop base hi (region rgn) 0 (unat (cnt rgn));
        (case found of
           None \<Rightarrow> Some (- 1, l)
         | Some i \<Rightarrow>
             do { p \<leftarrow> nth_opt (region rgn) i;
                  let rgnend = lp_base p + lp_size p;
                  if lp_base p = base \<and> rgnend = hi then
                    do { rgn \<leftarrow> lmb_remove_region i rgn; Some (0, l\<lparr>lmb_reserved := rgn\<rparr>) }
                  else if lp_base p = base then
                    Some (0, l\<lparr>lmb_reserved := rgn\<lparr>region := (region rgn)[i := \<lparr>lp_base = hi, lp_size = lp_size p - sz\<rparr>]\<rparr>\<rparr>)
                  else if rgnend = hi then
                    Some (0, l\<lparr>lmb_reserved := rgn\<lparr>region := (region rgn)[i := p\<lparr>lp_size := lp_size p - sz\<rparr>]\<rparr>\<rparr>)
                  else do {
                    let rgn = rgn\<lparr>region := (region rgn)[i := p\<lparr>lp_size := base - lp_base p\<rparr>]\<rparr>;
                    (r, rgn) \<leftarrow> lmb_add_region rgn hi (rgnend - hi);
                    Some (r, l\<lparr>lmb_reserved := rgn\<rparr>) } }) })"

fun overlaps_loop :: "u64 \<Rightarrow> u64 \<Rightarrow> lmb_property list \<Rightarrow> nat \<Rightarrow> nat \<Rightarrow> nat option option" where
  "overlaps_loop base sz regs i 0 = Some None"
| "overlaps_loop base sz regs i (Suc k) =
     do { p \<leftarrow> nth_opt regs i;
          if lmb_addrs_overlap base sz (lp_base p) (lp_size p) then Some (Some i)
          else overlaps_loop base sz regs (i + 1) k }"

text \<open>The index of the first entry that overlaps; -1 of the C function is \<open>None\<close> inside.\<close>

definition lmb_overlaps_region :: "lmb_region \<Rightarrow> u64 \<Rightarrow> u64 \<Rightarrow> nat option option" where
  "lmb_overlaps_region rgn base sz = overlaps_loop base sz (region rgn) 0 (unat (cnt rgn))"

definition lmb_align_down :: "u64 \<Rightarrow> u64 \<Rightarrow> u64" where
  "lmb_align_down addr sz = addr AND NOT (sz - 1)"

definition lmb_align_up :: "u64 \<Rightarrow> u64 \<Rightarrow> u64" where
  "lmb_align_up addr sz = (addr + (sz - 1)) AND NOT (sz - 1)"

lemma overlaps_loop_Some:
  "overlaps_loop base sz regs i k = Some (Some j) \<Longrightarrow>
     j < length regs \<and> i \<le> j \<and> j < i + k \<and> lmb_addrs_overlap base sz (lp_base (regs ! j)) (lp_size (regs ! j))"
  by (induction base sz regs i k rule: overlaps_loop.induct)
     (auto simp: bind_eq_Some_conv nth_opt_eq_Some split: if_split_asm)

lemma align_down_le: "lmb_align_down a n \<le> a"
  by (simp add: lmb_align_down_def word_and_le2)

lemma overlap_step_below:
  assumes "lmb_addrs_overlap base sz rb rs" "\<not> rb < sz"
  shows "lmb_align_down (rb - sz) align < base"
proof -
  have "rb < base + sz" using assms(1) by (simp add: lmb_addrs_overlap_def)
  hence "rb - sz < base" using assms(2) by (simp add: word_less_nat_alt word_le_nat_alt unat_sub_if_size unat_plus_if_size not_less split: if_split_asm)
  thus ?thesis using align_down_le order_le_less_trans by blast
qed

text \<open>The search of one memory region: the allocator returns, or goes on to the region below.\<close>

datatype alloc_step = Return u64 lmb_region | Next_Region

function alloc_loop :: "u64 \<Rightarrow> u64 \<Rightarrow> u64 \<Rightarrow> lmb_region \<Rightarrow> u64 \<Rightarrow> alloc_step option" where
  "alloc_loop lmbbase sz align rgn base =
     (if base \<noteq> 0 \<and> lmbbase \<le> base then
        (case lmb_overlaps_region rgn base sz of
           None \<Rightarrow> None
         | Some None \<Rightarrow>
             do { (r, rgn') \<leftarrow> lmb_add_region rgn base (lmb_align_up sz align);
                  Some (Return (if r < 0 then 0 else base) rgn') }
         | Some (Some j) \<Rightarrow>
             (let res_base = lp_base (region rgn ! j)
              in if res_base < sz then Some Next_Region
                 else alloc_loop lmbbase sz align rgn (lmb_align_down (res_base - sz) align)))
      else Some Next_Region)"
  by auto
termination
proof (relation "measure (\<lambda>(lmbbase, sz, align, rgn, base). unat base)", goal_cases)
  case (2 lmbbase sz align rgn base x j res_base)
  hence "lmb_addrs_overlap base sz res_base (lp_size (region rgn ! j))"
    using overlaps_loop_Some [of base sz "region rgn" 0 "unat (cnt rgn)" j]
    by (simp add: lmb_overlaps_region_def)
  with 2 show ?case using overlap_step_below by (simp add: word_less_nat_alt)
qed simp

declare alloc_loop.simps [simp del]

text \<open>The first candidate in a memory region; \<open>None\<close> is the \<open>continue\<close> of the loop.\<close>

definition alloc_start :: "u64 \<Rightarrow> u64 \<Rightarrow> u64 \<Rightarrow> lmb_property \<Rightarrow> u64 option" where
  "alloc_start sz align max_addr p =
     (let lmbbase = lp_base p; lmbsize = lp_size p
      in if lmbsize < sz then None
         else if max_addr = LMB_ALLOC_ANYWHERE then Some (lmb_align_down (lmbbase + lmbsize - sz) align)
         else if lmbbase < max_addr then
           (let base = lmbbase + lmbsize;
                base = (if base < lmbbase then - 1 else base)
            in Some (lmb_align_down (min base max_addr - sz) align))
         else None)"

fun alloc_regions :: "u64 \<Rightarrow> u64 \<Rightarrow> u64 \<Rightarrow> lmb_region \<Rightarrow> lmb_property list \<Rightarrow> nat \<Rightarrow> (u64 \<times> lmb_region) option" where
  "alloc_regions sz align max_addr rgn regs 0 = Some (0, rgn)"
| "alloc_regions sz align max_addr rgn regs (Suc i) =
     do { p \<leftarrow> nth_opt regs i;
          (case alloc_start sz align max_addr p of
             None \<Rightarrow> alloc_regions sz align max_addr rgn regs i
           | Some base \<Rightarrow>
               do { step \<leftarrow> alloc_loop (lp_base p) sz align rgn base;
                    (case step of
                       Return a rgn' \<Rightarrow> Some (a, rgn')
                     | Next_Region \<Rightarrow> alloc_regions sz align max_addr rgn regs i) }) }"

definition lmb_alloc_base' :: "lmb \<Rightarrow> u64 \<Rightarrow> u64 \<Rightarrow> u64 \<Rightarrow> (u64 \<times> lmb) option" where
  "lmb_alloc_base' l sz align max_addr =
     do { (a, rgn) \<leftarrow> alloc_regions sz align max_addr (lmb_reserved l) (region (lmb_memory l)) (unat (cnt (lmb_memory l)));
          Some (a, l\<lparr>lmb_reserved := rgn\<rparr>) }"

text \<open>\<open>lmb_alloc_base\<close> adds only the message printed when nothing was found.\<close>

definition lmb_alloc_base :: "lmb \<Rightarrow> u64 \<Rightarrow> u64 \<Rightarrow> u64 \<Rightarrow> (u64 \<times> lmb) option" where
  "lmb_alloc_base l sz align max_addr = lmb_alloc_base' l sz align max_addr"

definition lmb_alloc :: "lmb \<Rightarrow> u64 \<Rightarrow> u64 \<Rightarrow> (u64 \<times> lmb) option" where
  "lmb_alloc l sz align = lmb_alloc_base l sz align LMB_ALLOC_ANYWHERE"

fun reserved_loop :: "u64 \<Rightarrow> lmb_property list \<Rightarrow> nat \<Rightarrow> nat \<Rightarrow> bool option" where
  "reserved_loop addr regs i 0 = Some False"
| "reserved_loop addr regs i (Suc k) =
     do { p \<leftarrow> nth_opt regs i;
          let upper = lp_base p + lp_size p - 1;
          if lp_base p \<le> addr \<and> addr \<le> upper then Some True else reserved_loop addr regs (i + 1) k }"

definition lmb_is_reserved :: "lmb \<Rightarrow> u64 \<Rightarrow> bool option" where
  "lmb_is_reserved l addr = reserved_loop addr (region (lmb_reserved l)) 0 (unat (cnt (lmb_reserved l)))"

definition lmb_size_bytes :: "lmb_region \<Rightarrow> nat \<Rightarrow> u64 option" where
  "lmb_size_bytes rgn region_nr = do { p \<leftarrow> nth_opt (region rgn) region_nr; Some (lp_size p) }"

section \<open>The addresses a table covers\<close>

definition end_of :: "lmb_property \<Rightarrow> nat" where "end_of p = unat (lp_base p) + unat (lp_size p)"

definition area :: "lmb_property \<Rightarrow> nat set" where "area p = {unat (lp_base p) ..< end_of p}"

definition entries :: "lmb_region \<Rightarrow> lmb_property list" where
  "entries rgn = take (unat (cnt rgn)) (region rgn)"

definition cover :: "lmb_property list \<Rightarrow> nat set" where "cover ps = (\<Union>p \<in> set ps. area p)"

abbreviation covered :: "lmb_region \<Rightarrow> nat set" where "covered rgn \<equiv> cover (entries rgn)"

definition good :: "lmb_property \<Rightarrow> bool" where "good p \<longleftrightarrow> 0 < lp_size p \<and> end_of p < 2 ^ 64"

definition below :: "lmb_property \<Rightarrow> lmb_property \<Rightarrow> bool" where
  "below p q \<longleftrightarrow> end_of p \<le> unat (lp_base q)"

definition good_table :: "lmb_property list \<Rightarrow> bool" where
  "good_table ps \<longleftrightarrow> (\<forall>p \<in> set ps. good p) \<and> sorted_wrt below ps"

text \<open>
  The tables the operations keep: between one and \<open>MAX_LMB_REGIONS\<close> entries in ascending order,
  none empty and no two overlapping, or the single empty entry of \<open>lmb_init\<close>.
\<close>

definition lmb_ok :: "lmb_region \<Rightarrow> bool" where
  "lmb_ok rgn \<longleftrightarrow> length (region rgn) = 9 \<and> 1 \<le> unat (cnt rgn) \<and> unat (cnt rgn) \<le> 8 \<and>
     (cnt rgn = 1 \<and> region rgn ! 0 = \<lparr>lp_base = 0, lp_size = 0\<rparr> \<or> good_table (entries rgn))"

lemma entry_cases:
  assumes "lmb_ok rgn" "p \<in> set (entries rgn)"
  shows "good p \<or> p = \<lparr>lp_base = 0, lp_size = 0\<rparr>"
proof (cases "good_table (entries rgn)")
  case False
  hence "cnt rgn = 1" "region rgn ! 0 = \<lparr>lp_base = 0, lp_size = 0\<rparr>" using assms(1) by (auto simp: lmb_ok_def)
  thus ?thesis using assms(2) by (cases "region rgn") (auto simp: entries_def)
qed (use assms(2) in \<open>simp add: good_table_def\<close>)

lemma cover_simps [simp]:
  "cover [] = {}" "cover (p # ps) = area p \<union> cover ps" "cover (ps @ qs) = cover ps \<union> cover qs"
  by (auto simp: cover_def)

lemma good_table_simps [simp]:
  "good_table []"
  "good_table (p # ps) \<longleftrightarrow> good p \<and> (\<forall>q \<in> set ps. below p q) \<and> good_table ps"
  "good_table (ps @ qs) \<longleftrightarrow> good_table ps \<and> good_table qs \<and> (\<forall>p \<in> set ps. \<forall>q \<in> set qs. below p q)"
  by (auto simp: good_table_def sorted_wrt_append)

lemma unat_size_pos: "0 < lp_size p \<longleftrightarrow> 0 < unat (lp_size p)" by (simp add: word_less_nat_alt)

lemma unat_end_of: "end_of p < 2 ^ 64 \<Longrightarrow> unat (lp_base p + lp_size p) = end_of p"
  by (simp add: end_of_def unat_plus_if_size word_size)

lemma eq_end_of: "end_of p < 2 ^ 64 \<Longrightarrow> b = lp_base p + lp_size p \<longleftrightarrow> unat b = end_of p"
  using unat_end_of [of p] by (metis word_unat_eq_iff)

lemma area_empty: "lp_size p = 0 \<Longrightarrow> area p = {}" by (simp add: area_def end_of_def)

lemma area_disjoint_iff:
  assumes "0 < lp_size p" "0 < lp_size q"
  shows "area p \<inter> area q = {} \<longleftrightarrow> below p q \<or> below q p"
  using assms by (auto simp: area_def below_def end_of_def unat_size_pos)

lemma not_overlap_disjoint:
  assumes "\<not> lmb_addrs_overlap (lp_base p) (lp_size p) (lp_base q) (lp_size q)" "end_of p < 2 ^ 64" "end_of q < 2 ^ 64"
  shows "area p \<inter> area q = {}"
  using assms unat_end_of [of p] unat_end_of [of q]
  by (auto simp: lmb_addrs_overlap_def word_less_nat_alt area_def)

lemma overlap_meets:
  assumes "lmb_addrs_overlap (lp_base p) (lp_size p) (lp_base q) (lp_size q)" "end_of p < 2 ^ 64" "good q"
  shows "unat (lp_base p) < end_of q \<and> unat (lp_base q) < end_of p"
  using assms unat_end_of [of p] unat_end_of [of q]
  by (simp add: lmb_addrs_overlap_def word_less_nat_alt good_def)

lemma cover_disjoint: "a \<inter> cover ps = {} \<longleftrightarrow> (\<forall>p \<in> set ps. a \<inter> area p = {})"
  by (auto simp: cover_def)

subsection \<open>The array loops\<close>

lemma remove_loop_eq:
  "i \<le> n \<Longrightarrow> n < length regs \<Longrightarrow>
     remove_loop n i regs = Some (take i regs @ drop (Suc i) (take (Suc n) regs) @ drop n regs)"
proof (induction n i regs rule: remove_loop.induct)
  case (1 n i regs)
  show ?case
  proof (cases "i < n")
    case True
    with 1 have "remove_loop n i regs =
        Some (take (i + 1) (regs[i := regs ! (i + 1)]) @ drop (i + 2) (take (Suc n) (regs[i := regs ! (i + 1)])) @ drop n (regs[i := regs ! (i + 1)]))"
      by simp
    moreover have "take (i + 1) (regs[i := regs ! (i + 1)]) = take i regs @ [regs ! (i + 1)]"
      using True 1 by (simp add: take_Suc_conv_app_nth)
    moreover have "drop (Suc i) (take (Suc n) regs) = regs ! (i + 1) # drop (i + 2) (take (Suc n) regs)"
      using True 1 by (simp add: Cons_nth_drop_Suc [symmetric])
    ultimately show ?thesis using True 1 by (simp add: drop_update_cancel take_update_swap)
  next
    case False
    with 1 have "i = n" by simp
    then show ?thesis using 1 by (simp add: take_Suc_conv_app_nth)
  qed
qed

lemma remove_region:
  assumes "length (region rgn) = 9" "unat (cnt rgn) \<le> 8" "entries rgn = xs @ p # ys"
  shows "\<exists>rgn'. lmb_remove_region (length xs) rgn = Some rgn' \<and> entries rgn' = xs @ ys \<and>
     length (region rgn') = 9 \<and> unat (cnt rgn') = unat (cnt rgn) - 1"
proof -
  let ?n = "unat (cnt rgn)" and ?i = "length xs"
  have n: "?n = Suc (length xs + length ys)" using arg_cong [OF assms(3), of length] assms(1,2) by (simp add: entries_def)
  hence c: "unat (cnt rgn - 1) = length xs + length ys" by (simp add: unat_sub_if_size word_le_nat_alt)
  have t: "take (Suc (length xs + length ys)) (region rgn) = xs @ p # ys" using assms(3) n by (simp add: entries_def)
  have x: "take ?i (region rgn) = xs" using arg_cong [OF t, of "take ?i"] by simp
  show ?thesis using remove_loop_eq [of ?i "length xs + length ys" "region rgn"] assms(1,2) n c t x
    by (simp add: lmb_remove_region_def entries_def)
qed

lemma property_eq: "p = \<lparr>lp_base = b, lp_size = s\<rparr> \<longleftrightarrow> lp_base p = b \<and> lp_size p = s"
  by (cases p) auto

lemma add_loop_step:
  "i < length regs \<Longrightarrow> add_loop b s regs i (Suc k) =
     (if regs ! i = \<lparr>lp_base = b, lp_size = s\<rparr> then Some Known
      else if lp_base (regs ! i) = b + s then
        Some (Extended i (regs[i := (regs ! i)\<lparr>lp_base := lp_base (regs ! i) - s, lp_size := lp_size (regs ! i) + s\<rparr>]))
      else if b = lp_base (regs ! i) + lp_size (regs ! i) then
        Some (Extended i (regs[i := (regs ! i)\<lparr>lp_size := lp_size (regs ! i) + s\<rparr>]))
      else add_loop b s regs (Suc i) k)"
  by (simp only: add_loop.simps nth_opt_def lmb_addrs_adjacent_def Let_def property_eq if_True bind.bind_lunit)
     (simp only: split: if_split, simp, blast)

lemma add_loop_spec:
  "i + k \<le> length regs \<Longrightarrow>
   (\<exists>j. i \<le> j \<and> j < i + k \<and>
      (regs ! j = \<lparr>lp_base = b, lp_size = s\<rparr> \<and> add_loop b s regs i k = Some Known \<or>
       lp_base (regs ! j) = b + s \<and>
         add_loop b s regs i k = Some (Extended j (regs[j := (regs ! j)\<lparr>lp_base := lp_base (regs ! j) - s, lp_size := lp_size (regs ! j) + s\<rparr>])) \<or>
       b = lp_base (regs ! j) + lp_size (regs ! j) \<and>
         add_loop b s regs i k = Some (Extended j (regs[j := (regs ! j)\<lparr>lp_size := lp_size (regs ! j) + s\<rparr>])))) \<or>
   add_loop b s regs i k = Some Passed"
proof (induction k arbitrary: i)
  case (Suc k)
  hence step: "i < length regs" by simp
  consider "regs ! i = \<lparr>lp_base = b, lp_size = s\<rparr>" | "lp_base (regs ! i) = b + s"
    | "b = lp_base (regs ! i) + lp_size (regs ! i)"
    | (no) "add_loop b s regs i (Suc k) = add_loop b s regs (Suc i) k"
    using add_loop_step [OF step, of b s k] by argo
  then show ?case
  proof cases
    case no
    then show ?thesis using Suc.IH [of "Suc i"] Suc.prems by (simp only: no) (metis Suc_leD add_Suc add_Suc_right)
  qed (use step in \<open>simp only: add_loop_step, intro disjI1 exI [of _ i], simp\<close>)+
qed simp

lemma insert_loop_spec:
  "n < length regs \<Longrightarrow>
   \<exists>regs' xs ys. insert_loop b s n regs = Some regs' \<and> length regs' = length regs \<and>
     take n regs = xs @ ys \<and> (\<forall>q \<in> set ys. b < lp_base q) \<and> (xs \<noteq> [] \<longrightarrow> lp_base (last xs) \<le> b) \<and>
     take (Suc n) regs' = (if xs = [] then hd regs # ys else xs @ \<lparr>lp_base = b, lp_size = s\<rparr> # ys) \<and>
     drop (Suc n) regs' = drop (Suc n) regs"
proof (induction n arbitrary: regs)
  case 0
  then show ?case by (auto simp: take_Suc hd_conv_nth)
next
  case (Suc n)
  let ?p = "regs ! n"
  have tn: "take (Suc n) regs = take n regs @ [?p]" using Suc.prems by (simp add: take_Suc_conv_app_nth)
  show ?case
  proof (cases "b < lp_base ?p")
    case True
    let ?r = "regs[n + 1 := ?p]"
    obtain regs' xs ys where r: "insert_loop b s n ?r = Some regs'" "length regs' = length regs"
        "take n regs = xs @ ys" "\<forall>q \<in> set ys. b < lp_base q" "xs \<noteq> [] \<longrightarrow> lp_base (last xs) \<le> b"
        "take (Suc n) regs' = (if xs = [] then hd ?r # ys else xs @ \<lparr>lp_base = b, lp_size = s\<rparr> # ys)"
        "drop (Suc n) regs' = drop (Suc n) ?r"
      using Suc.IH [of ?r] Suc.prems by auto
    have d: "drop (Suc n) ?r = ?p # drop (Suc (Suc n)) regs"
      using Suc.prems by (simp add: Cons_nth_drop_Suc [symmetric])
    have "take (Suc (Suc n)) regs' = take (Suc n) regs' @ [?p]" "drop (Suc (Suc n)) regs' = drop (Suc (Suc n)) regs"
      using r(7) d Suc.prems r(2) by (simp_all add: Cons_nth_drop_Suc [symmetric] take_Suc_conv_app_nth)
    moreover have "hd ?r = hd regs" using Suc.prems by (cases regs) auto
    moreover have "insert_loop b s (Suc n) regs = Some regs'" using True r(1) Suc.prems by (simp add: nth_opt_def assert_c_def)
    ultimately show ?thesis using r True tn
      by (intro exI [of _ regs'] exI [of _ xs] exI [of _ "ys @ [?p]"]) auto
  next
    case False
    then show ?thesis using Suc.prems tn
      by (intro exI [of _ "regs[Suc n := \<lparr>lp_base = b, lp_size = s\<rparr>]"] exI [of _ "take (Suc n) regs"] exI [of _ "[]"])
         (auto simp: nth_opt_def assert_c_def take_Suc_conv_app_nth not_less)
  qed
qed

subsection \<open>Adding a region\<close>

lemma extend_up:
  assumes "good p" "good n" "lp_base p = lp_base n + lp_size n"
    "p' = p\<lparr>lp_base := lp_base p - lp_size n, lp_size := lp_size p + lp_size n\<rparr>"
  shows "lp_base p' = lp_base n \<and> end_of p' = end_of p \<and> good p' \<and> area p' = area p \<union> area n \<and> lp_base p' \<le> lp_base p"
proof -
  have b: "unat (lp_base p) = end_of n" using assms(2,3) unat_end_of [of n] by (simp add: good_def)
  have "unat (lp_size p + lp_size n) = unat (lp_size p) + unat (lp_size n)"
    using assms(1) b by (simp add: good_def end_of_def unat_plus_if_size word_size)
  moreover have "lp_base p' = lp_base n" "lp_size p' = lp_size p + lp_size n" using assms(3,4) by simp_all
  ultimately show ?thesis using assms(1,2) b
    by (auto simp: good_def end_of_def area_def word_less_nat_alt word_le_nat_alt)
qed

lemma extend_down:
  assumes "good p" "good n" "lp_base n = lp_base p + lp_size p" "p' = p\<lparr>lp_size := lp_size p + lp_size n\<rparr>"
  shows "lp_base p' = lp_base p \<and> end_of p' = end_of n \<and> good p' \<and> area p' = area p \<union> area n"
proof -
  have b: "unat (lp_base n) = end_of p" using assms(1,3) unat_end_of [of p] by (simp add: good_def)
  have "unat (lp_size p + lp_size n) = unat (lp_size p) + unat (lp_size n)"
    using assms(2) b by (simp add: good_def end_of_def unat_plus_if_size word_size)
  moreover have "lp_base p' = lp_base p" "lp_size p' = lp_size p + lp_size n" using assms(4) by simp_all
  ultimately show ?thesis using assms(1,2) b
    by (auto simp: good_def end_of_def area_def word_less_nat_alt)
qed

lemma below_or:
  "good p \<Longrightarrow> good q \<Longrightarrow> area p \<inter> area q = {} \<Longrightarrow> below p q \<or> below q p"
  using area_disjoint_iff by (simp add: good_def)

lemma base_less_end: "good p \<Longrightarrow> unat (lp_base p) < end_of p"
  by (simp add: good_def end_of_def unat_size_pos)

lemma extend_table:
  assumes "good_table (xs @ p # ys)" "good p'" "area p' = area p \<union> area n" "lp_base p' \<le> lp_base p"
    "end_of p \<le> end_of p'" "area n \<inter> cover (xs @ p # ys) = {}"
  shows "good_table (xs @ p' # ys)"
proof -
  have bp: "unat (lp_base p') \<le> unat (lp_base p)" "unat (lp_base p) < end_of p"
    using assms(1,4) by (simp_all add: word_le_nat_alt base_less_end)
  have "below q p'" if q: "q \<in> set xs" for q
  proof -
    have g: "good q" "below q p" using assms(1) q by (auto simp: good_table_def sorted_wrt_append)
    hence "area p \<inter> area q = {}" by (auto simp: area_def below_def)
    moreover have "area n \<inter> area q = {}" using assms(6) q by (auto simp: cover_def)
    ultimately have "area p' \<inter> area q = {}" using assms(3) by blast
    thus ?thesis using below_or [OF assms(2) g(1)] g base_less_end [OF g(1)] bp assms(5) by (simp add: below_def)
  qed
  moreover have "below p' q" if q: "q \<in> set ys" for q
  proof -
    have g: "good q" "below p q" using assms(1) q by (auto simp: good_table_def sorted_wrt_append)
    hence "area p \<inter> area q = {}" by (auto simp: area_def below_def)
    moreover have "area n \<inter> area q = {}" using assms(6) q by (auto simp: cover_def)
    ultimately have "area p' \<inter> area q = {}" using assms(3) by blast
    thus ?thesis using below_or [OF assms(2) g(1)] g base_less_end [OF g(1)] bp assms(5) by (simp add: below_def)
  qed
  ultimately show ?thesis using assms(1,2) by simp
qed

lemma entries_update:
  assumes "entries rgn = xs @ p # ys"
  shows "entries (rgn\<lparr>region := (region rgn)[length xs := q]\<rparr>) = xs @ q # ys"
  using assms by (simp add: entries_def take_update_swap)

lemma entries_nth:
  assumes "entries rgn = xs @ ys" "i < length ys"
  shows "region rgn ! (length xs + i) = ys ! i" "length xs + i < length (region rgn)" "length xs + i < unat (cnt rgn)"
proof -
  have l: "length xs + length ys \<le> min (length (region rgn)) (unat (cnt rgn))"
    using arg_cong [OF assms(1), of length] by (simp add: entries_def)
  thus "length xs + i < length (region rgn)" "length xs + i < unat (cnt rgn)" using assms(2) by simp_all
  have "entries rgn ! (length xs + i) = ys ! i" using assms by (simp add: nth_append)
  thus "region rgn ! (length xs + i) = ys ! i" using l assms(2) by (simp add: entries_def)
qed

lemma entries_length:
  "length (region rgn) = 9 \<Longrightarrow> unat (cnt rgn) \<le> 8 \<Longrightarrow> length (entries rgn) = unat (cnt rgn)"
  by (simp add: entries_def)

lemma try_coalesce_spec:
  assumes l: "length (region rgn) = 9" "unat (cnt rgn) \<le> 8" and e: "entries rgn = xs @ p # ys"
    and g: "good p" "\<forall>q \<in> set ys. good q \<and> lp_base p \<le> lp_base q"
  shows "\<exists>c rgn'. try_coalesce (length xs) 1 rgn = Some (c, rgn') \<and> 0 < c \<and> length (region rgn') = 9 \<and>
     1 \<le> unat (cnt rgn') \<and> unat (cnt rgn') \<le> 8 \<and> covered rgn' = covered rgn \<and>
     (good_table (entries rgn) \<longrightarrow> good_table (entries rgn'))"
proof -
  have n: "unat (cnt rgn) = Suc (length xs + length ys)" using entries_length [OF l] e by simp
  have o: "unat (of_nat (length xs) :: u64) = length xs" using n l(2) by (simp add: unat_of_nat)
  have c: "of_nat (length xs) < cnt rgn - 1 \<longleftrightarrow> ys \<noteq> []"
    using n l(2) o by (cases ys) (auto simp: word_less_nat_alt unat_sub_if_size word_le_nat_alt)
  show ?thesis
  proof (cases ys)
    case Nil
    then show ?thesis using c n l by (simp add: try_coalesce_def)
  next
    case (Cons q zs)
    have r: "nth_opt (region rgn) (length xs) = Some p" "nth_opt (region rgn) (Suc (length xs)) = Some q"
      using entries_nth [OF e, of 0] entries_nth [OF e, of 1] Cons by (simp_all add: nth_opt_def)
    have q: "good q" "lp_base p \<le> lp_base q" using g(2) Cons by simp_all
    have no: "lp_base p \<noteq> lp_base q + lp_size q"
    proof
      assume "lp_base p = lp_base q + lp_size q"
      hence "unat (lp_base p) = end_of q" using q(1) unat_end_of [of q] by (simp add: good_def)
      thus False using q base_less_end [OF q(1)] by (simp add: word_le_nat_alt)
    qed
    show ?thesis
    proof (cases "lp_base q = lp_base p + lp_size p")
      case False
      then show ?thesis using c n l Cons r no
        by (simp add: try_coalesce_def lmb_regions_adjacent_def lmb_addrs_adjacent_def)
    next
      case True
      let ?p = "p\<lparr>lp_size := lp_size p + lp_size q\<rparr>" and ?r = "rgn\<lparr>region := (region rgn)[length xs := p\<lparr>lp_size := lp_size p + lp_size q\<rparr>]\<rparr>"
      have d: "lp_base ?p = lp_base p \<and> end_of ?p = end_of q \<and> good ?p \<and> area ?p = area p \<union> area q"
        using extend_down [OF g(1) q(1) True refl] .
      have "entries ?r = (xs @ [?p]) @ q # zs" using entries_update [OF e] Cons by simp
      from remove_region [OF _ _ this] obtain rgn' where
        "lmb_remove_region (Suc (length xs)) ?r = Some rgn'" "entries rgn' = xs @ ?p # zs"
        "length (region rgn') = 9" "unat (cnt rgn') = unat (cnt rgn) - 1" using l by auto
      then show ?thesis using c n l Cons r True d e
        by (auto simp: try_coalesce_def lmb_regions_adjacent_def lmb_addrs_adjacent_def lmb_coalesce_regions_def below_def)
    qed
  qed
qed

lemma insert_table:
  assumes "good_table (xs @ ys)" "good n" "area n \<inter> cover (xs @ ys) = {}"
    "\<forall>q \<in> set ys. lp_base n < lp_base q" "xs \<noteq> [] \<longrightarrow> lp_base (last xs) \<le> lp_base n"
  shows "good_table (xs @ n # ys)"
proof -
  have or: "below n q \<or> below q n" "good q" if "q \<in> set xs \<union> set ys" for q
    using that assms(1-3) below_or [of n q] by (auto simp: cover_def good_table_def)
  have "below q n" if q: "q \<in> set xs" for q
  proof -
    from q have ne: "xs \<noteq> []" by auto
    hence x: "xs = butlast xs @ [last xs]" by simp
    have "q = last xs \<or> below q (last xs)"
      using assms(1) q by (subst (asm) (1 2) x) auto
    hence "unat (lp_base q) \<le> unat (lp_base n)"
      using assms(5) ne base_less_end [of q] or(2) [of q] q by (auto simp: below_def word_le_nat_alt)
    thus ?thesis using or [of q] q base_less_end [OF assms(2)] by (auto simp: below_def)
  qed
  moreover have "below n q" if "q \<in> set ys" for q
    using or [of q] that assms(4) base_less_end [of q] by (auto simp: below_def word_less_nat_alt)
  ultimately show ?thesis using assms(1,2) by simp
qed

lemma insert_region_spec:
  assumes ok: "length (region rgn) = 9" "1 \<le> unat (cnt rgn)" "unat (cnt rgn) \<le> 8" "good_table (entries rgn)"
    and n: "good n"
  shows "\<exists>r rgn'. insert_region (lp_base n) (lp_size n) rgn = Some (r, rgn') \<and>
     (r < 0 \<longrightarrow> rgn' = rgn \<and> cnt rgn = MAX_LMB_REGIONS) \<and>
     (0 \<le> r \<longrightarrow> covered rgn' = covered rgn \<union> area n) \<and>
     length (region rgn') = 9 \<and> 1 \<le> unat (cnt rgn') \<and> unat (cnt rgn') \<le> 8 \<and>
     (area n \<inter> covered rgn = {} \<longrightarrow> good_table (entries rgn'))"
proof (cases "cnt rgn \<ge> MAX_LMB_REGIONS")
  case True
  hence "cnt rgn = MAX_LMB_REGIONS" using ok(3) by (simp add: MAX_LMB_REGIONS_def word_le_nat_alt word_unat_eq_iff)
  then show ?thesis using ok by (simp add: insert_region_def MAX_LMB_REGIONS_def)
next
  case False
  let ?n = "unat (cnt rgn)"
  have c: "?n < 8" using False by (simp add: MAX_LMB_REGIONS_def word_le_nat_alt)
  hence c1: "unat (cnt rgn + 1) = Suc ?n" by (simp add: unat_plus_if_size word_size)
  have nn: "\<lparr>lp_base = lp_base n, lp_size = lp_size n\<rparr> = n" by simp
  obtain regs xs ys where r: "insert_loop (lp_base n) (lp_size n) ?n (region rgn) = Some regs" "length regs = 9"
      "entries rgn = xs @ ys" "\<forall>q \<in> set ys. lp_base n < lp_base q" "xs \<noteq> [] \<longrightarrow> lp_base (last xs) \<le> lp_base n"
      "take (Suc ?n) regs = (if xs = [] then hd (region rgn) # ys else xs @ n # ys)"
    using insert_loop_spec [of ?n "region rgn" "lp_base n" "lp_size n"] ok(1) c unfolding nn entries_def by auto
  let ?f = "if lp_base n < lp_base (regs ! 0) then regs[0 := n] else regs"
  have "take (Suc ?n) ?f = xs @ n # ys"
  proof (cases xs)
    case Nil
    have "ys \<noteq> []" using r(3) Nil ok(1,2) by (auto simp: entries_def)
    moreover have "hd (entries rgn) = hd (region rgn)" using ok(1,2) by (simp add: entries_def hd_take)
    ultimately have "lp_base n < lp_base (hd (region rgn))" using r(3,4) Nil by (cases ys) auto
    moreover have "regs ! 0 = hd (region rgn)" using r(6) Nil by (metis nth_Cons_0 nth_take zero_less_Suc)
    ultimately show ?thesis using r(2,6) Nil by (simp add: take_update_swap)
  next
    case (Cons x zs)
    have "regs ! 0 = x" using r(6) Cons by (metis append_Cons list.distinct(1) nth_Cons_0 nth_take zero_less_Suc)
    moreover have "x = last xs \<or> below x (last xs)" using ok(4) r(3) Cons by (cases zs rule: rev_cases) auto
    moreover have "unat (lp_base x) < end_of x" using ok(4) r(3) Cons by (simp add: base_less_end)
    ultimately have "\<not> lp_base n < lp_base (regs ! 0)" using r(5) Cons
      by (auto simp: below_def word_less_nat_alt word_le_nat_alt)
    then show ?thesis using r(6) Cons by simp
  qed
  hence "entries (rgn\<lparr>region := ?f, cnt := cnt rgn + 1\<rparr>) = xs @ n # ys" using c1 by (simp add: entries_def)
  moreover have "insert_region (lp_base n) (lp_size n) rgn = Some (0, rgn\<lparr>region := ?f, cnt := cnt rgn + 1\<rparr>)"
    using False r(1) arg_cong [OF r(2), of "\<lambda>k. 0 < k"] by (simp add: insert_region_def nth_opt_def nn)
  ultimately show ?thesis using r c c1 insert_table [of xs ys n] ok(4) n by auto
qed

text \<open>The ways the first loop ends on a well-formed table: an extended entry covers the new region too.\<close>

definition extends :: "lmb_region \<Rightarrow> lmb_property \<Rightarrow> nat \<Rightarrow> lmb_property \<Rightarrow> bool" where
  "extends rgn n j p \<longleftrightarrow> j < unat (cnt rgn) \<and> good p \<and> area p = area (region rgn ! j) \<union> area n \<and>
     lp_base p \<le> lp_base (region rgn ! j) \<and> end_of (region rgn ! j) \<le> end_of p"

lemma entries_split:
  assumes "length (region rgn) = 9" "unat (cnt rgn) \<le> 8" "j < unat (cnt rgn)"
  obtains xs ys where "entries rgn = xs @ region rgn ! j # ys" "length xs = j"
  using assms id_take_nth_drop [of j "entries rgn"] that [of "take j (entries rgn)" "drop (Suc j) (entries rgn)"]
  by (auto simp: entries_def)

lemma add_scan_cases:
  assumes l: "length (region rgn) = 9" "unat (cnt rgn) \<le> 8" and g: "good_table (entries rgn)" and n: "good n"
  obtains (known) j where "j < unat (cnt rgn)" "region rgn ! j = n"
      "add_loop (lp_base n) (lp_size n) (region rgn) 0 (unat (cnt rgn)) = Some Known"
    | (ext) j p where "extends rgn n j p"
      "add_loop (lp_base n) (lp_size n) (region rgn) 0 (unat (cnt rgn)) = Some (Extended j ((region rgn)[j := p]))"
    | (passed) "add_loop (lp_base n) (lp_size n) (region rgn) 0 (unat (cnt rgn)) = Some Passed"
proof -
  have good: "good (region rgn ! j)" if "j < unat (cnt rgn)" for j
    by (rule entries_split [OF l that]) (use g in simp)
  have nn: "\<lparr>lp_base = lp_base n, lp_size = lp_size n\<rparr> = n" by simp
  have up: "extends rgn n j ((region rgn ! j)\<lparr>lp_base := lp_base (region rgn ! j) - lp_size n, lp_size := lp_size (region rgn ! j) + lp_size n\<rparr>)"
    if "j < unat (cnt rgn)" "lp_base (region rgn ! j) = lp_base n + lp_size n" for j
    using extend_up [OF good [OF that(1)] n that(2) refl] that(1) unfolding extends_def by (elim conjE) (simp only: order_refl)
  have down: "extends rgn n j ((region rgn ! j)\<lparr>lp_size := lp_size (region rgn ! j) + lp_size n\<rparr>)"
    if "j < unat (cnt rgn)" "lp_base n = lp_base (region rgn ! j) + lp_size (region rgn ! j)" for j
  proof -
    have "end_of (region rgn ! j) < end_of n"
      using that(2) unat_end_of [of "region rgn ! j"] good [OF that(1)] base_less_end [OF n] by (simp add: good_def)
    thus ?thesis using extend_down [OF good [OF that(1)] n that(2) refl] that(1) by (simp add: extends_def)
  qed
  have "0 + unat (cnt rgn) \<le> length (region rgn)" using l by simp
  from add_loop_spec [OF this, of "lp_base n" "lp_size n", unfolded nn add_0] show thesis
  proof (elim disjE exE conjE)
    fix j assume "j < unat (cnt rgn)" "region rgn ! j = n"
      "add_loop (lp_base n) (lp_size n) (region rgn) 0 (unat (cnt rgn)) = Some Known"
    thus thesis by (rule known)
  next
    fix j assume "j < unat (cnt rgn)" "lp_base (region rgn ! j) = lp_base n + lp_size n"
    from up [OF this] show thesis if "add_loop (lp_base n) (lp_size n) (region rgn) 0 (unat (cnt rgn)) = Some (Extended j ((region rgn)
        [j := (region rgn ! j)\<lparr>lp_base := lp_base (region rgn ! j) - lp_size n, lp_size := lp_size (region rgn ! j) + lp_size n\<rparr>]))"
      using that by (rule ext)
  next
    fix j assume "j < unat (cnt rgn)" "lp_base n = lp_base (region rgn ! j) + lp_size (region rgn ! j)"
    from down [OF this] show thesis if "add_loop (lp_base n) (lp_size n) (region rgn) 0 (unat (cnt rgn)) = Some (Extended j ((region rgn)
        [j := (region rgn ! j)\<lparr>lp_size := lp_size (region rgn ! j) + lp_size n\<rparr>]))"
      using that by (rule ext)
  qed (rule passed)
qed

lemma add_extended:
  assumes l: "length (region rgn) = 9" "unat (cnt rgn) \<le> 8" and g: "good_table (entries rgn)"
    and ext: "extends rgn n j p"
  shows "\<exists>r rgn'. try_coalesce j 1 (rgn\<lparr>region := (region rgn)[j := p]\<rparr>) = Some (r, rgn') \<and>
     0 < r \<and> covered rgn' = covered rgn \<union> area n \<and> (area n \<inter> covered rgn = {} \<longrightarrow> lmb_ok rgn')"
proof -
  note p = ext [unfolded extends_def]
  obtain xs ys where x: "entries rgn = xs @ region rgn ! j # ys" "length xs = j"
    using entries_split [OF l] p by blast
  let ?r = "rgn\<lparr>region := (region rgn)[length xs := p]\<rparr>"
  have e: "entries ?r = xs @ p # ys" using entries_update [OF x(1)] .
  have "lp_base p \<le> lp_base q" if "q \<in> set ys" for q
    using g x(1) p base_less_end [of "region rgn ! j"] that by (auto simp: below_def word_le_nat_alt dest!: bspec)
  hence q: "\<forall>q \<in> set ys. good q \<and> lp_base p \<le> lp_base q" using g x(1) by (simp add: good_table_def)
  have t: "good_table (entries ?r)" if "area n \<inter> covered rgn = {}"
    using extend_table [of xs "region rgn ! j" ys p n] g x(1) e p that by simp
  have "covered ?r = covered rgn \<union> area n" using e x(1) p by auto
  thus ?thesis using try_coalesce_spec [OF _ _ e _ q] l x(2) p t by (auto simp: lmb_ok_def)
qed

text \<open>What \<open>lmb_add_region\<close> does to a well-formed table, in every case.\<close>

lemma add_region_spec:
  assumes ok: "lmb_ok rgn" and n: "good n"
  shows "\<exists>r rgn'. lmb_add_region rgn (lp_base n) (lp_size n) = Some (r, rgn') \<and>
     (r < 0 \<longrightarrow> rgn' = rgn \<and> cnt rgn = MAX_LMB_REGIONS) \<and>
     (0 \<le> r \<longrightarrow> covered rgn' = covered rgn \<union> area n) \<and>
     (area n \<inter> covered rgn = {} \<longrightarrow> lmb_ok rgn')"
proof (cases "cnt rgn = 1 \<and> lp_size (region rgn ! 0) = 0")
  case True
  have nn: "\<lparr>lp_base = lp_base n, lp_size = lp_size n\<rparr> = n" by simp
  have "length (region rgn) = 9" "entries rgn = [region rgn ! 0]" "area (region rgn ! 0) = {}"
    using ok True by (cases "region rgn"; simp add: lmb_ok_def entries_def area_empty)+
  moreover from this have "entries (rgn\<lparr>region := (region rgn)[0 := n]\<rparr>) = [n]"
    using entries_update [of rgn "[]"] by simp
  ultimately show ?thesis using True n by (simp add: lmb_add_region_def nth_opt_def nn lmb_ok_def)
next
  case False
  let ?b = "lp_base n" and ?s = "lp_size n"
  have l: "length (region rgn) = 9" "1 \<le> unat (cnt rgn)" "unat (cnt rgn) \<le> 8" and g: "good_table (entries rgn)"
    using ok False by (auto simp: lmb_ok_def)
  have start: "lmb_add_region rgn ?b ?s = do {
       scan \<leftarrow> add_loop ?b ?s (region rgn) 0 (unat (cnt rgn));
       (case scan of
          Known \<Rightarrow> Some (0, rgn)
        | Extended i regs \<Rightarrow> try_coalesce i 1 (rgn\<lparr>region := regs\<rparr>)
        | Passed \<Rightarrow> do { (coalesced, rgn) \<leftarrow> try_coalesce (unat (cnt rgn)) 0 rgn;
                      if coalesced \<noteq> 0 then Some (coalesced, rgn) else insert_region ?b ?s rgn }) }"
    using False l(1) by (auto simp: lmb_add_region_def nth_opt_def)
  show ?thesis
  proof (rule add_scan_cases [OF l(1,3) g n])
    fix j assume j: "j < unat (cnt rgn)" "region rgn ! j = n" "add_loop ?b ?s (region rgn) 0 (unat (cnt rgn)) = Some Known"
    have "area n \<subseteq> covered rgn" by (rule entries_split [OF l(1,3) j(1)]) (auto simp: j(2))
    thus ?thesis using start j(3) ok by auto
  next
    fix j p assume "extends rgn n j p" "add_loop ?b ?s (region rgn) 0 (unat (cnt rgn)) = Some (Extended j ((region rgn)[j := p]))"
    thus ?thesis using start add_extended [OF l(1,3) g, of n j p] by auto
  next
    assume "add_loop ?b ?s (region rgn) 0 (unat (cnt rgn)) = Some Passed"
    moreover have "try_coalesce (unat (cnt rgn)) 0 rgn = Some (0, rgn)"
      using l by (auto simp: try_coalesce_def word_less_nat_alt unat_sub_if_size word_le_nat_alt)
    ultimately show ?thesis using start insert_region_spec [OF l g n] by (auto simp: lmb_ok_def)
  qed
qed

subsection \<open>Allocating\<close>

lemma unat_exp: "k < 64 \<Longrightarrow> unat (2 ^ k :: u64) = 2 ^ k"
  using unat_of_nat [where x = "2 ^ k" and 'a = 64] power_strict_increasing [of k 64 "2 :: nat"] by simp

lemma unat_align_down: "unat (lmb_align_down a (2 ^ k)) = unat a div 2 ^ k * 2 ^ k"
proof -
  have "lmb_align_down a (2 ^ k) = push_bit k (drop_bit k a)"
    by (rule bit_word_eqI) (auto simp: lmb_align_down_def bit_simps mask_eq_exp_minus_1 [symmetric])
  moreover have "unat (push_bit k (drop_bit k a)) = take_bit 64 (push_bit k (drop_bit k (unat a)))"
    using take_bit_nat_eq_self [OF unsigned_less [of a]] by (simp only: unsigned_push_bit_eq unsigned_drop_bit_eq) simp
  moreover have "unat a div 2 ^ k * 2 ^ k < 2 ^ 64"
    using order_le_less_trans [OF div_times_less_eq_dividend unsigned_less [of a], of "2 ^ k"] by simp
  ultimately show ?thesis by (simp add: push_bit_eq_mult drop_bit_eq_div take_bit_nat_eq_self)
qed

lemma align_down_dvd: "2 ^ k dvd unat (lmb_align_down a (2 ^ k))"
  by (simp add: unat_align_down)

lemma unat_align_up:
  assumes "k < 64" "unat a + 2 ^ k \<le> 2 ^ 64"
  shows "unat a \<le> unat (lmb_align_up a (2 ^ k))" "unat (lmb_align_up a (2 ^ k)) < unat a + 2 ^ k"
    "2 ^ k dvd unat a \<Longrightarrow> lmb_align_up a (2 ^ k) = a"
proof -
  let ?m = "(2 :: nat) ^ k"
  have "1 \<le> (2 ^ k :: u64)" using unat_exp [OF assms(1)] by (simp add: word_le_nat_alt)
  hence m: "unat (2 ^ k - 1 :: u64) = ?m - 1" using unat_exp [OF assms(1)] by (simp add: unat_sub_if_size)
  have "unat a + (?m - 1) < 2 ^ 64" using assms(2) zero_less_power [of "2 :: nat" k] by simp
  hence "unat (a + (2 ^ k - 1)) = unat a + (?m - 1)" by (simp add: unat_plus_if_size word_size m)
  hence u: "unat (lmb_align_up a (2 ^ k)) = (unat a + (?m - 1)) div ?m * ?m"
    using unat_align_down [of "a + (2 ^ k - 1)" k] by (simp only: lmb_align_up_def lmb_align_down_def)
  have d: "(unat a + (?m - 1)) div ?m * ?m + (unat a + (?m - 1)) mod ?m = unat a + (?m - 1)" by (rule div_mult_mod_eq)
  have r: "(unat a + (?m - 1)) mod ?m < ?m" by simp
  show "unat a \<le> unat (lmb_align_up a (2 ^ k))" "unat (lmb_align_up a (2 ^ k)) < unat a + ?m"
    using u d r by linarith+
  show "lmb_align_up a (2 ^ k) = a" if "?m dvd unat a"
  proof -
    from that obtain c where c: "unat a = ?m * c" by (rule dvdE)
    have "(?m * c + (?m - 1)) div ?m = c" by (rule div_nat_eqI) (use zero_less_power [of "2 :: nat" k] in \<open>simp, linarith\<close>)+
    thus ?thesis using u c by (simp add: word_unat_eq_iff mult.commute)
  qed
qed

lemma overlaps_loop_total:
  "i + k \<le> length regs \<Longrightarrow>
     (\<exists>j. overlaps_loop base sz regs i k = Some (Some j)) \<or>
     overlaps_loop base sz regs i k = Some None \<and>
       (\<forall>j. i \<le> j \<and> j < i + k \<longrightarrow> \<not> lmb_addrs_overlap base sz (lp_base (regs ! j)) (lp_size (regs ! j)))"
proof (induction base sz regs i k rule: overlaps_loop.induct)
  case (2 base sz regs i k)
  then show ?case by (cases "lmb_addrs_overlap base sz (lp_base (regs ! i)) (lp_size (regs ! i))")
    (auto simp: nth_opt_def less_Suc_eq_le Suc_le_eq dest: le_neq_implies_less)
qed auto

lemma overlaps_region_cases:
  assumes ok: "lmb_ok rgn" and n: "end_of \<lparr>lp_base = base, lp_size = sz\<rparr> < 2 ^ 64"
  obtains (hit) j where "lmb_overlaps_region rgn base sz = Some (Some j)"
      "lmb_addrs_overlap base sz (lp_base (region rgn ! j)) (lp_size (region rgn ! j))"
      "good (region rgn ! j)" "region rgn ! j \<in> set (entries rgn)"
    | (free) "lmb_overlaps_region rgn base sz = Some None"
      "area \<lparr>lp_base = base, lp_size = sz\<rparr> \<inter> covered rgn = {}"
proof -
  let ?n = "\<lparr>lp_base = base, lp_size = sz\<rparr>"
  have l: "length (region rgn) = 9" "unat (cnt rgn) \<le> 8" using ok by (simp_all add: lmb_ok_def)
  hence "0 + unat (cnt rgn) \<le> length (region rgn)" by simp
  from overlaps_loop_total [OF this, of base sz] show thesis
  proof (elim disjE exE conjE)
    fix j assume j: "overlaps_loop base sz (region rgn) 0 (unat (cnt rgn)) = Some (Some j)"
    note o = overlaps_loop_Some [OF j]
    hence e: "region rgn ! j \<in> set (entries rgn)" using l by (auto simp: entries_def in_set_conv_nth)
    have "\<not> lmb_addrs_overlap base sz 0 0" by (simp add: lmb_addrs_overlap_def)
    hence "good (region rgn ! j)" using entry_cases [OF ok e] o by auto
    with e o j show thesis using hit [of j] by (simp add: lmb_overlaps_region_def)
  next
    assume no: "overlaps_loop base sz (region rgn) 0 (unat (cnt rgn)) = Some None"
      "\<forall>j. 0 \<le> j \<and> j < 0 + unat (cnt rgn) \<longrightarrow> \<not> lmb_addrs_overlap base sz (lp_base (region rgn ! j)) (lp_size (region rgn ! j))"
    have "area ?n \<inter> area p = {}" if p: "p \<in> set (entries rgn)" for p
    proof (cases "lp_size p = 0")
      case False
      have "good p" using entry_cases [OF ok p] False by auto
      moreover obtain j where "j < unat (cnt rgn)" "p = region rgn ! j"
        using p l by (auto simp: entries_def in_set_conv_nth)
      ultimately show ?thesis using no(2) not_overlap_disjoint [of ?n p] n by (simp add: good_def)
    qed (simp add: area_empty)
    thus thesis using free no(1) by (simp add: lmb_overlaps_region_def cover_disjoint)
  qed
qed

text \<open>
  What one return of the search promises about the block at \<open>a\<close>: it ends at or below a limit, is
  aligned, was free and is reserved now.
\<close>

definition allocated :: "u64 \<Rightarrow> nat \<Rightarrow> nat \<Rightarrow> lmb_region \<Rightarrow> u64 \<Rightarrow> lmb_region \<Rightarrow> bool" where
  "allocated sz k limit rgn a rgn' \<longleftrightarrow>
     end_of \<lparr>lp_base = a, lp_size = sz\<rparr> \<le> limit \<and> 2 ^ k dvd unat a \<and>
     area \<lparr>lp_base = a, lp_size = sz\<rparr> \<inter> covered rgn = {} \<and>
     covered rgn \<union> area \<lparr>lp_base = a, lp_size = sz\<rparr> \<subseteq> covered rgn' \<and>
     (2 ^ k dvd unat sz \<longrightarrow> lmb_ok rgn')"

text \<open>No aligned block that starts in a range of addresses is free.\<close>

definition none_free :: "u64 \<Rightarrow> nat \<Rightarrow> lmb_region \<Rightarrow> u64 set \<Rightarrow> bool" where
  "none_free sz k rgn as \<longleftrightarrow>
     (\<forall>a \<in> as. 2 ^ k dvd unat a \<longrightarrow> area \<lparr>lp_base = a, lp_size = sz\<rparr> \<inter> covered rgn \<noteq> {})"

lemma none_free_Un: "none_free sz k rgn (as \<union> bs) \<longleftrightarrow> none_free sz k rgn as \<and> none_free sz k rgn bs"
  by (auto simp: none_free_def)

lemma skipped_none_free:
  assumes q: "q \<in> set (entries rgn)" "good q" and sz: "0 < sz" and base: "unat base < end_of q"
    and low: "\<And>a. a \<in> as \<Longrightarrow> 2 ^ k dvd unat a \<Longrightarrow> a \<le> base \<and> unat (lp_base q) < unat a + unat sz"
  shows "none_free sz k rgn as"
  unfolding none_free_def
proof (intro ballI impI)
  fix a assume a: "a \<in> as" "2 ^ k dvd unat a"
  let ?n = "\<lparr>lp_base = a, lp_size = sz\<rparr>"
  have "\<not> below ?n q" "\<not> below q ?n" using low [OF a] base by (auto simp: below_def end_of_def word_le_nat_alt)
  hence "area ?n \<inter> area q \<noteq> {}" using area_disjoint_iff [of ?n q] sz q(2) by (simp add: good_def)
  thus "area ?n \<inter> covered rgn \<noteq> {}" using q(1) by (auto simp: cover_def)
qed

lemma take_block:
  assumes ok: "lmb_ok rgn" and k: "k < 64" and sz: "0 < sz" and a: "2 ^ k dvd unat a"
    and limit: "end_of \<lparr>lp_base = a, lp_size = sz\<rparr> \<le> limit" "limit + 2 ^ k \<le> 2 ^ 64"
    and free: "area \<lparr>lp_base = a, lp_size = sz\<rparr> \<inter> covered rgn = {}"
  obtains r rgn' where "lmb_add_region rgn a (lmb_align_up sz (2 ^ k)) = Some (r, rgn')"
    "r < 0 \<longrightarrow> rgn' = rgn \<and> cnt rgn = MAX_LMB_REGIONS" "0 \<le> r \<longrightarrow> allocated sz k limit rgn a rgn'"
proof -
  let ?n = "\<lparr>lp_base = a, lp_size = lmb_align_up sz (2 ^ k)\<rparr>"
  have e: "unat a + unat sz + 2 ^ k \<le> 2 ^ 64" using limit by (simp add: end_of_def)
  note up = unat_align_up [OF k, of sz]
  have n: "good ?n" using up e sz by (simp add: good_def end_of_def word_less_nat_alt)
  have "area \<lparr>lp_base = a, lp_size = sz\<rparr> \<subseteq> area ?n" using up(1) e by (auto simp: area_def end_of_def)
  moreover have "?n = \<lparr>lp_base = a, lp_size = sz\<rparr>" if "2 ^ k dvd unat sz" using up(3) e that by simp
  moreover obtain r rgn' where r: "lmb_add_region rgn a (lmb_align_up sz (2 ^ k)) = Some (r, rgn')"
      "r < 0 \<longrightarrow> rgn' = rgn \<and> cnt rgn = MAX_LMB_REGIONS" "0 \<le> r \<longrightarrow> covered rgn' = covered rgn \<union> area ?n"
      "area ?n \<inter> covered rgn = {} \<longrightarrow> lmb_ok rgn'"
    using add_region_spec [OF ok n] by auto
  ultimately have "0 \<le> r \<longrightarrow> allocated sz k limit rgn a rgn'" using a limit(1) free unfolding allocated_def by auto
  with r(1,2) show thesis by (rule that)
qed

text \<open>The search of a region gives up only when nothing in it is free, and takes the highest free block.\<close>

definition search_ok :: "u64 \<Rightarrow> u64 \<Rightarrow> nat \<Rightarrow> nat \<Rightarrow> lmb_region \<Rightarrow> u64 \<Rightarrow> alloc_step \<Rightarrow> bool" where
  "search_ok lmbbase sz k limit rgn base st \<longleftrightarrow> (case st of
     Next_Region \<Rightarrow> none_free sz k rgn {a. a \<noteq> 0 \<and> lmbbase \<le> a \<and> a \<le> base}
   | Return a rgn' \<Rightarrow>
       if a = 0 then rgn' = rgn \<and> cnt rgn = MAX_LMB_REGIONS
       else lmbbase \<le> a \<and> allocated sz k limit rgn a rgn' \<and> none_free sz k rgn {a<..base})"

lemma search_ok_skip:
  assumes "search_ok lmbbase sz k limit rgn b st" "none_free sz k rgn {b<..base}" "b \<le> base"
  shows "search_ok lmbbase sz k limit rgn base st"
proof (cases st)
  case (Return a rgn')
  then show ?thesis using assms(1,2) by (fastforce simp: search_ok_def none_free_def not_le [symmetric])
next
  case Next_Region
  then show ?thesis using assms(1,2) by (fastforce simp: search_ok_def none_free_def not_le [symmetric])
qed

lemma aligned_le_align_down:
  assumes "2 ^ k dvd unat a" "a \<le> x"
  shows "a \<le> lmb_align_down x (2 ^ k)"
proof -
  from assms(1) obtain c where c: "unat a = c * 2 ^ k" by (auto simp: dvd_def mult.commute)
  have "c \<le> unat x div 2 ^ k" using div_le_mono [of "unat a" "unat x" "2 ^ k"] assms(2) c by (simp add: word_le_nat_alt)
  thus ?thesis using c by (simp add: word_le_nat_alt unat_align_down)
qed

lemma hit_none_free:
  assumes q: "q \<in> set (entries rgn)" "good q" and sz: "0 < sz" and m: "unat base < end_of q" and le: "\<not> lp_base q < sz"
  shows "none_free sz k rgn {lmb_align_down (lp_base q - sz) (2 ^ k)<..base}"
proof (rule skipped_none_free [OF q sz m])
  fix a assume a: "a \<in> {lmb_align_down (lp_base q - sz) (2 ^ k)<..base}" "2 ^ k dvd unat a"
  hence "\<not> a \<le> lp_base q - sz" using aligned_le_align_down [OF a(2), of "lp_base q - sz"] by auto
  thus "a \<le> base \<and> unat (lp_base q) < unat a + unat sz"
    using a le by (auto simp: word_le_nat_alt unat_sub_if_size not_less word_less_nat_alt)
qed

lemma alloc_loop_spec:
  assumes ok: "lmb_ok rgn" and k: "k < 64" and sz: "0 < sz" and limit: "limit + 2 ^ k \<le> 2 ^ 64"
  shows "2 ^ k dvd unat base \<Longrightarrow> end_of \<lparr>lp_base = base, lp_size = sz\<rparr> \<le> limit \<Longrightarrow>
     \<exists>st. alloc_loop lmbbase sz (2 ^ k) rgn base = Some st \<and> search_ok lmbbase sz k limit rgn base st"
proof (induction "unat base" arbitrary: base rule: less_induct)
  case less
  have lt: "end_of \<lparr>lp_base = base, lp_size = sz\<rparr> < 2 ^ 64"
    using less.prems(2) limit zero_less_power [of "2 :: nat" k] by linarith
  show ?case
  proof (cases "base \<noteq> 0 \<and> lmbbase \<le> base")
    case True
    show ?thesis
    proof (rule overlaps_region_cases [OF ok lt])
      fix j assume j: "lmb_overlaps_region rgn base sz = Some (Some j)"
        "lmb_addrs_overlap base sz (lp_base (region rgn ! j)) (lp_size (region rgn ! j))"
        "good (region rgn ! j)" "region rgn ! j \<in> set (entries rgn)"
      let ?q = "region rgn ! j" and ?b = "lmb_align_down (lp_base (region rgn ! j) - sz) (2 ^ k)"
      have m: "unat base < end_of ?q" using overlap_meets [of "\<lparr>lp_base = base, lp_size = sz\<rparr>" ?q] j(2,3) lt by simp
      have step: "alloc_loop lmbbase sz (2 ^ k) rgn base =
          (if lp_base ?q < sz then Some Next_Region else alloc_loop lmbbase sz (2 ^ k) rgn ?b)"
        using True j(1) by (subst alloc_loop.simps) (simp add: Let_def)
      show ?thesis
      proof (cases "lp_base ?q < sz")
        case True
        then show ?thesis using step skipped_none_free [OF j(4,3) sz m, of "{a. a \<noteq> 0 \<and> lmbbase \<le> a \<and> a \<le> base}"]
          by (simp add: search_ok_def word_less_nat_alt)
      next
        case False
        have b: "?b < base" using overlap_step_below [OF j(2) False] .
        have "end_of \<lparr>lp_base = ?b, lp_size = sz\<rparr> \<le> limit"
          using less.prems(2) b by (simp add: end_of_def word_less_nat_alt)
        with less.hyps [OF _ align_down_dvd] b obtain st where
          "alloc_loop lmbbase sz (2 ^ k) rgn ?b = Some st" "search_ok lmbbase sz k limit rgn ?b st"
          by (auto simp: word_less_nat_alt)
        then show ?thesis using step False search_ok_skip [OF _ hit_none_free [OF j(4,3) sz m False]] b by auto
      qed
    next
      assume f: "lmb_overlaps_region rgn base sz = Some None"
        "area \<lparr>lp_base = base, lp_size = sz\<rparr> \<inter> covered rgn = {}"
      obtain r rgn' where "lmb_add_region rgn base (lmb_align_up sz (2 ^ k)) = Some (r, rgn')"
          "r < 0 \<longrightarrow> rgn' = rgn \<and> cnt rgn = MAX_LMB_REGIONS" "0 \<le> r \<longrightarrow> allocated sz k limit rgn base rgn'"
        using take_block [OF ok k sz less.prems limit f(2)] .
      thus ?thesis using True f(1) by (subst alloc_loop.simps) (auto simp: search_ok_def none_free_def)
    qed
  next
    case False
    hence e: "{a. a \<noteq> 0 \<and> lmbbase \<le> a \<and> a \<le> base} = {}" by (auto dest: order_trans)
    show ?thesis using False by (subst alloc_loop.simps) (auto simp: search_ok_def e none_free_def)
  qed
qed

lemma alloc_start_spec:
  assumes p: "end_of p < 2 ^ 64" and sz: "0 < sz" and max: "max_addr = LMB_ALLOC_ANYWHERE \<or> sz \<le> max_addr"
    and limit: "limit = (if max_addr = LMB_ALLOC_ANYWHERE then end_of p else min (end_of p) (unat max_addr))"
  obtains (skip) "alloc_start sz (2 ^ k) max_addr p = None" "limit < unat (lp_base p) + unat sz"
    | (base) base where "alloc_start sz (2 ^ k) max_addr p = Some base" "2 ^ k dvd unat base"
      "unat base + unat sz \<le> limit" "\<And>a. 2 ^ k dvd unat a \<Longrightarrow> unat a + unat sz \<le> limit \<Longrightarrow> a \<le> base"
proof (cases "lp_size p < sz \<or> max_addr \<noteq> LMB_ALLOC_ANYWHERE \<and> \<not> lp_base p < max_addr")
  case True
  hence "alloc_start sz (2 ^ k) max_addr p = None" "limit < unat (lp_base p) + unat sz"
    using sz by (auto simp: alloc_start_def Let_def limit end_of_def word_less_nat_alt min_def)
  then show thesis by (rule skip)
next
  case False
  define w where "w = (if max_addr = LMB_ALLOC_ANYWHERE then lp_base p + lp_size p else min (lp_base p + lp_size p) max_addr)"
  have e: "unat (lp_base p + lp_size p) = end_of p" using unat_end_of [OF p] .
  have w: "unat w = limit" using e by (auto simp: w_def limit min_def word_le_nat_alt)
  have le: "sz \<le> w" using False max e by (auto simp: w_def min_def word_le_nat_alt word_less_nat_alt end_of_def)
  have s: "alloc_start sz (2 ^ k) max_addr p = Some (lmb_align_down (w - sz) (2 ^ k))"
    using False e by (auto simp: alloc_start_def Let_def w_def word_less_nat_alt end_of_def)
  have u: "unat (w - sz) = limit - unat sz" "unat sz \<le> limit" using le w by (simp_all add: unat_sub_if_size word_le_nat_alt)
  have "unat (lmb_align_down (w - sz) (2 ^ k)) \<le> limit - unat sz"
    using align_down_le [of "w - sz" "2 ^ k"] u by (simp add: word_le_nat_alt)
  moreover have "a \<le> lmb_align_down (w - sz) (2 ^ k)" if "2 ^ k dvd unat a" "unat a + unat sz \<le> limit" for a
    using aligned_le_align_down [OF that(1), of "w - sz"] that(2) u by (simp add: word_le_nat_alt)
  ultimately show thesis using u by (intro base [OF s align_down_dvd]) auto
qed

text \<open>The blocks a caller may be given: aligned, inside one of the memory regions and below the bound.\<close>

definition candidate :: "lmb_property list \<Rightarrow> u64 \<Rightarrow> nat \<Rightarrow> u64 \<Rightarrow> u64 \<Rightarrow> bool" where
  "candidate mem sz k max_addr a \<longleftrightarrow> a \<noteq> 0 \<and> 2 ^ k dvd unat a \<and>
     (\<exists>p \<in> set mem. area \<lparr>lp_base = a, lp_size = sz\<rparr> \<subseteq> area p) \<and>
     (max_addr \<noteq> LMB_ALLOC_ANYWHERE \<longrightarrow> unat a + unat sz \<le> unat max_addr)"

lemma area_subset: "0 < sz \<Longrightarrow>
    area \<lparr>lp_base = a, lp_size = sz\<rparr> \<subseteq> area p \<longleftrightarrow> lp_base p \<le> a \<and> unat a + unat sz \<le> end_of p"
  by (auto simp: area_def end_of_def word_le_nat_alt word_less_nat_alt atLeastLessThan_subset_iff)

lemma alloc_regions_spec:
  assumes ok: "lmb_ok rgn" and k: "k < 64" and sz: "0 < sz"
    and max: "max_addr = LMB_ALLOC_ANYWHERE \<or> sz \<le> max_addr"
  shows "i \<le> length regs \<Longrightarrow> \<forall>p \<in> set (take i regs). end_of p + 2 ^ k \<le> 2 ^ 64 \<Longrightarrow>
     \<exists>a rgn'. alloc_regions sz (2 ^ k) max_addr rgn regs i = Some (a, rgn') \<and>
       (if a = 0 then rgn' = rgn \<and> (cnt rgn = MAX_LMB_REGIONS \<or> none_free sz k rgn {a. candidate (take i regs) sz k max_addr a})
        else candidate (take i regs) sz k max_addr a \<and> allocated sz k (2 ^ 64) rgn a rgn')"
proof (induction i)
  case 0
  then show ?case by (simp add: none_free_def candidate_def)
next
  case (Suc i)
  let ?p = "regs ! i"
  define limit where "limit = (if max_addr = LMB_ALLOC_ANYWHERE then end_of ?p else min (end_of ?p) (unat max_addr))"
  have t: "take (Suc i) regs = take i regs @ [?p]" using Suc.prems by (simp add: take_Suc_conv_app_nth)
  have p: "end_of ?p + 2 ^ k \<le> 2 ^ 64" using Suc.prems t by simp
  hence lt: "end_of ?p < 2 ^ 64" using zero_less_power [of "2 :: nat" k] by linarith
  have lim: "limit + 2 ^ k \<le> 2 ^ 64" "limit \<le> end_of ?p" using p by (auto simp: limit_def min_def)
  have cand: "candidate (take (Suc i) regs) sz k max_addr a \<longleftrightarrow> candidate (take i regs) sz k max_addr a \<or>
      a \<noteq> 0 \<and> 2 ^ k dvd unat a \<and> lp_base ?p \<le> a \<and> unat a + unat sz \<le> limit" for a
    unfolding candidate_def t by (auto simp: area_subset [OF sz] limit_def)
  obtain a rgn' where IH: "alloc_regions sz (2 ^ k) max_addr rgn regs i = Some (a, rgn')"
      "if a = 0 then rgn' = rgn \<and> (cnt rgn = MAX_LMB_REGIONS \<or> none_free sz k rgn {a. candidate (take i regs) sz k max_addr a})
       else candidate (take i regs) sz k max_addr a \<and> allocated sz k (2 ^ 64) rgn a rgn'"
    using Suc t by auto
  have go: ?case if "alloc_regions sz (2 ^ k) max_addr rgn regs (Suc i) = alloc_regions sz (2 ^ k) max_addr rgn regs i"
      "none_free sz k rgn {a. a \<noteq> 0 \<and> lp_base ?p \<le> a \<and> unat a + unat sz \<le> limit}"
    using IH that by (auto simp: none_free_def cand split: if_split_asm)
  have n: "nth_opt regs i = Some ?p" using Suc.prems by (simp add: nth_opt_def)
  show ?case
  proof (rule alloc_start_spec [OF lt sz max limit_def, of k])
    assume "alloc_start sz (2 ^ k) max_addr ?p = None" "limit < unat (lp_base ?p) + unat sz"
    thus ?case using n by (intro go) (auto simp: none_free_def word_le_nat_alt)
  next
    fix base assume b: "alloc_start sz (2 ^ k) max_addr ?p = Some base" "2 ^ k dvd unat base"
      "unat base + unat sz \<le> limit" "\<And>a. 2 ^ k dvd unat a \<Longrightarrow> unat a + unat sz \<le> limit \<Longrightarrow> a \<le> base"
    obtain st where st: "alloc_loop (lp_base ?p) sz (2 ^ k) rgn base = Some st" "search_ok (lp_base ?p) sz k limit rgn base st"
      using alloc_loop_spec [OF ok k sz lim(1) b(2), of "lp_base ?p"] b(3) by (auto simp: end_of_def)
    show ?case
    proof (cases st)
      case Next_Region
      then show ?thesis using go n b st by (auto simp: search_ok_def none_free_def)
    next
      case (Return a rgn')
      then show ?thesis using n b st lim lt cand by (auto simp: search_ok_def allocated_def end_of_def)
    qed
  qed
qed

subsection \<open>Freeing\<close>

lemma table_disjoint: "good_table (xs @ p # ys) \<Longrightarrow> area p \<inter> cover (xs @ ys) = {}"
  by (force simp: good_table_def sorted_wrt_append cover_def area_def below_def)

lemma shrink_table:
  assumes "good_table (xs @ p # ys)" "good p'" "lp_base p \<le> lp_base p'" "end_of p' \<le> end_of p"
  shows "good_table (xs @ p' # ys)"
  using assms by (auto simp: below_def word_le_nat_alt intro: order_trans)

lemma free_loop_spec:
  "i + k \<le> length regs \<Longrightarrow>
     (\<exists>j. free_loop base hi regs i k = Some (Some j) \<and> i \<le> j \<and> j < i + k \<and>
        lp_base (regs ! j) \<le> base \<and> hi \<le> lp_base (regs ! j) + lp_size (regs ! j)) \<or>
     free_loop base hi regs i k = Some None \<and>
       (\<forall>j. i \<le> j \<and> j < i + k \<longrightarrow> \<not> (lp_base (regs ! j) \<le> base \<and> hi \<le> lp_base (regs ! j) + lp_size (regs ! j)))"
proof (induction base hi regs i k rule: free_loop.induct)
  case (2 base hi regs i k)
  then show ?case by (cases "lp_base (regs ! i) \<le> base \<and> hi \<le> lp_base (regs ! i) + lp_size (regs ! i)")
    (auto simp: nth_opt_def less_Suc_eq_le Suc_le_eq dest: le_neq_implies_less)
qed auto

text \<open>The entry that \<open>lmb_free\<close> finds, or none that holds the whole range.\<close>

lemma free_cases:
  assumes ok: "lmb_ok rgn" and n: "good n"
  obtains (none) "free_loop (lp_base n) (lp_base n + lp_size n) (region rgn) 0 (unat (cnt rgn)) = Some None"
      "\<forall>p \<in> set (entries rgn). \<not> area n \<subseteq> area p"
    | (found) xs p ys where "free_loop (lp_base n) (lp_base n + lp_size n) (region rgn) 0 (unat (cnt rgn)) = Some (Some (length xs))"
      "entries rgn = xs @ p # ys" "region rgn ! length xs = p" "good_table (xs @ p # ys)" "lp_base p \<le> lp_base n" "end_of n \<le> end_of p"
proof -
  have l: "length (region rgn) = 9" "unat (cnt rgn) \<le> 8" using ok by (simp_all add: lmb_ok_def)
  have e: "unat (lp_base n + lp_size n) = end_of n" using n unat_end_of [of n] by (simp add: good_def)
  have pos: "0 < end_of n" using base_less_end [OF n] by simp
  have sub: "lp_base p \<le> lp_base n \<and> lp_base n + lp_size n \<le> lp_base p + lp_size p \<longleftrightarrow> area n \<subseteq> area p"
    if p: "p \<in> set (entries rgn)" for p
  proof -
    consider "good p" | "p = \<lparr>lp_base = 0, lp_size = 0\<rparr>" using entry_cases [OF ok p] by blast
    moreover have "area n \<subseteq> area p \<longleftrightarrow> lp_base p \<le> lp_base n \<and> end_of n \<le> end_of p"
      using area_subset [of "lp_size n" "lp_base n" p] n by (cases n) (simp add: good_def end_of_def)
    ultimately show ?thesis
      using e pos unat_end_of [of p] by cases (simp_all add: good_def word_le_nat_alt end_of_def [of "\<lparr>lp_base = 0, lp_size = 0\<rparr>"])
  qed
  have "0 + unat (cnt rgn) \<le> length (region rgn)" using l by simp
  from free_loop_spec [OF this, of "lp_base n" "lp_base n + lp_size n"] show thesis
  proof (elim disjE exE conjE)
    fix j assume f: "free_loop (lp_base n) (lp_base n + lp_size n) (region rgn) 0 (unat (cnt rgn)) = Some (Some j)"
      and j: "j < 0 + unat (cnt rgn)" "lp_base (region rgn ! j) \<le> lp_base n" "lp_base n + lp_size n \<le> lp_base (region rgn ! j) + lp_size (region rgn ! j)"
    obtain xs ys where x: "entries rgn = xs @ region rgn ! j # ys" "length xs = j"
      using entries_split [OF l] j(1) by auto
    have "region rgn ! j \<noteq> \<lparr>lp_base = 0, lp_size = 0\<rparr>" using j(3) e pos by (auto simp: word_le_nat_alt)
    hence g: "good_table (xs @ region rgn ! j # ys)" using ok x l j(1) by (auto simp: lmb_ok_def)
    hence "end_of n \<le> end_of (region rgn ! j)" using j(3) e unat_end_of [of "region rgn ! j"] by (simp add: word_le_nat_alt good_def)
    thus thesis using found [of xs "region rgn ! j" ys] f x g j(2) by simp
  next
    assume f: "free_loop (lp_base n) (lp_base n + lp_size n) (region rgn) 0 (unat (cnt rgn)) = Some None"
      "\<forall>j. 0 \<le> j \<and> j < 0 + unat (cnt rgn) \<longrightarrow> \<not> (lp_base (region rgn ! j) \<le> lp_base n \<and>
         lp_base n + lp_size n \<le> lp_base (region rgn ! j) + lp_size (region rgn ! j))"
    have "\<not> area n \<subseteq> area p" if p: "p \<in> set (entries rgn)" for p
    proof -
      obtain j where "j < unat (cnt rgn)" "p = region rgn ! j" using p l by (auto simp: entries_def in_set_conv_nth)
      thus ?thesis using f(2) [rule_format, of j] sub [OF p] by auto
    qed
    thus thesis using none f(1) by blast
  qed
qed

lemma cover_minus:
  assumes "good_table (xs @ p # ys)" "area n \<subseteq> area p"
  shows "cover (xs @ p # ys) - area n = cover xs \<union> (area p - area n) \<union> cover ys"
  using table_disjoint [OF assms(1)] assms(2) by auto

lemma split_entry:
  assumes p: "good p" and n: "good n" and in_p: "lp_base p < lp_base n" "end_of n < end_of p"
    and p1: "p1 = p\<lparr>lp_size := lp_base n - lp_base p\<rparr>"
    and p2: "p2 = \<lparr>lp_base = lp_base n + lp_size n, lp_size = lp_base p + lp_size p - (lp_base n + lp_size n)\<rparr>"
  shows "good p1 \<and> lp_base p1 = lp_base p \<and> end_of p1 = unat (lp_base n) \<and>
    good p2 \<and> unat (lp_base p2) = end_of n \<and> end_of p2 = end_of p"
proof -
  have "unat (lp_base p + lp_size p) = end_of p" "unat (lp_base n + lp_size n) = end_of n"
    using p n unat_end_of by (simp_all add: good_def)
  hence "unat (lp_size p1) = unat (lp_base n) - unat (lp_base p)" "unat (lp_base p2) = end_of n" "unat (lp_size p2) = end_of p - end_of n"
    using in_p by (simp_all add: p1 p2 unat_sub_if_size word_le_nat_alt word_less_nat_alt)
  moreover have "lp_base p1 = lp_base p" by (simp add: p1)
  ultimately show ?thesis using p n in_p base_less_end [OF n]
    by (auto simp: good_def end_of_def [of p1] end_of_def [of p2] word_less_nat_alt)
qed

text \<open>
  The outcomes of \<open>lmb_free\<close>: no entry holds the range; the range alone is removed; or the table is
  full and the part of the entry behind the range is lost with it.
\<close>

definition free_outcome :: "lmb_property \<Rightarrow> lmb_region \<Rightarrow> int \<Rightarrow> lmb_region \<Rightarrow> bool" where
  "free_outcome n rgn r rgn' \<longleftrightarrow>
     r < 0 \<and> rgn' = rgn \<and> (\<forall>p \<in> set (entries rgn). \<not> area n \<subseteq> area p) \<or>
     0 \<le> r \<and> covered rgn' = covered rgn - area n \<and> (lmb_ok rgn' \<or> cnt rgn' = 0) \<or>
     r < 0 \<and> cnt rgn = MAX_LMB_REGIONS \<and>
       (\<exists>p \<in> set (entries rgn). area n \<subset> area p \<and> covered rgn' = covered rgn - {unat (lp_base n) ..< end_of p})"

lemma free_whole:
  assumes ok: "lmb_ok rgn" and e: "entries rgn = xs @ p # ys" and g: "good_table (xs @ p # ys)" and n: "area n = area p"
  shows "\<exists>rgn'. lmb_remove_region (length xs) rgn = Some rgn' \<and> free_outcome n rgn 0 rgn'"
proof -
  have l: "length (region rgn) = 9" "unat (cnt rgn) \<le> 8" using ok by (simp_all add: lmb_ok_def)
  obtain rgn' where r: "lmb_remove_region (length xs) rgn = Some rgn'" "entries rgn' = xs @ ys"
      "length (region rgn') = 9" "unat (cnt rgn') = unat (cnt rgn) - 1"
    using remove_region [OF l e] by auto
  have "covered rgn' = covered rgn - area n" using cover_minus [OF g, of n] n e r(2) by auto
  moreover have "lmb_ok rgn' \<or> cnt rgn' = 0"
    using r l g unat_eq_zero [of "cnt rgn'"] by (cases "unat (cnt rgn') = 0") (auto simp: lmb_ok_def)
  ultimately show ?thesis using r(1) by (simp add: free_outcome_def)
qed

lemma free_edge:
  assumes ok: "lmb_ok rgn" and e: "entries rgn = xs @ p # ys" and g: "good_table (xs @ p # ys)" and n: "area n \<subseteq> area p"
    and p': "good p'" "lp_base p \<le> lp_base p'" "end_of p' \<le> end_of p" "area p' = area p - area n"
  shows "free_outcome n rgn 0 (rgn\<lparr>region := (region rgn)[length xs := p']\<rparr>)"
proof -
  let ?r = "rgn\<lparr>region := (region rgn)[length xs := p']\<rparr>"
  have e': "entries ?r = xs @ p' # ys" using entries_update [OF e] .
  have "covered ?r = covered rgn - area n" using cover_minus [OF g n] e e' p'(4) by auto
  moreover have "lmb_ok ?r" using ok e' shrink_table [OF g p'(1-3)] by (simp add: lmb_ok_def)
  ultimately show ?thesis by (simp add: free_outcome_def)
qed

lemma free_split:
  assumes ok: "lmb_ok rgn" and e: "entries rgn = xs @ p # ys" and g: "good_table (xs @ p # ys)"
    and n: "good n" and in_p: "lp_base p < lp_base n" "end_of n < end_of p"
  shows "\<exists>r rgn'. lmb_add_region (rgn\<lparr>region := (region rgn)[length xs := p\<lparr>lp_size := lp_base n - lp_base p\<rparr>]\<rparr>)
      (lp_base n + lp_size n) (lp_base p + lp_size p - (lp_base n + lp_size n)) = Some (r, rgn') \<and> free_outcome n rgn r rgn'"
proof -
  let ?p1 = "p\<lparr>lp_size := lp_base n - lp_base p\<rparr>"
  let ?p2 = "\<lparr>lp_base = lp_base n + lp_size n, lp_size = lp_base p + lp_size p - (lp_base n + lp_size n)\<rparr>"
  let ?r1 = "rgn\<lparr>region := (region rgn)[length xs := ?p1]\<rparr>"
  have p: "good p" using g by simp
  have s: "good ?p1" "lp_base ?p1 = lp_base p" "end_of ?p1 = unat (lp_base n)" "good ?p2" "unat (lp_base ?p2) = end_of n" "end_of ?p2 = end_of p"
    using split_entry [OF p n in_p refl refl] by auto
  have le: "unat (lp_base p) < unat (lp_base n)" "unat (lp_base n) < end_of n" using in_p(1) base_less_end [OF n] by (simp_all add: word_less_nat_alt)
  have np: "area n \<subset> area p" using le in_p(2) by (auto simp: area_def)
  have e1: "entries ?r1 = xs @ ?p1 # ys" using entries_update [OF e] .
  have ok1: "lmb_ok ?r1" using ok e1 shrink_table [OF g s(1)] s(2,3) le in_p(2) by (simp add: lmb_ok_def)
  have a: "area ?p1 = {unat (lp_base p) ..< unat (lp_base n)}" "area ?p2 = {end_of n ..< end_of p}"
    using s by (simp_all add: area_def)
  have out: "x \<notin> cover xs" "x \<notin> cover ys" if "unat (lp_base p) \<le> x" "x < end_of p" for x
    using table_disjoint [OF g] that by (auto simp: area_def)
  have ap: "area p = {unat (lp_base p) ..< end_of p}" "area n = {unat (lp_base n) ..< end_of n}" by (simp_all add: area_def)
  have d: "area ?p2 \<inter> covered ?r1 = {}" using out le in_p(2) by (auto simp: e1 a)
  have c1: "covered ?r1 = covered rgn - {unat (lp_base n) ..< end_of p}"
    using out le in_p(2) by (auto simp: e1 e a ap)
  have c2: "covered ?r1 \<union> area ?p2 = covered rgn - area n"
    using out le in_p(2) by (auto simp: e1 e a ap)
  have "lmb_property.lp_base ?p2 = lp_base n + lp_size n" "lmb_property.lp_size ?p2 = lp_base p + lp_size p - (lp_base n + lp_size n)"
    by simp_all
  with add_region_spec [OF ok1 s(4)] obtain r rgn' where
      "lmb_add_region ?r1 (lp_base n + lp_size n) (lp_base p + lp_size p - (lp_base n + lp_size n)) = Some (r, rgn')"
      "r < 0 \<longrightarrow> rgn' = ?r1 \<and> cnt rgn = MAX_LMB_REGIONS" "0 \<le> r \<longrightarrow> covered rgn' = covered rgn - area n" "lmb_ok rgn'"
    using d c2 by auto
  moreover have "p \<in> set (entries rgn)" using e by simp
  ultimately show ?thesis using c1 np unfolding free_outcome_def by (cases "r < 0") auto
qed

lemma free_spec:
  assumes ok: "lmb_ok (lmb_reserved l)" and n: "good n"
  shows "\<exists>r l'. lmb_free l (lp_base n) (lp_size n) = Some (r, l') \<and> lmb_memory l' = lmb_memory l \<and>
     free_outcome n (lmb_reserved l) r (lmb_reserved l')"
proof (rule free_cases [OF ok n])
  assume "free_loop (lp_base n) (lp_base n + lp_size n) (region (lmb_reserved l)) 0 (unat (cnt (lmb_reserved l))) = Some None"
    "\<forall>p \<in> set (entries (lmb_reserved l)). \<not> area n \<subseteq> area p"
  thus ?thesis by (simp add: lmb_free_def Let_def free_outcome_def)
next
  let ?R = "lmb_reserved l"
  fix xs p ys assume f: "free_loop (lp_base n) (lp_base n + lp_size n) (region ?R) 0 (unat (cnt ?R)) = Some (Some (length xs))"
    and e: "entries ?R = xs @ p # ys" and p: "region ?R ! length xs = p" and g: "good_table (xs @ p # ys)"
    and in_p: "lp_base p \<le> lp_base n" "end_of n \<le> end_of p"
  have gp: "good p" using g by simp
  have nth: "nth_opt (region ?R) (length xs) = Some p" using entries_nth [OF e, of 0] p by (simp add: nth_opt_def)
  have top: "lp_base p + lp_size p = lp_base n + lp_size n \<longleftrightarrow> end_of p = end_of n"
    using gp n unat_end_of [of p] unat_end_of [of n] by (simp add: good_def word_unat_eq_iff)
  have sub: "area n \<subseteq> area p" using in_p by (auto simp: area_def word_le_nat_alt)
  consider (all) "lp_base p = lp_base n" "end_of p = end_of n" | (front) "lp_base p = lp_base n" "end_of n < end_of p"
    | (tail) "lp_base p < lp_base n" "end_of p = end_of n" | (mid) "lp_base p < lp_base n" "end_of n < end_of p"
    using in_p by fastforce
  then show ?thesis
  proof cases
    case all
    then show ?thesis using free_whole [OF ok e g, of n] f nth top by (auto simp: lmb_free_def Let_def area_def)
  next
    case front
    have "unat (lp_size p - lp_size n) = unat (lp_size p) - unat (lp_size n)" "unat (lp_base n + lp_size n) = end_of n"
      using front n unat_end_of [of n] by (auto simp: unat_sub_if_size word_le_nat_alt end_of_def good_def)
    then show ?thesis
      using free_edge [OF ok e g sub, of "\<lparr>lp_base = lp_base n + lp_size n, lp_size = lp_size p - lp_size n\<rparr>"] front f nth top gp n
      by (auto simp: lmb_free_def Let_def area_def end_of_def good_def word_less_nat_alt word_le_nat_alt)
  next
    case tail
    let ?p = "p\<lparr>lp_size := lp_size p - lp_size n\<rparr>"
    have "unat (lp_size ?p) = unat (lp_size p) - unat (lp_size n)"
      using tail by (auto simp: unat_sub_if_size word_le_nat_alt end_of_def word_less_nat_alt)
    hence u: "end_of ?p = unat (lp_base n)" "good ?p"
      using tail gp by (auto simp: end_of_def good_def word_less_nat_alt)
    hence "area ?p = area p - area n" using tail base_less_end [OF n] by (auto simp: area_def word_less_nat_alt)
    then show ?thesis
      using free_edge [OF ok e g sub, of ?p] tail f nth top u base_less_end [OF n] by (auto simp: lmb_free_def Let_def)
  next
    case mid
    then show ?thesis using free_split [OF ok e g n mid] f nth top by (auto simp: lmb_free_def Let_def)
  qed
qed

section \<open>Properties\<close>

subsection \<open>A table for the examples\<close>

definition block :: "u64 \<Rightarrow> u64 \<Rightarrow> lmb_property" where "block b s = \<lparr>lp_base = b, lp_size = s\<rparr>"

definition table_of :: "lmb_property list \<Rightarrow> lmb_region" where
  "table_of ps = \<lparr>cnt = of_nat (length ps), rgn_size = 0, region = ps @ replicate (9 - length ps) (block 0 0)\<rparr>"

definition boot_lmb :: lmb where
  "boot_lmb = \<lparr>lmb_memory = table_of [block 0 0x40000000], lmb_reserved = table_of [block 0x1000 0x1000, block 0x8000 0x2000]\<rparr>"

lemma boot_lmb_ok: "lmb_ok (lmb_reserved boot_lmb)"
  by (simp add: lmb_ok_def boot_lmb_def table_of_def entries_def good_def below_def end_of_def block_def)

text \<open>
  C24. The reserved table of a logical memory block structure implements a set of addresses. On a
  well-formed table \<open>lmb_reserve\<close> returns; a negative result means that the table is full and leaves it
  as it was, any other adds exactly the new range to the set, and the table stays well formed when the
  range was free. \<open>lmb_free\<close> returns too: it refuses a range that no entry holds and otherwise removes
  exactly the range from the set. The one exception is a range in the middle of an entry of a full
  table: the call fails, and all addresses of the entry from the range on are no longer reserved. A
  reservation that overlaps reserved addresses and a free of the last region can leave a table that is not
  well formed.
\<close>

theorem lmb_reserve_free_refine:
  assumes "lmb_ok (lmb_reserved l)" and "good n"
  shows "(\<exists>r l'. lmb_reserve l (lp_base n) (lp_size n) = Some (r, l') \<and> lmb_memory l' = lmb_memory l \<and>
       (r < 0 \<longrightarrow> l' = l \<and> cnt (lmb_reserved l) = MAX_LMB_REGIONS) \<and>
       (0 \<le> r \<longrightarrow> covered (lmb_reserved l') = covered (lmb_reserved l) \<union> area n) \<and>
       (area n \<inter> covered (lmb_reserved l) = {} \<longrightarrow> lmb_ok (lmb_reserved l'))) \<and>
     (\<exists>r l'. lmb_free l (lp_base n) (lp_size n) = Some (r, l') \<and> lmb_memory l' = lmb_memory l \<and>
       free_outcome n (lmb_reserved l) r (lmb_reserved l'))"
proof
  obtain r rgn' where "lmb_add_region (lmb_reserved l) (lp_base n) (lp_size n) = Some (r, rgn')"
      "r < 0 \<longrightarrow> rgn' = lmb_reserved l \<and> cnt (lmb_reserved l) = MAX_LMB_REGIONS"
      "0 \<le> r \<longrightarrow> covered rgn' = covered (lmb_reserved l) \<union> area n"
      "area n \<inter> covered (lmb_reserved l) = {} \<longrightarrow> lmb_ok rgn'"
    using add_region_spec [OF assms] by (elim exE conjE)
  then show "\<exists>r l'. lmb_reserve l (lp_base n) (lp_size n) = Some (r, l') \<and> lmb_memory l' = lmb_memory l \<and>
       (r < 0 \<longrightarrow> l' = l \<and> cnt (lmb_reserved l) = MAX_LMB_REGIONS) \<and>
       (0 \<le> r \<longrightarrow> covered (lmb_reserved l') = covered (lmb_reserved l) \<union> area n) \<and>
       (area n \<inter> covered (lmb_reserved l) = {} \<longrightarrow> lmb_ok (lmb_reserved l'))"
    by (auto simp: lmb_reserve_def)
qed (rule free_spec [OF assms])

theorem lmb_reserve_free_refine_witness:
  "lmb_ok (lmb_reserved boot_lmb) \<and> good (block 0x2000 0x6000) \<and>
   (\<exists>r l'. lmb_reserve boot_lmb 0x2000 0x6000 = Some (r, l') \<and> lmb_ok (lmb_reserved l') \<and>
      covered (lmb_reserved l') = covered (lmb_reserved boot_lmb) \<union> area (block 0x2000 0x6000))"
proof -
  have n: "good (block 0x2000 0x6000)" "cnt (lmb_reserved boot_lmb) \<noteq> MAX_LMB_REGIONS"
    by (simp_all add: good_def end_of_def block_def boot_lmb_def table_of_def MAX_LMB_REGIONS_def)
  have b: "lp_base (block 0x2000 0x6000) = 0x2000" "lp_size (block 0x2000 0x6000) = 0x6000" by (simp_all add: block_def)
  have d: "area (block 0x2000 0x6000) \<inter> covered (lmb_reserved boot_lmb) = {}"
    by (auto simp: boot_lmb_def table_of_def entries_def block_def area_def end_of_def)
  show ?thesis using lmb_reserve_free_refine [OF boot_lmb_ok n(1)] n boot_lmb_ok d unfolding b by force
qed

text \<open>
  C23. The allocator returns for every request of a positive size, an alignment that is a power of two and
  a bound that is absent or not below the size, when the reserved table is well formed and the memory
  regions end low enough for the alignment. A block that it returns is a candidate (aligned, inside one
  memory region, below the bound), was free before and is reserved afterwards, with everything that was;
  the table stays well formed when the size is a multiple of the alignment. A result of zero changes
  nothing and means that the table of reserved regions is full or that no candidate is free.
\<close>

theorem lmb_alloc_base_correct:
  assumes "lmb_ok (lmb_reserved l)"
    and "unat (cnt (lmb_memory l)) \<le> length (region (lmb_memory l))"
    and "\<forall>p \<in> set (entries (lmb_memory l)). end_of p + 2 ^ k \<le> 2 ^ 64"
    and "k < 64" and "0 < sz" and "max_addr = LMB_ALLOC_ANYWHERE \<or> sz \<le> max_addr"
  shows "\<exists>a l'. lmb_alloc_base l sz (2 ^ k) max_addr = Some (a, l') \<and> lmb_memory l' = lmb_memory l \<and>
     (if a = 0 then l' = l \<and> (cnt (lmb_reserved l) = MAX_LMB_REGIONS \<or>
        (\<forall>b. candidate (entries (lmb_memory l)) sz k max_addr b \<longrightarrow> area (block b sz) \<inter> covered (lmb_reserved l) \<noteq> {}))
      else candidate (entries (lmb_memory l)) sz k max_addr a \<and>
        area (block a sz) \<inter> covered (lmb_reserved l) = {} \<and>
        covered (lmb_reserved l) \<union> area (block a sz) \<subseteq> covered (lmb_reserved l') \<and>
        (2 ^ k dvd unat sz \<longrightarrow> lmb_ok (lmb_reserved l')))"
proof -
  obtain a rgn' where
      "alloc_regions sz (2 ^ k) max_addr (lmb_reserved l) (region (lmb_memory l)) (unat (cnt (lmb_memory l))) = Some (a, rgn')"
      "if a = 0 then rgn' = lmb_reserved l \<and> (cnt (lmb_reserved l) = MAX_LMB_REGIONS \<or>
         none_free sz k (lmb_reserved l) {a. candidate (entries (lmb_memory l)) sz k max_addr a})
       else candidate (entries (lmb_memory l)) sz k max_addr a \<and> allocated sz k (2 ^ 64) (lmb_reserved l) a rgn'"
    using alloc_regions_spec [OF assms(1,4-6,2) assms(3) [unfolded entries_def]] unfolding entries_def [symmetric] by (elim exE conjE)
  then show ?thesis
    by (intro exI [of _ a] exI [of _ "l\<lparr>lmb_reserved := rgn'\<rparr>"])
       (auto simp: lmb_alloc_base_def lmb_alloc_base'_def none_free_def allocated_def block_def candidate_def split: if_split_asm)
qed

lemma boot_alloc: "map_option fst (lmb_alloc_base boot_lmb 0x3000 (2 ^ 12) 0xA000) = Some 0x5000"
  by code_simp

theorem lmb_alloc_base_correct_witness:
  "lmb_ok (lmb_reserved boot_lmb) \<and>
   (\<exists>l'. lmb_alloc_base boot_lmb 0x3000 (2 ^ 12) 0xA000 = Some (0x5000, l') \<and>
      candidate (entries (lmb_memory boot_lmb)) 0x3000 12 0xA000 0x5000 \<and>
      area (block 0x5000 0x3000) \<inter> covered (lmb_reserved boot_lmb) = {} \<and>
      area (block 0x5000 0x3000) \<subseteq> covered (lmb_reserved l') \<and> lmb_ok (lmb_reserved l'))"
proof -
  have m: "unat (cnt (lmb_memory boot_lmb)) \<le> length (region (lmb_memory boot_lmb))"
    "\<forall>p \<in> set (entries (lmb_memory boot_lmb)). end_of p + 2 ^ 12 \<le> 2 ^ 64"
    by (simp_all add: boot_lmb_def table_of_def entries_def end_of_def block_def)
  show ?thesis
    using lmb_alloc_base_correct [OF boot_lmb_ok m, of "0x3000" "0xA000"] boot_alloc boot_lmb_ok by force
qed

subsection \<open>Where the code leaves its contract\<close>

definition empty_lmb :: lmb where
  "empty_lmb = \<lparr>lmb_memory = table_of [block 0 0], lmb_reserved = table_of [block 0 0]\<rparr>"

definition reserve_and_free :: "u64 \<Rightarrow> u64 \<Rightarrow> lmb option" where
  "reserve_and_free b s =
     do { l \<leftarrow> lmb_init empty_lmb;
          (_, l) \<leftarrow> lmb_reserve l b s;
          (_, l) \<leftarrow> lmb_free l b s;
          Some l }"

definition freed_lmb :: "u64 \<Rightarrow> u64 \<Rightarrow> lmb" where
  "freed_lmb b s = empty_lmb\<lparr>lmb_reserved := \<lparr>cnt = 0, rgn_size = 0, region = block b s # replicate 8 (block 0 0)\<rparr>\<rparr>"

lemma reserve_and_free_leaves: "reserve_and_free 0x1000 0x1000 = Some (freed_lmb 0x1000 0x1000)"
    "reserve_and_free 0 0x1000 = Some (freed_lmb 0 0x1000)"
  by code_simp+

text \<open>
  Freeing the last region leaves no entry, a table \<open>lmb_add_region\<close> does not expect: a reservation
  above the freed region is not stored and the freed region is back instead.
\<close>

lemma reserve_after_free_lost:
  "map_option (\<lambda>(r, l). (r, lmb_is_reserved l 0x5000, lmb_is_reserved l 0x1000)) (lmb_reserve (freed_lmb 0x1000 0x1000) 0x5000 0x1000) =
   Some (0, Some False, Some True)"
  by code_simp

text \<open>
  When the freed region started at zero, the stale entries look adjacent, and removing one of them runs
  over the end of the array.
\<close>

lemma remove_loop_overruns: "i < length regs \<Longrightarrow> length regs \<le> n \<Longrightarrow> remove_loop n i regs = None"
  by (induction n i regs rule: remove_loop.induct) simp

lemma reserve_after_free_overruns: "lmb_reserve (freed_lmb 0 0x1000) 0x5000 0x1000 = None"
proof -
  have "9 \<le> unat (- 1 :: u64)" using word_le_nat_alt [of 9 "- 1 :: u64"] by simp
  moreover have "(0 :: u64) < - 1" by (simp add: word_gt_0)
  ultimately show ?thesis
    by (simp add: lmb_reserve_def lmb_add_region_def freed_lmb_def try_coalesce_def nth_opt_def block_def
        lmb_regions_adjacent_def lmb_addrs_adjacent_def lmb_coalesce_regions_def lmb_remove_region_def remove_loop_overruns)
qed

text \<open>A bound below the size wraps: the block is outside all memory.\<close>

lemma alloc_below_size_wraps:
  "map_option fst (lmb_alloc_base boot_lmb 0x2000 0x1000 0x1000) = Some 0xFFFFFFFFFFFFF000"
  by code_simp

text \<open>
  The reserved size is rounded up after the check for overlaps, so the reservation may overlap another one.
\<close>

lemma alloc_rounds_over_reserved:
  "map_option (\<lambda>(a, l). (a, entries (lmb_reserved l)))
     (lmb_alloc_base (boot_lmb\<lparr>lmb_reserved := table_of [block 0x1200 0x100]\<rparr>) 0x100 0x1000 0x1200) =
   Some (0x1000, [block 0x1000 0x1000, block 0x1200 0x100])"
  by code_simp

text \<open>
  Freeing the middle of an entry of a full table fails, but the upper part of the entry is gone.
\<close>

lemma free_full_loses_tail:
  "map_option (\<lambda>(r, l). (r, lmb_is_reserved l 0x2800))
     (lmb_free (boot_lmb\<lparr>lmb_reserved := table_of (block 0x1000 0x2000 # map (\<lambda>b. block b 0x1000) [0x4000, 0x6000, 0x8000, 0xA000, 0xC000, 0xE000, 0x10000])\<rparr>) 0x2000 0x100) =
   Some (- 1, Some False)"
  by code_simp

end
