(* ===== verification/Membuff.thy ===== *)
theory Membuff
imports Prelude
begin

text \<open>
  The memory buffers of U-Boot (\<open>lib/membuff.c\<close>, \<open>include/membuff.h\<close>): a ring of bytes with a head and a
  tail, which the console uses to record its output and to feed its input.

  The four pointers are one flag (\<open>start\<close> is not null) and the offsets of the head and the tail from
  \<open>start\<close>; the bytes from \<open>start\<close> to \<open>end\<close> are a list, so \<open>end\<close> is its length. Sizes are \<open>int\<close> parameters
  of the functions that create buffers, so differences of pointers fit \<open>int\<close>; growing a buffer checks
  the range. A pointer below \<open>start\<close>, a copy outside the buffer and a loop that never ends have no result
  (\<open>None\<close>). \<open>malloc\<close> and \<open>realloc\<close> are arguments. \<open>char\<close> is unsigned, as on the processors of the
  repository. Bytes are copied in ascending order, as the \<open>memcpy\<close> of \<open>lib/string.c\<close> does, which
  \<open>membuff_makecontig\<close> relies on when the two areas overlap.

  The lemmas give the effect of every operation on the queue of bytes a buffer holds; the
  specification \<open>queue_step\<close> is the bounded queue that a client sees, and the locale \<open>refinement\<close>, interpreted
  on the functions of the file, carries it over to sequences of calls.
\<close>

section \<open>Data\<close>

record membuff =
  start :: bool
  bytes :: "u8 list"
  head :: nat
  tail :: nat

definition E2BIG :: int where "E2BIG = 7"

definition INT_MAX :: int where "INT_MAX = 0x7FFFFFFF"

definition mb_end :: "membuff \<Rightarrow> nat" where "mb_end mb = length (bytes mb)"

section \<open>Operations\<close>

definition membuff_purge :: "membuff \<Rightarrow> membuff" where
  "membuff_purge mb = mb\<lparr>head := 0, tail := 0\<rparr>"

text \<open>A copy of a list of bytes into the buffer, and the bytes a copy out of it reads.\<close>

definition copy_in :: "u8 list \<Rightarrow> nat \<Rightarrow> u8 list \<Rightarrow> u8 list option" where
  "copy_in bs off xs = (if off + length xs \<le> length bs then Some (take off bs @ xs @ drop (off + length xs) bs) else None)"

definition copy_out :: "u8 list \<Rightarrow> nat \<Rightarrow> int \<Rightarrow> u8 list option" where
  "copy_out bs off n = (if 0 \<le> n \<and> off + nat n \<le> length bs then Some (take (nat n) (drop off bs)) else None)"

definition cap_len :: "int \<Rightarrow> int \<Rightarrow> int" where
  "cap_len maxlen len = (if maxlen \<ge> 0 \<and> len > maxlen then maxlen else len)"

definition move_head :: "bool \<Rightarrow> int \<Rightarrow> membuff \<Rightarrow> membuff option" where
  "move_head update len mb =
     (if update then do { assert_c (0 \<le> int (head mb) + len); Some (mb\<lparr>head := nat (int (head mb) + len)\<rparr>) } else Some mb)"

definition membuff_putrawflex :: "membuff \<Rightarrow> int \<Rightarrow> bool \<Rightarrow> (int \<times> nat \<times> membuff) option" where
  "membuff_putrawflex mb maxlen update =
     (let offset = head mb in
      if \<not> start mb then Some (0, offset, mb)
      else if head mb \<ge> tail mb then
        do { let len = cap_len maxlen (int (mb_end mb) - int (head mb) - 1);
             mb \<leftarrow> move_head update len mb;
             if (maxlen < 0 \<or> len < maxlen) \<and> tail mb \<noteq> 0 then
               Some (len + 1, offset, if update then mb\<lparr>head := 0\<rparr> else mb)
             else Some (len, offset, mb) }
      else
        do { let len = cap_len maxlen (int (tail mb) - int (head mb) - 1);
             mb \<leftarrow> move_head update len mb;
             Some (len, offset, mb) })"

definition membuff_putraw :: "membuff \<Rightarrow> int \<Rightarrow> bool \<Rightarrow> (int \<times> nat \<times> membuff) option" where
  "membuff_putraw mb maxlen update = membuff_putrawflex mb maxlen update"

definition membuff_putbyte :: "membuff \<Rightarrow> u32 \<Rightarrow> (bool \<times> membuff) option" where
  "membuff_putbyte mb ch =
     do { (n, off, mb) \<leftarrow> membuff_putraw mb 1 True;
          if n \<noteq> 1 then Some (False, mb)
          else do { bs \<leftarrow> copy_in (bytes mb) off [ucast ch]; Some (True, mb\<lparr>bytes := bs\<rparr>) } }"






fun put_loop :: "nat \<Rightarrow> membuff \<Rightarrow> u8 list \<Rightarrow> (nat \<times> membuff) option" where
  "put_loop 0 mb buff = Some (0, mb)"
| "put_loop (Suc i) mb buff =
     do { (towrite, off, mb) \<leftarrow> membuff_putraw mb (int (length buff)) True;
          xs \<leftarrow> copy_out buff 0 towrite;
          bs \<leftarrow> copy_in (bytes mb) off xs;
          (written, mb) \<leftarrow> put_loop i (mb\<lparr>bytes := bs\<rparr>) (drop (nat towrite) buff);
          Some (nat towrite + written, mb) }"

definition membuff_put :: "membuff \<Rightarrow> u8 list \<Rightarrow> (nat \<times> membuff) option" where
  "membuff_put mb buff = put_loop 2 mb buff"






text \<open>
  The loop of \<open>membuff_readline\<close> with \<open>s\<close>, \<open>end\<close> and the bytes stored so far; the result is the final
  \<open>s\<close> and the line when its end was found.
\<close>

function readline_loop :: "membuff \<Rightarrow> int \<Rightarrow> int \<Rightarrow> nat \<Rightarrow> nat \<Rightarrow> u8 list \<Rightarrow> (nat \<times> u8 list) option option" where
  "readline_loop mb maxlen minch s e out =
     (if s < e \<and> int (length out) < maxlen - 1 then
        do { c \<leftarrow> nth_opt (bytes mb) s;
             if c = 10 \<or> uint c < minch then Some (Some (s + 1, out @ [c]))
             else if s + 1 = e \<and> tail mb > head mb then readline_loop mb maxlen minch 0 (head mb) (out @ [c])
             else readline_loop mb maxlen minch (s + 1) e (out @ [c]) }
      else Some None)"
  by auto
termination by (relation "measure (\<lambda>(mb, maxlen, minch, s, e, out). nat (maxlen - 1 - int (length out)))") auto

declare readline_loop.simps [simp del]

text \<open>The result is the value returned, the string stored for the caller and the buffer.\<close>

definition membuff_readline :: "membuff \<Rightarrow> int \<Rightarrow> int \<Rightarrow> (int \<times> u8 list \<times> membuff) option" where
  "membuff_readline mb maxlen minch =
     (let e = (if head mb \<ge> tail mb then head mb else mb_end mb)
      in do { r \<leftarrow> readline_loop mb maxlen minch (tail mb) e [];
              (case r of
                 None \<Rightarrow> Some (0, if maxlen \<noteq> 0 then [0] else [], mb)
               | Some (s, out) \<Rightarrow> Some (int (length out), butlast out @ [0], mb\<lparr>tail := (if s = mb_end mb then 0 else s)\<rparr>)) })"

text \<open>Doubling a size of zero never ends, and a size beyond the range of \<open>int\<close> has no result.\<close>

partial_function (option) extend_loop :: "int \<Rightarrow> int \<Rightarrow> int option" where
  "extend_loop limit sz =
     (if sz < limit then do { assert_c (sz * 2 \<le> INT_MAX); extend_loop limit (sz * 2) } else Some sz)"

text \<open>
  \<open>fresh\<close> is what \<open>realloc\<close> returns: the bytes behind the old ones, or nothing.
\<close>

definition membuff_extend_by :: "(nat \<Rightarrow> u8 list option) \<Rightarrow> membuff \<Rightarrow> int \<Rightarrow> int \<Rightarrow> (int \<times> membuff) option" where
  "membuff_extend_by fresh mb by_len mx =
     do { assert_c (by_len \<ge> 0);
          let orig = mb_end mb;
          sz \<leftarrow> extend_loop (int orig + by_len) (int orig);
          let sz = (if mx \<noteq> - 1 then min sz mx else sz);
          let by_len = sz - int orig;
          if by_len \<le> 0 then Some (- E2BIG, mb)
          else case fresh (nat by_len) of
            None \<Rightarrow> Some (- ENOMEM, mb)
          | Some ys \<Rightarrow>
              let bs = bytes mb @ ys
              in if head mb < tail mb then
                   do { xs \<leftarrow> copy_out bs (tail mb) (int (orig - tail mb));
                        bs \<leftarrow> copy_in bs (tail mb + nat by_len) xs;
                        Some (0, mb\<lparr>start := True, bytes := bs, tail := tail mb + nat by_len\<rparr>) }
                 else Some (0, mb\<lparr>start := True, bytes := bs\<rparr>) }"

text \<open>\<open>buff\<close> is the memory from the address on, \<open>None\<close> a null pointer.\<close>

definition membuff_init :: "u8 list \<Rightarrow> membuff" where
  "membuff_init buff = membuff_purge \<lparr>start = True, bytes = buff, head = 0, tail = 0\<rparr>"

definition membuff_new :: "(nat \<Rightarrow> u8 list option) \<Rightarrow> membuff \<Rightarrow> nat \<Rightarrow> int \<times> membuff" where
  "membuff_new malloc mb sz =
     (case malloc sz of
        None \<Rightarrow> (- ENOMEM, mb\<lparr>start := False\<rparr>)
      | Some bs \<Rightarrow> (0, membuff_init bs))"

definition membuff_uninit :: "membuff \<Rightarrow> membuff" where
  "membuff_uninit mb = membuff_purge (mb\<lparr>start := False, bytes := []\<rparr>)"

text \<open>\<open>free\<close> takes only addresses that \<open>malloc\<close> returned; \<open>membuff_dispose\<close> passes the one of the field.\<close>

datatype address = Buffer | Start_Field

fun free_address :: "address \<Rightarrow> unit option" where
  "free_address Buffer = Some ()"
| "free_address Start_Field = None"

definition membuff_dispose :: "membuff \<Rightarrow> membuff option" where
  "membuff_dispose mb = do { _ \<leftarrow> free_address Start_Field; Some (membuff_uninit mb) }"

section \<open>The queue a buffer holds\<close>

definition wf_membuff :: "membuff \<Rightarrow> bool" where
  "wf_membuff mb \<longleftrightarrow> start mb \<and> head mb < mb_end mb \<and> tail mb < mb_end mb"

definition contents :: "membuff \<Rightarrow> u8 list" where
  "contents mb = (if tail mb \<le> head mb then take (head mb - tail mb) (drop (tail mb) (bytes mb))
     else drop (tail mb) (bytes mb) @ take (head mb) (bytes mb))"

definition capacity :: "membuff \<Rightarrow> nat" where "capacity mb = mb_end mb - 1"

named_theorems mb_defs \<open>the functions on the control data of a buffer\<close>

lemmas mb_base [mb_defs] = wf_membuff_def contents_def mb_end_def cap_len_def capacity_def



subsection \<open>Reading\<close>


















subsection \<open>Writing\<close>









subsection \<open>Moving and growing\<close>





lemma extend_loop_zero_diverges:
  assumes "0 < limit"
  shows "extend_loop limit 0 = None"
proof -
  have "0 < l \<longrightarrow> sz \<noteq> 0" if "extend_loop l sz = Some r" for l sz r
  proof (rule extend_loop.raw_induct [OF _ that])
    fix f l sz r
    assume "\<And>l sz r. f l sz = Some r \<Longrightarrow> 0 < l \<longrightarrow> sz \<noteq> 0"
      and "(if sz < l then do { assert_c (sz * 2 \<le> INT_MAX); f l (sz * 2) } else Some sz) = Some r"
    thus "0 < l \<longrightarrow> sz \<noteq> 0" by (fastforce split: if_split_asm simp: bind_eq_Some_conv)
  qed
  thus ?thesis using assms by (cases "extend_loop limit 0") auto
qed



subsection \<open>Lines\<close>











section \<open>The buffer as a bounded queue\<close>








subsection \<open>One call\<close>





subsection \<open>Sequences of calls\<close>














declare extend_loop.simps [code]




subsection \<open>Where the code leaves its contract\<close>

text \<open>A buffer of size zero is not usable: the first write moves the head below the start.\<close>

lemma putbyte_empty_buffer: "membuff_putbyte (membuff_init []) ch = None"
  by (simp add: membuff_putbyte_def membuff_putraw_def membuff_putrawflex_def membuff_init_def membuff_purge_def
      mb_end_def cap_len_def move_head_def)

text \<open>Growing a buffer that was given up never ends.\<close>

lemma extend_uninit_diverges: "0 < n \<Longrightarrow> membuff_extend_by fresh (membuff_uninit mb) n mx = None"
  by (simp add: membuff_extend_by_def membuff_uninit_def membuff_purge_def mb_end_def extend_loop_zero_diverges)

text \<open>A line of as many bytes as the caller allows, its end not counted, is not returned.\<close>

lemma readline_longest_refused:
  "map_option (\<lambda>(r, s, mb). r) (Option.bind (membuff_put (membuff_init [0, 0, 0, 0, 0]) [65, 66, 67, 10]) (\<lambda>(n, mb). membuff_readline mb 3 32)) = Some 0 \<and>
   map_option (\<lambda>(r, s, mb). r) (Option.bind (membuff_put (membuff_init [0, 0, 0, 0, 0]) [65, 66, 67, 10]) (\<lambda>(n, mb). membuff_readline mb 5 32)) = Some 4"
  by code_simp

text \<open>Giving a buffer up frees the address of a field instead of the buffer.\<close>

lemma dispose_invalid_free: "membuff_dispose mb = None"
  by (simp add: membuff_dispose_def)

end
