(* ===== verification/Spec2Isabelle.thy ===== *)
theory Spec2Isabelle
  imports Prelude Auth_Mod Context_Mgmt Fwu Bl_Common Tbbr_Cot Bakery_Lock Marvell_Pm Lmb Membuff
begin

text \<open>
  A verification development for the boot software of the Marvell Armada 7K/8K and 3700 boards: the
  trusted firmware (\<open>src/atf-marvell\<close>) and the boot loader U-Boot (\<open>src/u-boot-marvell\<close>). Paths below
  are relative to these two directories.

  \<^bold>\<open>The program.\<close> The boot ROM image BL1 starts the processor. It loads BL2 through the storage layer,
  authenticates it against a chain of trust and starts it; BL2 loads the EL3 run-time firmware BL31 and
  U-Boot in the same way. If an update is needed, BL1 serves firmware update calls (SMCs) instead. BL31
  stays resident and answers the power management calls (PSCI) of the operating system; its data are
  guarded by locks that work before the caches do. U-Boot places the kernel, the device tree and the
  ramdisk in memory with an allocator of memory blocks, and can record its console in ring buffers.

  \<^bold>\<open>Conventions.\<close> A C function is a HOL function with the same name. Integers keep their width
  (\<open>u8\<close> to \<open>u64\<close>); C's \<open>int\<close> results are \<open>int\<close>. A failed assertion, a panic, a null pointer and an access
  outside an array give \<open>None\<close>; error codes are values. A loop is a recursion over the indices left, a
  \<open>function\<close> with a decreasing measure, or, where the code may not stop, a \<open>partial_function (option)\<close>, so
  that not stopping is \<open>None\<close> and a statement that a result exists says that the code stops. No fuel is used.
  Code outside the sources (the X.509 and crypto libraries, the platform's root key and counters, the
  secure payload dispatcher, \<open>malloc\<close>) is an argument, with what is relied on as a named hypothesis.

  \<^bold>\<open>The theories.\<close>

  \<^item> \<open>Prelude\<close>: widths, error numbers, memory with \<open>memcpy\<close> and \<open>memset\<close>, assertions, and the locale
    \<open>state_machine\<close> (an invariant of the start that all steps keep).

  \<^item> \<open>Auth_Mod\<close> (\<open>drivers/auth/auth_mod.c\<close>, \<open>img_parser_mod.c\<close>, \<open>crypto_mod.c\<close>): verification of an image
    with its descriptor. An image is marked only after its integrity check and all methods accepted the
    bytes; no accepted certificate is older than the platform's counter; counters never decrease; a
    failure changes no mark. The locale \<open>image_verifier\<close> is what the users of the module rely on.

  \<^item> \<open>Context_Mgmt\<close> (\<open>lib/el3_runtime/aarch64/context_mgmt.c\<close>, \<open>bl1/aarch64/bl1_context_mgmt.c\<close>): saving
    and restoring the registers of the two worlds.

  \<^item> \<open>Fwu\<close> (\<open>bl1/bl1_fwu.c\<close>, \<open>bl1/bl1_main.c\<close>, \<open>plat/arm/common/arm_bl1_fwu.c\<close>): the update service as a
    state machine whose steps are the calls of both worlds. In every reachable state only authenticated
    secure images run, and no call stops BL1 but the last one, which waits for a reset, and an
    authentication that stops in the authentication module; a copy stays inside its image unless its 32-bit sum wraps,
    which a reachable call can do; a failed authentication erases the image; worlds get their registers back.

  \<^item> \<open>Io_Storage\<close>, \<open>Io_Memmap\<close>, \<open>Io_Fip\<close>, \<open>Marvell_Io\<close> (\<open>drivers/io/\<close>,
    \<open>plat/marvell/common/marvell_io_storage.c\<close>): the pool of open files, the two drivers and the policy that
    finds an image. The locales \<open>io_driver\<close> and \<open>io_table\<close> are what the pool needs of the drivers. The pool
    stays consistent, handles are fresh, and opening a file of a package finds its first entry; a back
    end that fails during the search leaves the package driver refusing every later open.

  \<^item> \<open>Bl_Common\<close> (\<open>common/bl_common.c\<close>): free memory, loading an image, loading it with its parents. A
    successful authenticated load has verified all ancestors first, on the bytes that are handed on; the
    recursion equals a loop down the chain; a load leaks no handle; a load from a package of a Marvell
    platform, composed with all storage theories, copies exactly the image.

  \<^item> \<open>Tbbr_Cot\<close> (\<open>drivers/auth/tbbr/tbbr_cot.c\<close>): the concrete chain of trust. Every image is at most
    four loads from the root key, verification stops at an assertion only where the parser or the platform
    reports success without data, and one table entry without a descriptor lets an image pass unchecked.

  \<^item> \<open>Bakery_Lock\<close> (\<open>lib/locks/bakery/bakery_lock_coherent.c\<close>): the steps of all processors in any order,
    with the event registers of \<open>wfe\<close> and \<open>sev\<close>. They refine Lamport's algorithm while the tickets fit in
    15 bits: mutual exclusion, order of service and progress, for which no wake-up may be lost; a run in
    which the ticket after \<open>0x7FFF\<close> is stored as 0 ends with two holders.

  \<^item> \<open>Psci\<close>, \<open>Psci_Tree\<close>, \<open>Psci_Inv\<close>, \<open>Marvell_Pm\<close> (\<open>lib/psci/\<close>, \<open>plat/common/plat_psci_common.c\<close>,
    \<open>plat/marvell/common/marvell_topology.c\<close>, \<open>plat_pm.c\<close> of both SoCs): the whole library, what its loops over
    the tree of power domains compute, the invariant of a system of processors that call, sleep and
    wake, and the two ports. The locale \<open>psci_platform\<close> is what the library needs of a port; both ports
    meet it. On an Armada 8K the domains above a running processor are on, a returning processor meets
    no assertion, a cluster is off only when idle, and turning a processor on succeeds in exactly
    the stated cases; coordination computes the shallowest request. Two handlers that panic are
    reachable from the normal world.

  \<^item> \<open>Lmb\<close> (\<open>lib/lmb.c\<close> of U-Boot): reserving and freeing are union and difference on sets of
    addresses; while the table has room, the allocator finds a block exactly when one is free. Five evaluated calls
    show where the code leaves this contract.

  \<^item> \<open>Membuff\<close> (\<open>lib/membuff.c\<close> of U-Boot): every operation on the queue of bytes a ring buffer holds.
    Through the locale \<open>refinement\<close>, any sequence of calls gives the replies of a bounded queue.

  \<^bold>\<open>Bounds.\<close> The Lamport refinement assumes tickets below \<open>0x8000\<close> and at most 256 processors, the width
  of the slots; the wrap beyond is a theorem. Its progress bound is \<open>N (5 N + 5)\<close> steps for \<open>N\<close> processors. The trees of \<open>Psci_Tree\<close> have any number of levels; the
  ports instantiate them with the topology of the boards. A table of \<open>Lmb\<close> has \<open>MAX_LMB_REGIONS\<close> entries,
  and memory regions end at least one alignment unit below \<open>2 ^ 64\<close>. Growing a buffer of \<open>Membuff\<close> is
  proved to end for sizes whose double fits \<open>int\<close>, and not to end from size zero.

  \<^bold>\<open>Not modelled.\<close> Register programming, device drivers and assembly have no meaning without a model of
  the hardware: the SoC drivers, interrupt controllers, consoles, DRAM training (\<open>ble\<close> and
  \<open>A3700-utils-marvell\<close>), translation tables, exception vectors and U-Boot's \<open>arch\<close>, \<open>board\<close> and \<open>drivers\<close>.
  BL2's and BL31's main functions are fixed sequences of calls to modelled functions and platform
  hooks. The X.509 parser and crypto wrappers call a library that is not in the tree. Other platforms,
  AArch32, secure payloads, statistics, non-coherent locks and the second image descriptor format are
  not part of the Marvell builds. U-Boot's commands, file systems, network stack and the rest of its
  library were left out for size. A PSCI operation is one step from taking its locks to releasing
  them: the interleaving of processors is modelled at the locks (\<open>Bakery_Lock\<close>) and between operations.
\<close>

end
